(* ===== verification/Eltanin_Resource.thy ===== *)
theory Eltanin_Resource
  imports Eltanin_Prelude
begin

text \<open>
  Models \<open>crates/eltanin-core/src/resource.rs\<close> (protected resources, capabilities and their
  support states, compute requests, enforcement results) and
  \<open>crates/eltanin-core/src/envelope.rs\<close> (the versioned envelope). Opaque string tags
  (\<open>ResourceVendor\<close>, \<open>ResourceKind\<close>) are strings; the capability map, a Rust \<open>BTreeMap\<close> that
  is only looked up and iterated in key order, is a partial function, its iteration the
  declaration order of the capabilities.
\<close>

section \<open>Support states and capabilities\<close>

datatype support_state = Supported | Partial | Unsupported | NotEvaluated

fun is_proven :: "support_state \<Rightarrow> bool" where
  "is_proven Supported = True"
| "is_proven _ = False"

datatype capability =
    DiscoverResource | ObserveResource | ObserveWorkload | AttributeWorkload | Authorize
  | ControlledLaunch | DeviceEnforce | DeviceRevoke | Attest

text \<open>The derived \<open>Ord\<close> of \<open>Capability\<close>: declaration order, which fixes the iteration order.\<close>

fun capability_index :: "capability \<Rightarrow> nat" where
  "capability_index DiscoverResource = 0"
| "capability_index ObserveResource = 1"
| "capability_index ObserveWorkload = 2"
| "capability_index AttributeWorkload = 3"
| "capability_index Authorize = 4"
| "capability_index ControlledLaunch = 5"
| "capability_index DeviceEnforce = 6"
| "capability_index DeviceRevoke = 7"
| "capability_index Attest = 8"

lemma capability_index_inject [simp]: "capability_index a = capability_index b \<longleftrightarrow> a = b"
  by (cases a; cases b) simp_all

instantiation capability :: linorder
begin

definition less_eq_capability :: "capability \<Rightarrow> capability \<Rightarrow> bool" where
  "less_eq_capability a b \<longleftrightarrow> capability_index a \<le> capability_index b"

definition less_capability :: "capability \<Rightarrow> capability \<Rightarrow> bool" where
  "less_capability a b \<longleftrightarrow> capability_index a < capability_index b"

instance
  by standard (auto simp: less_eq_capability_def less_capability_def)

end

definition all_capabilities :: "capability list" where
  "all_capabilities =
     [DiscoverResource, ObserveResource, ObserveWorkload, AttributeWorkload, Authorize,
      ControlledLaunch, DeviceEnforce, DeviceRevoke, Attest]"

lemma set_all_capabilities: "set all_capabilities = UNIV"
  by (auto simp: all_capabilities_def) (metis capability.exhaust)

lemma sorted_all_capabilities: "sorted_wrt (<) all_capabilities"
  by (simp add: all_capabilities_def less_capability_def)

section \<open>Resource capabilities\<close>

type_synonym resource_capabilities = "capability \<rightharpoonup> support_state"

definition capabilities_new :: "capability list \<Rightarrow> resource_capabilities" where
  "capabilities_new supported = map_of (rev (map (\<lambda>c. (c, Supported)) supported))"

text \<open>Collecting pairs into a map keeps the last value of a repeated key.\<close>

definition from_states :: "(capability \<times> support_state) list \<Rightarrow> resource_capabilities" where
  "from_states states = map_of (rev states)"

definition state_of :: "resource_capabilities \<Rightarrow> capability \<Rightarrow> support_state" where
  "state_of caps c = (case caps c of Some s \<Rightarrow> s | None \<Rightarrow> NotEvaluated)"

definition supports :: "resource_capabilities \<Rightarrow> capability \<Rightarrow> bool" where
  "supports caps c \<longleftrightarrow> is_proven (state_of caps c)"

definition capabilities_iter :: "resource_capabilities \<Rightarrow> (capability \<times> support_state) list" where
  "capabilities_iter caps =
     List.map_filter (\<lambda>c. map_option (Pair c) (caps c)) all_capabilities"

lemma is_proven_iff [simp]: "is_proven s \<longleftrightarrow> s = Supported"
  by (cases s) simp_all

lemma supports_iff: "supports caps c \<longleftrightarrow> caps c = Some Supported"
  by (simp add: supports_def state_of_def split: option.splits)

lemma capabilities_new_eq:
  "capabilities_new cs c = (if c \<in> set cs then Some Supported else None)"
proof -
  have "map_of (map (\<lambda>c. (c, Supported)) xs) c = (if c \<in> set xs then Some Supported else None)"
    for xs by (induction xs) auto
  from this [of "rev cs"] show ?thesis
    by (simp add: capabilities_new_def rev_map)
qed

lemma supports_capabilities_new: "supports (capabilities_new cs) c \<longleftrightarrow> c \<in> set cs"
  by (simp add: supports_iff capabilities_new_eq)

lemma set_capabilities_iter: "(c, s) \<in> set (capabilities_iter caps) \<longleftrightarrow> caps c = Some s"
  by (force simp: capabilities_iter_def map_filter_def set_all_capabilities image_iff)

section \<open>Resources, requests and enforcement results\<close>

type_synonym resource_vendor = string
type_synonym resource_kind = string

definition vendor_fake :: resource_vendor where "vendor_fake = ''fake''"
definition kind_gpu :: resource_kind where "kind_gpu = ''gpu''"

record resource_identity =
  ri_vendor :: resource_vendor
  ri_kind :: resource_kind
  ri_local_id :: string

datatype accelerator_memory = Dedicated u64 | Unified | NotReportable

record protected_resource =
  pr_identity :: resource_identity
  pr_capabilities :: resource_capabilities
  pr_memory :: accelerator_memory

datatype action = Compute | UnknownAction

record compute_request =
  cr_resource :: resource_identity
  cr_action :: action

datatype enforcement_result =
    Allowed
  | EnforcementDenied string
  | EnforcementUnsupported capability
  | EnforcementError string

section \<open>The versioned envelope\<close>

definition DOMAIN_SCHEMA_VERSION :: u16 where
  "DOMAIN_SCHEMA_VERSION = 1"

record 'a versioned =
  v_version :: u16
  v_payload :: 'a

record unsupported_version =
  uv_found :: u16
  uv_expected :: u16

definition versioned_current :: "'a \<Rightarrow> 'a versioned" where
  "versioned_current p = \<lparr>v_version = DOMAIN_SCHEMA_VERSION, v_payload = p\<rparr>"

definition into_current :: "'a versioned \<Rightarrow> (unsupported_version, 'a) result" where
  "into_current v =
     (if v_version v = DOMAIN_SCHEMA_VERSION then Inr (v_payload v)
      else Inl \<lparr>uv_found = v_version v, uv_expected = DOMAIN_SCHEMA_VERSION\<rparr>)"

lemma into_current_current [simp]: "into_current (versioned_current p) = Inr p"
  by (simp add: into_current_def versioned_current_def)

lemma into_current_Inr_iff: "into_current v = Inr p \<longleftrightarrow> v = versioned_current p"
  by (cases v) (auto simp: into_current_def versioned_current_def)

lemma into_current_Inl_iff:
  "into_current v = Inl e \<longleftrightarrow>
     v_version v \<noteq> DOMAIN_SCHEMA_VERSION \<and>
     e = \<lparr>uv_found = v_version v, uv_expected = DOMAIN_SCHEMA_VERSION\<rparr>"
  by (auto simp: into_current_def)

end
