(* ===== verification/Eltanin_Identity.thy ===== *)
theory Eltanin_Identity
  imports Eltanin_Resource
begin

text \<open>
  Models \<open>crates/eltanin-core/src/identity.rs\<close> (evidence with its trust source, workload
  identity, the three-way process and executable comparisons, the execution context) and
  \<open>crates/eltanin-core/src/provenance.rs\<close> (the record that pairs a context with the request
  it accompanied).
\<close>

section \<open>Evidence\<close>

datatype evidence_source = KernelObserved | BestEffort | SelfAsserted

datatype 'a evidence =
    Present 'a evidence_source
  | Missing string
  | EvidenceUnsupported

fun is_present :: "'a evidence \<Rightarrow> bool" where
  "is_present (Present _ _) = True"
| "is_present _ = False"

fun evidence_value :: "'a evidence \<Rightarrow> 'a option" where
  "evidence_value (Present v _) = Some v"
| "evidence_value _ = None"

text \<open>Evidence a comparison may rely on: present, and not the workload's own claim.\<close>

fun trusted_value :: "'a evidence \<Rightarrow> 'a option" where
  "trusted_value (Present v s) = (if s \<noteq> SelfAsserted then Some v else None)"
| "trusted_value _ = None"

lemma is_present_iff: "is_present e \<longleftrightarrow> (\<exists>v. evidence_value e = Some v)"
  by (cases e) auto

lemma trusted_value_Some:
  "trusted_value e = Some v \<longleftrightarrow> (\<exists>s. e = Present v s \<and> s \<noteq> SelfAsserted)"
  by (cases e) auto

section \<open>Workload identity\<close>

type_synonym process_start_token = u64

record process_ancestor =
  pa_pid :: u32
  pa_start :: "process_start_token evidence"
  pa_executable_path :: "string evidence"

datatype identity_comparison = Same | Different | CompIndeterminate

record workload_identity =
  wi_pid :: u32
  wi_process_start :: "process_start_token evidence"
  wi_uid :: "u32 evidence"
  wi_gid :: "u32 evidence"
  wi_executable_path :: "string evidence"
  wi_executable_hash :: "string evidence"
  wi_ancestry :: "process_ancestor list"

definition compare_process ::
  "workload_identity \<Rightarrow> workload_identity \<Rightarrow> identity_comparison" where
  "compare_process a b =
     (case (wi_process_start a, wi_process_start b) of
        (Present x sx, Present y sy) \<Rightarrow>
          if sx \<noteq> SelfAsserted \<and> sy \<noteq> SelfAsserted then
            (if wi_pid a = wi_pid b \<and> x = y then Same else Different)
          else CompIndeterminate
      | _ \<Rightarrow> CompIndeterminate)"

definition compare_evidence :: "'a evidence \<Rightarrow> 'a evidence \<Rightarrow> identity_comparison option" where
  "compare_evidence a b =
     (case (a, b) of
        (Present x sx, Present y sy) \<Rightarrow>
          if sx \<noteq> SelfAsserted \<and> sy \<noteq> SelfAsserted then
            Some (if x = y then Same else Different)
          else None
      | _ \<Rightarrow> None)"

definition compare_executable ::
  "workload_identity \<Rightarrow> workload_identity \<Rightarrow> identity_comparison" where
  "compare_executable a b =
     (case compare_evidence (wi_executable_hash a) (wi_executable_hash b) of
        Some c \<Rightarrow> c
      | None \<Rightarrow>
          (case compare_evidence (wi_executable_path a) (wi_executable_path b) of
             Some c \<Rightarrow> c
           | None \<Rightarrow> CompIndeterminate))"

lemma compare_process_trusted:
  "compare_process a b =
     (case (trusted_value (wi_process_start a), trusted_value (wi_process_start b)) of
        (Some x, Some y) \<Rightarrow> if wi_pid a = wi_pid b \<and> x = y then Same else Different
      | _ \<Rightarrow> CompIndeterminate)"
  by (cases "wi_process_start a"; cases "wi_process_start b") (simp_all add: compare_process_def)

lemma compare_evidence_trusted:
  "compare_evidence a b =
     (case (trusted_value a, trusted_value b) of
        (Some x, Some y) \<Rightarrow> Some (if x = y then Same else Different)
      | _ \<Rightarrow> None)"
  by (cases a; cases b) (simp_all add: compare_evidence_def)

lemma compare_process_Same_iff:
  "compare_process a b = Same \<longleftrightarrow>
     wi_pid a = wi_pid b \<and>
     (\<exists>t. trusted_value (wi_process_start a) = Some t \<and>
          trusted_value (wi_process_start b) = Some t)"
  by (auto simp: compare_process_trusted split: option.splits)

lemma compare_process_Indeterminate_iff:
  "compare_process a b = CompIndeterminate \<longleftrightarrow>
     trusted_value (wi_process_start a) = None \<or> trusted_value (wi_process_start b) = None"
  by (auto simp: compare_process_trusted split: option.splits)

lemma compare_executable_Same_iff:
  "compare_executable a b = Same \<longleftrightarrow>
     (\<exists>h. trusted_value (wi_executable_hash a) = Some h \<and>
          trusted_value (wi_executable_hash b) = Some h) \<or>
     (trusted_value (wi_executable_hash a) = None \<or> trusted_value (wi_executable_hash b) = None) \<and>
     (\<exists>p. trusted_value (wi_executable_path a) = Some p \<and>
          trusted_value (wi_executable_path b) = Some p)"
  by (auto simp: compare_executable_def compare_evidence_trusted split: option.splits)

lemma compare_process_sym: "compare_process a b = compare_process b a"
  by (auto simp: compare_process_trusted split: option.splits)

lemma compare_executable_sym: "compare_executable a b = compare_executable b a"
  by (auto simp: compare_executable_def compare_evidence_trusted split: option.splits)

lemma compare_process_refl:
  "compare_process a a =
     (if trusted_value (wi_process_start a) = None then CompIndeterminate else Same)"
  by (auto simp: compare_process_trusted split: option.splits)

lemma compare_executable_refl:
  "compare_executable a a =
     (if trusted_value (wi_executable_hash a) = None \<and> trusted_value (wi_executable_path a) = None
      then CompIndeterminate else Same)"
  by (auto simp: compare_executable_def compare_evidence_trusted split: option.splits)

lemma compare_process_Same_trans:
  "compare_process a b = Same \<Longrightarrow> compare_process b c = Same \<Longrightarrow> compare_process a c = Same"
  by (auto simp: compare_process_Same_iff)

section \<open>Execution context and provenance\<close>

record execution_context =
  ec_workload :: workload_identity
  ec_cgroup_path :: "string evidence"
  ec_namespace_hint :: "string evidence"
  ec_container_hint :: "string evidence"
  ec_session_origin :: "string evidence"

record provenance_record =
  prov_context :: execution_context
  prov_request :: compute_request

definition provenance_new :: "execution_context \<Rightarrow> compute_request \<Rightarrow> provenance_record" where
  "provenance_new context request = \<lparr>prov_context = context, prov_request = request\<rparr>"

lemma provenance_new_simps [simp]:
  "prov_context (provenance_new c r) = c" "prov_request (provenance_new c r) = r"
  by (simp_all add: provenance_new_def)

end
