(* ===== verification/Eltanin_Policy.thy ===== *)
theory Eltanin_Policy
  imports Eltanin_Identity
begin

text \<open>
  Models \<open>crates/eltanin-core/src/policy.rs\<close>: the authored policy document, its validation
  into a policy set, and the evaluation of a request against an observed context. Rule ids
  and policy ids are strings, a \<open>BTreeSet\<close> of rule ids is a set.
\<close>

section \<open>Data\<close>

type_synonym policy_id = string
type_synonym rule_id = string

datatype effect = Allow | Deny

datatype trust_floor = FloorKernelObserved | FloorBestEffort

fun admits :: "trust_floor \<Rightarrow> evidence_source \<Rightarrow> bool" where
  "admits FloorKernelObserved KernelObserved = True"
| "admits FloorBestEffort KernelObserved = True"
| "admits FloorBestEffort BestEffort = True"
| "admits _ SelfAsserted = False"
| "admits FloorKernelObserved BestEffort = False"

record 'a evidence_match =
  em_expected :: 'a
  em_min_trust :: trust_floor

datatype condition_outcome = Matched | NotMatched | Indeterminate

definition match_evaluate :: "'a evidence_match \<Rightarrow> 'a evidence \<Rightarrow> condition_outcome" where
  "match_evaluate m evidence =
     (case evidence of
        Present value source \<Rightarrow>
          if value = em_expected m \<and> admits (em_min_trust m) source then Matched else NotMatched
      | Missing _ \<Rightarrow> Indeterminate
      | EvidenceUnsupported \<Rightarrow> Indeterminate)"

definition match_matches :: "'a evidence_match \<Rightarrow> 'a evidence \<Rightarrow> bool" where
  "match_matches m evidence \<longleftrightarrow> match_evaluate m evidence = Matched"

datatype condition =
    CondUid "u32 evidence_match"
  | CondGid "u32 evidence_match"
  | CondExecutablePath "string evidence_match"
  | CondExecutableHash "string evidence_match"
  | CondCgroupPath "string evidence_match"

datatype condition_kind = KindUid | KindGid | KindExecutablePath | KindExecutableHash | KindCgroupPath

fun condition_kind_of :: "condition \<Rightarrow> condition_kind" where
  "condition_kind_of (CondUid _) = KindUid"
| "condition_kind_of (CondGid _) = KindGid"
| "condition_kind_of (CondExecutablePath _) = KindExecutablePath"
| "condition_kind_of (CondExecutableHash _) = KindExecutableHash"
| "condition_kind_of (CondCgroupPath _) = KindCgroupPath"

fun condition_evaluate :: "condition \<Rightarrow> execution_context \<Rightarrow> condition_outcome" where
  "condition_evaluate (CondUid m) ctx = match_evaluate m (wi_uid (ec_workload ctx))"
| "condition_evaluate (CondGid m) ctx = match_evaluate m (wi_gid (ec_workload ctx))"
| "condition_evaluate (CondExecutablePath m) ctx =
     match_evaluate m (wi_executable_path (ec_workload ctx))"
| "condition_evaluate (CondExecutableHash m) ctx =
     match_evaluate m (wi_executable_hash (ec_workload ctx))"
| "condition_evaluate (CondCgroupPath m) ctx = match_evaluate m (ec_cgroup_path ctx)"

record rule =
  rule_id :: rule_id
  rule_effect :: effect
  rule_resource :: resource_identity
  rule_action :: action
  rule_conditions :: "condition list"

record policy_document =
  doc_id :: policy_id
  doc_revision :: u32
  doc_rules :: "rule list"

datatype policy_error =
    EmptyPolicyId
  | EmptyRuleId
  | DuplicateRuleId rule_id
  | RuleWithoutConditions rule_id
  | DuplicateConditionKind rule_id
  | UnknownActionInRule rule_id
  | PolicyUnsupportedVersion unsupported_version

record policy_provenance =
  pp_policy_id :: policy_id
  pp_policy_revision :: u32
  pp_schema_version :: u16

datatype decision_reason =
    NoMatchingRule
  | ExplicitAllow "rule_id set"
  | ExplicitDeny "rule_id set" "rule_id set"
  | IndeterminateEvidence "rule_id set"

record policy_decision =
  pd_effect :: effect
  pd_reason :: decision_reason
  pd_policy :: policy_provenance

record policy_set =
  ps_document :: policy_document

section \<open>Rule evaluation\<close>

text \<open>The loop over the conditions of a rule, with its early return on \<open>NotMatched\<close>.\<close>

fun eval_conditions :: "execution_context \<Rightarrow> condition list \<Rightarrow> bool \<Rightarrow> condition_outcome" where
  "eval_conditions ctx [] any_indeterminate =
     (if any_indeterminate then Indeterminate else Matched)"
| "eval_conditions ctx (c # cs) any_indeterminate =
     (case condition_evaluate c ctx of
        NotMatched \<Rightarrow> NotMatched
      | Indeterminate \<Rightarrow> eval_conditions ctx cs True
      | Matched \<Rightarrow> eval_conditions ctx cs any_indeterminate)"

definition rule_evaluate ::
  "rule \<Rightarrow> execution_context \<Rightarrow> compute_request \<Rightarrow> condition_outcome option" where
  "rule_evaluate r ctx request =
     (if rule_resource r \<noteq> cr_resource request \<or> rule_action r \<noteq> cr_action request then None
      else Some (eval_conditions ctx (rule_conditions r) False))"

section \<open>Validation\<close>

text \<open>The inner loop: no two conditions of the rule on the same field.\<close>

fun check_kinds :: "rule_id \<Rightarrow> condition_kind set \<Rightarrow> condition list \<Rightarrow> (policy_error, unit) result"
where
  "check_kinds rid seen [] = Inr ()"
| "check_kinds rid seen (c # cs) =
     (if condition_kind_of c \<in> seen then Inl (DuplicateConditionKind rid)
      else check_kinds rid (insert (condition_kind_of c) seen) cs)"

text \<open>The outer loop of \<open>from_document\<close>, with the rule ids seen so far.\<close>

fun check_rules :: "rule_id set \<Rightarrow> rule list \<Rightarrow> (policy_error, unit) result" where
  "check_rules seen [] = Inr ()"
| "check_rules seen (r # rs) =
     (if rule_id r = [] then Inl EmptyRuleId
      else if rule_id r \<in> seen then Inl (DuplicateRuleId (rule_id r))
      else if rule_conditions r = [] then Inl (RuleWithoutConditions (rule_id r))
      else case check_kinds (rule_id r) {} (rule_conditions r) of
        Inl e \<Rightarrow> Inl e
      | Inr _ \<Rightarrow>
          if rule_action r = UnknownAction then Inl (UnknownActionInRule (rule_id r))
          else check_rules (insert (rule_id r) seen) rs)"

definition from_document :: "policy_document \<Rightarrow> (policy_error, policy_set) result" where
  "from_document document =
     (if doc_id document = [] then Inl EmptyPolicyId
      else case check_rules {} (doc_rules document) of
        Inl e \<Rightarrow> Inl e
      | Inr _ \<Rightarrow> Inr \<lparr>ps_document = document\<rparr>)"

definition from_versioned :: "policy_document versioned \<Rightarrow> (policy_error, policy_set) result" where
  "from_versioned envelope =
     (case into_current envelope of
        Inl e \<Rightarrow> Inl (PolicyUnsupportedVersion e)
      | Inr document \<Rightarrow> from_document document)"

definition policy_provenance_of :: "policy_set \<Rightarrow> policy_provenance" where
  "policy_provenance_of ps =
     \<lparr>pp_policy_id = doc_id (ps_document ps),
      pp_policy_revision = doc_revision (ps_document ps),
      pp_schema_version = DOMAIN_SCHEMA_VERSION\<rparr>"

fun resources_loop ::
  "resource_identity set \<Rightarrow> resource_identity list \<Rightarrow> rule list \<Rightarrow> resource_identity list" where
  "resources_loop seen acc [] = acc"
| "resources_loop seen acc (r # rs) =
     (if rule_resource r \<notin> seen
      then resources_loop (insert (rule_resource r) seen) (acc @ [rule_resource r]) rs
      else resources_loop seen acc rs)"

definition policy_resources :: "policy_set \<Rightarrow> resource_identity list" where
  "policy_resources ps = resources_loop {} [] (doc_rules (ps_document ps))"

section \<open>Evaluation\<close>

record hits =
  allow_hits :: "rule_id set"
  deny_hits :: "rule_id set"
  indeterminate_deny_hits :: "rule_id set"

definition no_hits :: hits where
  "no_hits = \<lparr>allow_hits = {}, deny_hits = {}, indeterminate_deny_hits = {}\<rparr>"

text \<open>One turn of the loop over the rules.\<close>

definition hit_rule :: "execution_context \<Rightarrow> compute_request \<Rightarrow> rule \<Rightarrow> hits \<Rightarrow> hits" where
  "hit_rule ctx request r h =
     (case rule_evaluate r ctx request of
        None \<Rightarrow> h
      | Some NotMatched \<Rightarrow> h
      | Some Matched \<Rightarrow>
          (case rule_effect r of
             Allow \<Rightarrow> h\<lparr>allow_hits := insert (rule_id r) (allow_hits h)\<rparr>
           | Deny \<Rightarrow> h\<lparr>deny_hits := insert (rule_id r) (deny_hits h)\<rparr>)
      | Some Indeterminate \<Rightarrow>
          if rule_effect r = Deny
          then h\<lparr>indeterminate_deny_hits := insert (rule_id r) (indeterminate_deny_hits h)\<rparr>
          else h)"

fun collect_hits :: "execution_context \<Rightarrow> compute_request \<Rightarrow> rule list \<Rightarrow> hits \<Rightarrow> hits" where
  "collect_hits ctx request [] h = h"
| "collect_hits ctx request (r # rs) h = collect_hits ctx request rs (hit_rule ctx request r h)"

definition decide :: "hits \<Rightarrow> effect \<times> decision_reason" where
  "decide h =
     (if deny_hits h \<noteq> {} then (Deny, ExplicitDeny (deny_hits h) (allow_hits h))
      else if indeterminate_deny_hits h \<noteq> {}
        then (Deny, IndeterminateEvidence (indeterminate_deny_hits h))
      else if allow_hits h \<noteq> {} then (Allow, ExplicitAllow (allow_hits h))
      else (Deny, NoMatchingRule))"

definition policy_evaluate ::
  "policy_set \<Rightarrow> execution_context \<Rightarrow> compute_request \<Rightarrow> policy_decision" where
  "policy_evaluate ps ctx request =
     (let (eff, reason) = decide (collect_hits ctx request (doc_rules (ps_document ps)) no_hits)
      in \<lparr>pd_effect = eff, pd_reason = reason, pd_policy = policy_provenance_of ps\<rparr>)"

section \<open>Loops as comprehensions\<close>

lemma match_evaluate_Matched_iff:
  "match_evaluate m e = Matched \<longleftrightarrow>
     (\<exists>s. e = Present (em_expected m) s \<and> admits (em_min_trust m) s)"
  by (auto simp: match_evaluate_def split: evidence.splits)

lemma match_evaluate_Indeterminate_iff:
  "match_evaluate m e = Indeterminate \<longleftrightarrow> \<not> is_present e"
  by (cases e) (auto simp: match_evaluate_def)

lemma match_evaluate_absent [simp]: "\<not> is_present e \<Longrightarrow> match_evaluate m e = Indeterminate"
  by (simp add: match_evaluate_Indeterminate_iff)

lemma admits_not_self: "admits f s \<Longrightarrow> s \<noteq> SelfAsserted"
  by (cases f; cases s) simp_all

lemma match_Matched_trusted:
  "match_evaluate m e = Matched \<Longrightarrow> trusted_value e = Some (em_expected m)"
  by (auto simp: match_evaluate_Matched_iff dest: admits_not_self)

lemma eval_conditions_eq:
  "eval_conditions ctx cs b =
     (if \<exists>c\<in>set cs. condition_evaluate c ctx = NotMatched then NotMatched
      else if b \<or> (\<exists>c\<in>set cs. condition_evaluate c ctx = Indeterminate) then Indeterminate
      else Matched)"
  by (induction ctx cs b rule: eval_conditions.induct) (auto split: condition_outcome.splits)

text \<open>The rule is about the requested resource and action.\<close>

definition rule_applies :: "rule \<Rightarrow> compute_request \<Rightarrow> bool" where
  "rule_applies r request \<longleftrightarrow>
     rule_resource r = cr_resource request \<and> rule_action r = cr_action request"

lemma rule_evaluate_Matched_iff:
  "rule_evaluate r ctx request = Some Matched \<longleftrightarrow>
     rule_applies r request \<and>
     (\<forall>c\<in>set (rule_conditions r). condition_evaluate c ctx = Matched)"
proof -
  have "x \<noteq> NotMatched \<and> x \<noteq> Indeterminate \<longleftrightarrow> x = Matched" for x
    by (cases x) auto
  then show ?thesis
    by (auto simp: rule_evaluate_def rule_applies_def eval_conditions_eq)
qed

lemma rule_evaluate_Indeterminate_iff:
  "rule_evaluate r ctx request = Some Indeterminate \<longleftrightarrow>
     rule_applies r request \<and>
     (\<forall>c\<in>set (rule_conditions r). condition_evaluate c ctx \<noteq> NotMatched) \<and>
     (\<exists>c\<in>set (rule_conditions r). condition_evaluate c ctx = Indeterminate)"
  by (auto simp: rule_evaluate_def rule_applies_def eval_conditions_eq)

text \<open>The ids of the rules of a given effect whose evaluation has a given outcome.\<close>

definition ids_with ::
  "effect \<Rightarrow> condition_outcome \<Rightarrow> execution_context \<Rightarrow> compute_request \<Rightarrow> rule list \<Rightarrow> rule_id set"
where
  "ids_with eff out ctx request rs =
     {rule_id r | r. r \<in> set rs \<and> rule_effect r = eff \<and> rule_evaluate r ctx request = Some out}"

lemma ids_with_Nil [simp]: "ids_with eff out ctx request [] = {}"
  by (simp add: ids_with_def)

lemma ids_with_Cons:
  "ids_with eff out ctx request (r # rs) =
     (if rule_effect r = eff \<and> rule_evaluate r ctx request = Some out
      then insert (rule_id r) (ids_with eff out ctx request rs)
      else ids_with eff out ctx request rs)"
  by (auto simp: ids_with_def)

lemma ids_with_empty_iff:
  "ids_with eff out ctx request rs = {} \<longleftrightarrow>
     (\<forall>r\<in>set rs. rule_effect r = eff \<longrightarrow> rule_evaluate r ctx request \<noteq> Some out)"
  by (auto simp: ids_with_def)

lemma ids_with_set_cong:
  "set rs = set rs' \<Longrightarrow> ids_with eff out ctx request rs = ids_with eff out ctx request rs'"
  by (simp add: ids_with_def)

lemma collect_hits_eq:
  "collect_hits ctx request rs h =
     \<lparr>allow_hits = allow_hits h \<union> ids_with Allow Matched ctx request rs,
      deny_hits = deny_hits h \<union> ids_with Deny Matched ctx request rs,
      indeterminate_deny_hits =
        indeterminate_deny_hits h \<union> ids_with Deny Indeterminate ctx request rs\<rparr>"
  by (induction ctx request rs h rule: collect_hits.induct)
     (auto simp: hit_rule_def ids_with_Cons split: option.splits condition_outcome.splits effect.splits)

lemma policy_evaluate_eq:
  "policy_evaluate ps ctx request =
     (let rs = doc_rules (ps_document ps);
          A = ids_with Allow Matched ctx request rs;
          D = ids_with Deny Matched ctx request rs;
          I = ids_with Deny Indeterminate ctx request rs
      in if D \<noteq> {}
           then \<lparr>pd_effect = Deny, pd_reason = ExplicitDeny D A, pd_policy = policy_provenance_of ps\<rparr>
         else if I \<noteq> {}
           then \<lparr>pd_effect = Deny, pd_reason = IndeterminateEvidence I,
                 pd_policy = policy_provenance_of ps\<rparr>
         else if A \<noteq> {}
           then \<lparr>pd_effect = Allow, pd_reason = ExplicitAllow A, pd_policy = policy_provenance_of ps\<rparr>
         else \<lparr>pd_effect = Deny, pd_reason = NoMatchingRule, pd_policy = policy_provenance_of ps\<rparr>)"
  by (simp add: policy_evaluate_def collect_hits_eq no_hits_def decide_def Let_def)

lemma evaluate_Allow_ids:
  "pd_effect (policy_evaluate ps ctx request) = Allow \<longleftrightarrow>
     ids_with Allow Matched ctx request (doc_rules (ps_document ps)) \<noteq> {} \<and>
     ids_with Deny Matched ctx request (doc_rules (ps_document ps)) = {} \<and>
     ids_with Deny Indeterminate ctx request (doc_rules (ps_document ps)) = {}"
  by (simp add: policy_evaluate_eq Let_def)

lemma evaluate_Allow_reason:
  "pd_effect (policy_evaluate ps ctx request) = Allow \<Longrightarrow>
     pd_reason (policy_evaluate ps ctx request) =
       ExplicitAllow (ids_with Allow Matched ctx request (doc_rules (ps_document ps)))"
  by (auto simp: policy_evaluate_eq Let_def split: if_splits)

lemma evaluate_policy [simp]: "pd_policy (policy_evaluate ps ctx request) = policy_provenance_of ps"
  by (simp add: policy_evaluate_eq Let_def)

text \<open>The observation supports an allow rule: every condition reads a present value, equal to the
  expected one, from a source at or above the condition's floor.\<close>

fun condition_satisfied :: "condition \<Rightarrow> execution_context \<Rightarrow> bool" where
  "condition_satisfied (CondUid m) ctx \<longleftrightarrow>
     (\<exists>s\<in>{KernelObserved, BestEffort}.
        admits (em_min_trust m) s \<and> wi_uid (ec_workload ctx) = Present (em_expected m) s)"
| "condition_satisfied (CondGid m) ctx \<longleftrightarrow>
     (\<exists>s\<in>{KernelObserved, BestEffort}.
        admits (em_min_trust m) s \<and> wi_gid (ec_workload ctx) = Present (em_expected m) s)"
| "condition_satisfied (CondExecutablePath m) ctx \<longleftrightarrow>
     (\<exists>s\<in>{KernelObserved, BestEffort}.
        admits (em_min_trust m) s \<and> wi_executable_path (ec_workload ctx) = Present (em_expected m) s)"
| "condition_satisfied (CondExecutableHash m) ctx \<longleftrightarrow>
     (\<exists>s\<in>{KernelObserved, BestEffort}.
        admits (em_min_trust m) s \<and> wi_executable_hash (ec_workload ctx) = Present (em_expected m) s)"
| "condition_satisfied (CondCgroupPath m) ctx \<longleftrightarrow>
     (\<exists>s\<in>{KernelObserved, BestEffort}.
        admits (em_min_trust m) s \<and> ec_cgroup_path ctx = Present (em_expected m) s)"

lemma match_satisfied:
  "match_evaluate m e = Matched \<longleftrightarrow>
     (\<exists>s\<in>{KernelObserved, BestEffort}. admits (em_min_trust m) s \<and> e = Present (em_expected m) s)"
proof -
  have "admits f s \<Longrightarrow> s \<in> {KernelObserved, BestEffort}" for f s
    by (cases f; cases s) auto
  then show ?thesis
    by (force simp: match_evaluate_Matched_iff)
qed

lemma condition_Matched_iff: "condition_evaluate c ctx = Matched \<longleftrightarrow> condition_satisfied c ctx"
  by (cases c) (simp_all only: condition_evaluate.simps condition_satisfied.simps match_satisfied)

text \<open>The value a condition reads is present, whatever its value.\<close>

fun condition_observed :: "condition \<Rightarrow> execution_context \<Rightarrow> bool" where
  "condition_observed (CondUid _) ctx \<longleftrightarrow> is_present (wi_uid (ec_workload ctx))"
| "condition_observed (CondGid _) ctx \<longleftrightarrow> is_present (wi_gid (ec_workload ctx))"
| "condition_observed (CondExecutablePath _) ctx \<longleftrightarrow>
     is_present (wi_executable_path (ec_workload ctx))"
| "condition_observed (CondExecutableHash _) ctx \<longleftrightarrow>
     is_present (wi_executable_hash (ec_workload ctx))"
| "condition_observed (CondCgroupPath _) ctx \<longleftrightarrow> is_present (ec_cgroup_path ctx)"

lemma condition_Indeterminate_iff:
  "condition_evaluate c ctx = Indeterminate \<longleftrightarrow> \<not> condition_observed c ctx"
  by (cases c) (simp_all add: match_evaluate_Indeterminate_iff)

text \<open>A deny rule is defeated only by an observed value that fails its condition.\<close>

definition deny_defeated :: "rule \<Rightarrow> execution_context \<Rightarrow> bool" where
  "deny_defeated r ctx \<longleftrightarrow>
     (\<exists>c\<in>set (rule_conditions r). condition_observed c ctx \<and> \<not> condition_satisfied c ctx)"

lemma condition_NotMatched_iff:
  "condition_evaluate c ctx = NotMatched \<longleftrightarrow> condition_observed c ctx \<and> \<not> condition_satisfied c ctx"
  using condition_outcome.exhaust [of "condition_evaluate c ctx"]
  by (metis condition_Indeterminate_iff condition_Matched_iff condition_outcome.distinct)

lemma deny_not_hit_iff:
  "rule_evaluate r ctx request \<noteq> Some Matched \<and> rule_evaluate r ctx request \<noteq> Some Indeterminate \<longleftrightarrow>
     (rule_applies r request \<longrightarrow> deny_defeated r ctx)"
proof -
  have "rule_evaluate r ctx request \<noteq> Some Matched \<and>
        rule_evaluate r ctx request \<noteq> Some Indeterminate \<longleftrightarrow>
        (rule_applies r request \<longrightarrow>
           (\<exists>c\<in>set (rule_conditions r). condition_evaluate c ctx = NotMatched))"
    by (auto simp: rule_evaluate_def rule_applies_def eval_conditions_eq)
  then show ?thesis
    by (simp add: condition_NotMatched_iff deny_defeated_def)
qed

lemma evaluate_Allow_iff:
  "pd_effect (policy_evaluate ps ctx request) = Allow \<longleftrightarrow>
     (\<exists>r\<in>set (doc_rules (ps_document ps)). rule_effect r = Allow \<and> rule_applies r request \<and>
        (\<forall>c\<in>set (rule_conditions r). condition_satisfied c ctx)) \<and>
     (\<forall>r\<in>set (doc_rules (ps_document ps)). rule_effect r = Deny \<longrightarrow> rule_applies r request \<longrightarrow>
        deny_defeated r ctx)"
  unfolding evaluate_Allow_ids ids_with_empty_iff deny_not_hit_iff [symmetric]
  by (auto simp: rule_evaluate_Matched_iff condition_Matched_iff)

section \<open>The verdict a set of rules gives\<close>

definition rule_fires :: "rule \<Rightarrow> execution_context \<Rightarrow> compute_request \<Rightarrow> bool" where
  "rule_fires r ctx request \<longleftrightarrow>
     rule_applies r request \<and> (\<forall>c\<in>set (rule_conditions r). condition_satisfied c ctx)"

definition rule_undecided :: "rule \<Rightarrow> execution_context \<Rightarrow> compute_request \<Rightarrow> bool" where
  "rule_undecided r ctx request \<longleftrightarrow>
     rule_applies r request \<and> \<not> deny_defeated r ctx \<and>
     (\<exists>c\<in>set (rule_conditions r). \<not> condition_observed c ctx)"

definition verdict ::
  "execution_context \<Rightarrow> compute_request \<Rightarrow> rule set \<Rightarrow> effect \<times> decision_reason" where
  "verdict ctx request R =
     (let allow = {r \<in> R. rule_effect r = Allow \<and> rule_fires r ctx request};
          deny = {r \<in> R. rule_effect r = Deny \<and> rule_fires r ctx request};
          undecided = {r \<in> R. rule_effect r = Deny \<and> rule_undecided r ctx request}
      in if deny \<noteq> {} then (Deny, ExplicitDeny (rule_id ` deny) (rule_id ` allow))
         else if undecided \<noteq> {} then (Deny, IndeterminateEvidence (rule_id ` undecided))
         else if allow \<noteq> {} then (Allow, ExplicitAllow (rule_id ` allow))
         else (Deny, NoMatchingRule))"

lemma rule_fires_iff: "rule_evaluate r ctx request = Some Matched \<longleftrightarrow> rule_fires r ctx request"
  by (simp add: rule_evaluate_Matched_iff condition_Matched_iff rule_fires_def)

lemma rule_undecided_iff:
  "rule_evaluate r ctx request = Some Indeterminate \<longleftrightarrow> rule_undecided r ctx request"
  by (auto simp: rule_evaluate_Indeterminate_iff condition_Indeterminate_iff condition_NotMatched_iff
      rule_undecided_def deny_defeated_def)

lemma ids_with_image:
  "ids_with eff Matched ctx request rs =
     rule_id ` {r \<in> set rs. rule_effect r = eff \<and> rule_fires r ctx request}"
  "ids_with eff Indeterminate ctx request rs =
     rule_id ` {r \<in> set rs. rule_effect r = eff \<and> rule_undecided r ctx request}"
  by (auto simp: ids_with_def rule_fires_iff rule_undecided_iff)

section \<open>Well-formed documents\<close>

text \<open>What the first offending rule of a document is rejected with, given the rules before it.\<close>

definition rule_defect :: "rule_id set \<Rightarrow> rule \<Rightarrow> policy_error option" where
  "rule_defect earlier r =
     (if rule_id r = [] then Some EmptyRuleId
      else if rule_id r \<in> earlier then Some (DuplicateRuleId (rule_id r))
      else if rule_conditions r = [] then Some (RuleWithoutConditions (rule_id r))
      else if \<not> distinct (map condition_kind_of (rule_conditions r))
        then Some (DuplicateConditionKind (rule_id r))
      else if rule_action r = UnknownAction then Some (UnknownActionInRule (rule_id r))
      else None)"

definition well_formed_document :: "policy_document \<Rightarrow> bool" where
  "well_formed_document d \<longleftrightarrow>
     doc_id d \<noteq> [] \<and> distinct (map rule_id (doc_rules d)) \<and>
     (\<forall>r\<in>set (doc_rules d). rule_id r \<noteq> [] \<and> rule_conditions r \<noteq> [] \<and>
        distinct (map condition_kind_of (rule_conditions r)) \<and> rule_action r \<noteq> UnknownAction)"

lemma check_kinds_eq:
  "check_kinds rid seen cs =
     (if distinct (map condition_kind_of cs) \<and> condition_kind_of ` set cs \<inter> seen = {}
      then Inr () else Inl (DuplicateConditionKind rid))"
  by (induction rid seen cs rule: check_kinds.induct) auto

lemma check_rules_Cons:
  "check_rules seen (r # rs) =
     (case rule_defect seen r of
        Some e \<Rightarrow> Inl e
      | None \<Rightarrow> check_rules (insert (rule_id r) seen) rs)"
  by (simp add: check_kinds_eq rule_defect_def)

lemma check_rules_Inl:
  "check_rules seen rs = Inl e \<longleftrightarrow>
     (\<exists>pre r post. rs = pre @ r # post \<and> check_rules seen pre = Inr () \<and>
        rule_defect (seen \<union> rule_id ` set pre) r = Some e)"
proof (induction rs arbitrary: seen)
  case (Cons r rs)
  let ?P = "\<lambda>seen rs pre s post. rs = pre @ s # post \<and> check_rules seen pre = Inr () \<and>
              rule_defect (seen \<union> rule_id ` set pre) s = Some e"
  have split: "(\<exists>pre s post. ?P seen (r # rs) pre s post) \<longleftrightarrow>
      ?P seen (r # rs) [] r rs \<or> (\<exists>pre s post. ?P seen (r # rs) (r # pre) s post)"
    (is "?L \<longleftrightarrow> ?R1 \<or> ?R2")
  proof
    assume ?L
    then obtain pre s post where "?P seen (r # rs) pre s post" by blast
    then show "?R1 \<or> ?R2" by (cases pre) (auto simp del: check_rules.simps(2))
  qed blast
  have step: "?P seen (r # rs) (r # pre) s post \<longleftrightarrow>
      rule_defect seen r = None \<and> ?P (insert (rule_id r) seen) rs pre s post" for pre s post
    by (auto simp: check_rules_Cons simp del: check_rules.simps(2) split: option.splits)
  show ?case
    unfolding split step
    by (auto simp: check_rules_Cons Cons.IH simp del: check_rules.simps(2) split: option.splits)
qed simp

lemma from_document_Inr_iff:
  "from_document d = Inr ps \<longleftrightarrow> doc_id d \<noteq> [] \<and> check_rules {} (doc_rules d) = Inr () \<and>
     ps = \<lparr>ps_document = d\<rparr>"
  by (auto simp: from_document_def split: sum.splits)

lemma from_document_Inl_iff:
  "from_document d = Inl e \<longleftrightarrow>
     doc_id d = [] \<and> e = EmptyPolicyId \<or> doc_id d \<noteq> [] \<and> check_rules {} (doc_rules d) = Inl e"
  by (auto simp: from_document_def split: sum.splits)

lemma check_rules_well_formed:
  "check_rules seen rs = Inr () \<longleftrightarrow>
     distinct (map rule_id rs) \<and> rule_id ` set rs \<inter> seen = {} \<and>
     (\<forall>r\<in>set rs. rule_id r \<noteq> [] \<and> rule_conditions r \<noteq> [] \<and>
        distinct (map condition_kind_of (rule_conditions r)) \<and> rule_action r \<noteq> UnknownAction)"
  by (induction rs arbitrary: seen)
     (auto simp: check_rules_Cons rule_defect_def simp del: check_rules.simps(2)
        split: option.splits if_splits)

lemma resources_loop_set:
  "set (resources_loop seen acc rs) = set acc \<union> (rule_resource ` set rs - seen)"
  by (induction seen acc rs rule: resources_loop.induct) auto

lemma resources_loop_distinct:
  "distinct acc \<Longrightarrow> set acc \<subseteq> seen \<Longrightarrow> distinct (resources_loop seen acc rs)"
  by (induction seen acc rs rule: resources_loop.induct) auto

lemma set_policy_resources:
  "set (policy_resources ps) = rule_resource ` set (doc_rules (ps_document ps))"
  by (simp add: policy_resources_def resources_loop_set)

lemma distinct_policy_resources: "distinct (policy_resources ps)"
  by (simp add: policy_resources_def resources_loop_distinct)

lemma evaluate_Allow_resource:
  "pd_effect (policy_evaluate ps ctx request) = Allow \<Longrightarrow>
     cr_resource request \<in> set (policy_resources ps)"
  by (auto simp: evaluate_Allow_iff set_policy_resources rule_applies_def intro: rev_image_eqI)

section \<open>Hidden evidence\<close>

text \<open>The same observation with some of its evidence missing or unsupported.\<close>

definition hidden :: "'a evidence \<Rightarrow> 'a evidence \<Rightarrow> bool" where
  "hidden e' e \<longleftrightarrow> e' = e \<or> \<not> is_present e'"

definition context_hidden :: "execution_context \<Rightarrow> execution_context \<Rightarrow> bool" where
  "context_hidden ctx' ctx \<longleftrightarrow>
     hidden (wi_uid (ec_workload ctx')) (wi_uid (ec_workload ctx)) \<and>
     hidden (wi_gid (ec_workload ctx')) (wi_gid (ec_workload ctx)) \<and>
     hidden (wi_executable_path (ec_workload ctx')) (wi_executable_path (ec_workload ctx)) \<and>
     hidden (wi_executable_hash (ec_workload ctx')) (wi_executable_hash (ec_workload ctx)) \<and>
     hidden (ec_cgroup_path ctx') (ec_cgroup_path ctx)"

lemma hidden_evaluate:
  "hidden e' e \<Longrightarrow> match_evaluate m e' = Indeterminate \<or> match_evaluate m e' = match_evaluate m e"
  by (auto simp: hidden_def)

lemma context_hidden_evaluate:
  "context_hidden ctx' ctx \<Longrightarrow>
     condition_evaluate c ctx' = Indeterminate \<or> condition_evaluate c ctx' = condition_evaluate c ctx"
  by (cases c) (simp_all add: context_hidden_def hidden_evaluate)

lemma hidden_satisfied:
  "context_hidden ctx' ctx \<Longrightarrow> condition_satisfied c ctx' \<Longrightarrow> condition_satisfied c ctx"
  using context_hidden_evaluate [of ctx' ctx c] by (simp add: condition_Matched_iff [symmetric])

lemma hidden_deny_defeated:
  "context_hidden ctx' ctx \<Longrightarrow> deny_defeated r ctx' \<Longrightarrow> deny_defeated r ctx"
  using context_hidden_evaluate [of ctx' ctx]
  unfolding deny_defeated_def condition_NotMatched_iff [symmetric]
  by (metis condition_outcome.distinct(5))

text \<open>A context a policy reads only through the five matchable fields.\<close>

definition same_matchable_evidence :: "execution_context \<Rightarrow> execution_context \<Rightarrow> bool" where
  "same_matchable_evidence a b \<longleftrightarrow>
     wi_uid (ec_workload a) = wi_uid (ec_workload b) \<and>
     wi_gid (ec_workload a) = wi_gid (ec_workload b) \<and>
     wi_executable_path (ec_workload a) = wi_executable_path (ec_workload b) \<and>
     wi_executable_hash (ec_workload a) = wi_executable_hash (ec_workload b) \<and>
     ec_cgroup_path a = ec_cgroup_path b"

lemma same_matchable_evaluate:
  "same_matchable_evidence a b \<Longrightarrow> condition_evaluate c a = condition_evaluate c b"
  by (cases c) (simp_all add: same_matchable_evidence_def)

lemma same_matchable_rule:
  assumes "same_matchable_evidence a b"
  shows "rule_evaluate r a request = rule_evaluate r b request"
  by (simp add: rule_evaluate_def eval_conditions_eq same_matchable_evaluate [OF assms])

section \<open>Concrete inputs\<close>

definition demo_gpu :: resource_identity where
  "demo_gpu = \<lparr>ri_vendor = vendor_fake, ri_kind = kind_gpu, ri_local_id = ''0''\<rparr>"

definition demo_request :: compute_request where
  "demo_request = \<lparr>cr_resource = demo_gpu, cr_action = Compute\<rparr>"

definition demo_workload :: workload_identity where
  "demo_workload =
     \<lparr>wi_pid = 42, wi_process_start = Present 7 KernelObserved, wi_uid = Present 1000 KernelObserved,
      wi_gid = Present 1000 KernelObserved, wi_executable_path = Present ''/bin/job'' BestEffort,
      wi_executable_hash = Missing ''not hashed'', wi_ancestry = []\<rparr>"

definition demo_context :: execution_context where
  "demo_context =
     \<lparr>ec_workload = demo_workload, ec_cgroup_path = Missing ''no cgroup'',
      ec_namespace_hint = EvidenceUnsupported, ec_container_hint = EvidenceUnsupported,
      ec_session_origin = EvidenceUnsupported\<rparr>"

definition demo_allow_rule :: rule where
  "demo_allow_rule =
     \<lparr>rule_id = ''allow'', rule_effect = Allow, rule_resource = demo_gpu, rule_action = Compute,
      rule_conditions = [CondUid \<lparr>em_expected = 1000, em_min_trust = FloorKernelObserved\<rparr>]\<rparr>"

definition demo_deny_rule :: rule where
  "demo_deny_rule =
     \<lparr>rule_id = ''deny'', rule_effect = Deny, rule_resource = demo_gpu, rule_action = Compute,
      rule_conditions = [CondExecutablePath \<lparr>em_expected = ''/bin/evil'', em_min_trust = FloorBestEffort\<rparr>]\<rparr>"

definition demo_document :: policy_document where
  "demo_document =
     \<lparr>doc_id = ''demo'', doc_revision = 1, doc_rules = [demo_allow_rule, demo_deny_rule]\<rparr>"

definition demo_policy :: policy_set where
  "demo_policy = \<lparr>ps_document = demo_document\<rparr>"

definition demo_deny_uid_rule :: rule where
  "demo_deny_uid_rule = demo_deny_rule
     \<lparr>rule_conditions := [CondUid \<lparr>em_expected = 666, em_min_trust = FloorBestEffort\<rparr>]\<rparr>"

lemmas demo_defs [eltanin_eval] =
  demo_gpu_def demo_request_def demo_workload_def demo_context_def demo_allow_rule_def
  demo_deny_rule_def demo_deny_uid_rule_def demo_document_def demo_policy_def vendor_fake_def kind_gpu_def

lemma demo_allowed: "pd_effect (policy_evaluate demo_policy demo_context demo_request) = Allow"
  by (simp add: eltanin_eval policy_evaluate_def hit_rule_def rule_evaluate_def match_evaluate_def
      no_hits_def decide_def)

section \<open>Properties\<close>

text \<open>C1. The decision of the policy is the verdict of the set of its rules: an explicit deny
  that fires overrides everything and names every firing rule; an undecided deny rule denies; an
  allow needs a firing allow rule; nothing else allows. A rule fires when every condition reads a
  present value equal to the expected one from a source at or above its trust floor.\<close>

theorem policy_evaluate_verdict:
  "policy_evaluate ps ctx request =
     (let (eff, reason) = verdict ctx request (set (doc_rules (ps_document ps)))
      in \<lparr>pd_effect = eff, pd_reason = reason, pd_policy = policy_provenance_of ps\<rparr>)"
  by (simp add: policy_evaluate_eq verdict_def ids_with_image Let_def)

text \<open>C21. A document becomes a policy set exactly when it is well formed, and the policy set is the
  document itself; otherwise the error is that of the first offending rule, given the rules before
  it.\<close>

theorem from_document_correct:
  "(from_document d = Inr ps \<longleftrightarrow> well_formed_document d \<and> ps_document ps = d) \<and>
   (from_document d = Inl e \<longleftrightarrow>
      doc_id d = [] \<and> e = EmptyPolicyId \<or>
      doc_id d \<noteq> [] \<and>
      (\<exists>pre r post. doc_rules d = pre @ r # post \<and>
         well_formed_document (d\<lparr>doc_rules := pre\<rparr>) \<and>
         rule_defect (rule_id ` set pre) r = Some e))"
proof
  show "from_document d = Inr ps \<longleftrightarrow> well_formed_document d \<and> ps_document ps = d"
    by (cases ps) (auto simp: from_document_Inr_iff check_rules_well_formed well_formed_document_def)
  show "from_document d = Inl e \<longleftrightarrow>
      doc_id d = [] \<and> e = EmptyPolicyId \<or>
      doc_id d \<noteq> [] \<and>
      (\<exists>pre r post. doc_rules d = pre @ r # post \<and>
         well_formed_document (d\<lparr>doc_rules := pre\<rparr>) \<and>
         rule_defect (rule_id ` set pre) r = Some e)"
    by (auto simp: from_document_Inl_iff check_rules_Inl check_rules_well_formed
        well_formed_document_def)
qed

text \<open>C23. Hiding evidence is never rewarded: if a request is allowed on a context in which some of
  the observations are missing or unsupported, it is allowed on the full context. Failing to
  observe something cannot turn a denial into a grant.\<close>

theorem hiding_evidence_never_grants:
  assumes "context_hidden ctx' ctx"
    and "pd_effect (policy_evaluate ps ctx' request) = Allow"
  shows "pd_effect (policy_evaluate ps ctx request) = Allow"
  using assms(2) hidden_satisfied [OF assms(1)] hidden_deny_defeated [OF assms(1)]
  unfolding evaluate_Allow_iff by blast

lemma hiding_evidence_never_grants_witness:
  "pd_effect (policy_evaluate demo_policy demo_context demo_request) = Allow"
proof (rule hiding_evidence_never_grants)
  let ?hidden = "demo_context\<lparr>ec_cgroup_path := EvidenceUnsupported\<rparr>"
  show "context_hidden ?hidden demo_context"
    by (simp add: context_hidden_def hidden_def)
  show "pd_effect (policy_evaluate demo_policy ?hidden demo_request) = Allow"
    by (simp add: eltanin_eval policy_evaluate_def hit_rule_def rule_evaluate_def match_evaluate_def
        no_hits_def decide_def)
qed

text \<open>An allowed request is backed by evidence: some allow rule for exactly this resource and
  action has at least one condition, and each of its conditions reads a value that the kernel or a
  best-effort observer reported, never the workload itself; and the resource is one the policy
  names.\<close>

theorem grant_needs_trusted_evidence:
  assumes "from_document d = Inr ps"
    and "pd_effect (policy_evaluate ps ctx request) = Allow"
  shows "cr_resource request \<in> set (policy_resources ps) \<and> cr_action request = Compute \<and>
    (\<exists>r\<in>set (doc_rules d). rule_effect r = Allow \<and> rule_resource r = cr_resource request \<and>
       rule_conditions r \<noteq> [] \<and> (\<forall>c\<in>set (rule_conditions r). condition_satisfied c ctx))"
proof -
  have d: "ps_document ps = d" and ok: "check_rules {} (doc_rules d) = Inr ()"
    using assms(1) by (auto simp: from_document_Inr_iff)
  from assms(2) obtain r where r: "r \<in> set (doc_rules d)" "rule_effect r = Allow"
      "rule_applies r request" "\<forall>c\<in>set (rule_conditions r). condition_satisfied c ctx"
    by (auto simp: evaluate_Allow_iff d)
  then have "rule_conditions r \<noteq> []" "rule_action r \<noteq> UnknownAction"
    using ok by (auto simp: check_rules_well_formed)
  moreover from this have "rule_action r = Compute"
    by (cases "rule_action r") auto
  ultimately show ?thesis
    using r evaluate_Allow_resource [OF assms(2)] by (auto simp: rule_applies_def)
qed

lemma grant_needs_trusted_evidence_witness:
  "\<exists>r\<in>set (doc_rules demo_document). rule_conditions r \<noteq> []"
proof -
  have "from_document demo_document = Inr demo_policy"
    by (simp add: eltanin_eval from_document_def)
  from grant_needs_trusted_evidence [OF this demo_allowed] show ?thesis by blast
qed

text \<open>The decision is a function of the requested resource and action and of the evidence of five
  fields: contexts that agree on uid, gid, executable path and hash and control group get the same
  decision, whatever their pid, process start, ancestry and session hints.\<close>

theorem decision_reads_five_fields:
  assumes "same_matchable_evidence a b"
  shows "policy_evaluate ps a request = policy_evaluate ps b request"
  by (simp add: policy_evaluate_eq ids_with_def same_matchable_rule [OF assms])

lemma decision_reads_five_fields_witness:
  "policy_evaluate demo_policy demo_context demo_request =
   policy_evaluate demo_policy
     (demo_context\<lparr>ec_workload := demo_workload\<lparr>wi_pid := 1\<rparr>, ec_session_origin := Missing ''x''\<rparr>)
     demo_request"
  by (rule decision_reads_five_fields)
     (simp add: same_matchable_evidence_def demo_context_def)

text \<open>A workload's own claim can never support an allow rule, but it does disable a deny rule: as
  soon as a field a deny rule depends on is self-asserted, whatever its value, even the very value
  the rule is meant to block, the deny rule neither fires nor is undecided and has no effect on
  the decision, where the same field missing would deny.\<close>

theorem self_asserted_field_disables_deny_rule:
  assumes "CondUid m \<in> set (rule_conditions r)"
    and "wi_uid (ec_workload ctx) = Present v SelfAsserted"
    and "rule_effect r = Deny"
    and "doc_rules (ps_document ps) = pre @ r # post"
  shows "policy_evaluate ps ctx request =
    (policy_evaluate (ps\<lparr>ps_document := (ps_document ps)\<lparr>doc_rules := pre @ post\<rparr>\<rparr>) ctx request)"
proof -
  have "condition_evaluate (CondUid m) ctx = NotMatched"
    using assms(2) admits_not_self [of "em_min_trust m" SelfAsserted] by (auto simp: match_evaluate_def)
  then have "rule_evaluate r ctx request = None \<or> rule_evaluate r ctx request = Some NotMatched"
    using assms(1) by (auto simp: rule_evaluate_def eval_conditions_eq)
  then have "ids_with eff out ctx request (pre @ r # post) = ids_with eff out ctx request (pre @ post)"
    if "out \<noteq> NotMatched" for eff out
    using that by (auto simp: ids_with_def)
  then show ?thesis
    by (simp add: policy_evaluate_eq assms(4) policy_provenance_of_def Let_def)
qed

lemma self_asserted_field_disables_deny_rule_witness:
  "let ps = \<lparr>ps_document = demo_document\<lparr>doc_rules := [demo_deny_uid_rule]\<rparr>\<rparr>;
       ctx = demo_context\<lparr>ec_workload := demo_workload\<lparr>wi_uid := Present 666 SelfAsserted\<rparr>\<rparr>
   in policy_evaluate ps ctx demo_request =
      policy_evaluate (ps\<lparr>ps_document := (ps_document ps)\<lparr>doc_rules := []\<rparr>\<rparr>) ctx demo_request"
  unfolding Let_def
  by (rule self_asserted_field_disables_deny_rule [of _ demo_deny_uid_rule _ _ _ "[]" "[]", simplified])
     (simp_all add: demo_deny_uid_rule_def demo_deny_rule_def)

end
