(* ===== verification/Eltanin_Lease.thy ===== *)
theory Eltanin_Lease
  imports Eltanin_Policy
begin

text \<open>
  Models \<open>crates/eltanin-core/src/lease.rs\<close>: monotonic time, leases, and the issuer that
  issues, revokes and validates them for one live agent instance. Time is a \<open>u64\<close> count of
  nanoseconds. The issuer's sequence counter is a \<open>u64\<close> that wraps, as in a release build.
\<close>

section \<open>Monotonic time\<close>

type_synonym monotonic_time = u64

definition time_checked_add :: "monotonic_time \<Rightarrow> duration \<Rightarrow> monotonic_time option" where
  "time_checked_add t d =
     (case u64_try_from d of None \<Rightarrow> None | Some added \<Rightarrow> u64_checked_add t added)"

definition saturating_duration_since :: "monotonic_time \<Rightarrow> monotonic_time \<Rightarrow> duration" where
  "saturating_duration_since t earlier = unat (u64_saturating_sub t earlier)"

lemma time_checked_add_Some:
  "time_checked_add t d = Some e \<longleftrightarrow> unat t + d < 2 ^ 64 \<and> unat e = unat t + d"
  by (auto simp: time_checked_add_def u64_try_from_Some u64_checked_add_Some split: option.splits)
     (auto simp: u64_try_from_def u64_checked_add_Some unat_of_nat_u64 split: if_splits)

lemma saturating_duration_since_eq: "saturating_duration_since t earlier = unat t - unat earlier"
  by (simp add: saturating_duration_since_def unat_u64_saturating_sub)

section \<open>Leases\<close>

type_synonym issuer_instance_id = string

record lease_id =
  lid_issuer :: issuer_instance_id
  lid_sequence :: u64

record compute_lease =
  cl_id :: lease_id
  cl_origin :: provenance_record
  cl_policy :: policy_provenance
  cl_decision_reason :: decision_reason
  cl_issued_at :: monotonic_time
  cl_expires_at :: monotonic_time

definition narrow_expiry :: "compute_lease \<Rightarrow> monotonic_time \<Rightarrow> compute_lease" where
  "narrow_expiry lease not_after = lease\<lparr>cl_expires_at := min (cl_expires_at lease) not_after\<rparr>"

datatype lease_error =
    LeaseDenied policy_decision
  | NonPositiveTtl
  | TtlExceedsMaximum duration duration
  | ExpiryOverflow

datatype revocation_outcome = Revoked | AlreadyRevoked | NotIssued | RevForeignIssuer

datatype lease_validity =
    Valid duration
  | ValForeignIssuer issuer_instance_id
  | ValRevoked
  | ResourceMismatch
  | ActionMismatch
  | WorkloadMismatch
  | WorkloadIndeterminate
  | ExecutableMismatch
  | Expired monotonic_time

fun is_valid :: "lease_validity \<Rightarrow> bool" where
  "is_valid (Valid _) = True"
| "is_valid _ = False"

section \<open>The issuer\<close>

record lease_issuer =
  li_instance :: issuer_instance_id
  li_max_ttl :: duration
  li_next_sequence :: u64
  li_revoked :: "u64 set"

definition issuer_new :: "issuer_instance_id \<Rightarrow> duration \<Rightarrow> lease_issuer" where
  "issuer_new inst max_ttl =
     \<lparr>li_instance = inst, li_max_ttl = max_ttl, li_next_sequence = 0, li_revoked = {}\<rparr>"

definition issue ::
  "lease_issuer \<Rightarrow> policy_set \<Rightarrow> provenance_record \<Rightarrow> monotonic_time \<Rightarrow> duration \<Rightarrow>
     (lease_error, compute_lease) result \<times> lease_issuer" where
  "issue iss policy origin now ttl =
     (if ttl = 0 then (Inl NonPositiveTtl, iss)
      else if ttl > li_max_ttl iss then (Inl (TtlExceedsMaximum ttl (li_max_ttl iss)), iss)
      else
        let decision = policy_evaluate policy (prov_context origin) (prov_request origin)
        in if pd_effect decision \<noteq> Allow then (Inl (LeaseDenied decision), iss)
           else case time_checked_add now ttl of
             None \<Rightarrow> (Inl ExpiryOverflow, iss)
           | Some expires_at \<Rightarrow>
               (Inr \<lparr>cl_id = \<lparr>lid_issuer = li_instance iss, lid_sequence = li_next_sequence iss\<rparr>,
                     cl_origin = origin,
                     cl_policy = pd_policy decision,
                     cl_decision_reason = pd_reason decision,
                     cl_issued_at = now,
                     cl_expires_at = expires_at\<rparr>,
                iss\<lparr>li_next_sequence := li_next_sequence iss + 1\<rparr>))"

definition revoke :: "lease_issuer \<Rightarrow> lease_id \<Rightarrow> revocation_outcome \<times> lease_issuer" where
  "revoke iss lid =
     (if lid_issuer lid \<noteq> li_instance iss then (RevForeignIssuer, iss)
      else if lid_sequence lid \<ge> li_next_sequence iss then (NotIssued, iss)
      else if lid_sequence lid \<in> li_revoked iss then (AlreadyRevoked, iss)
      else (Revoked, iss\<lparr>li_revoked := insert (lid_sequence lid) (li_revoked iss)\<rparr>))"

definition validate ::
  "lease_issuer \<Rightarrow> compute_lease \<Rightarrow> provenance_record \<Rightarrow> monotonic_time \<Rightarrow> lease_validity" where
  "validate iss lease presented now =
     (if lid_issuer (cl_id lease) \<noteq> li_instance iss
        then ValForeignIssuer (lid_issuer (cl_id lease))
      else if lid_sequence (cl_id lease) \<in> li_revoked iss then ValRevoked
      else if cr_resource (prov_request (cl_origin lease)) \<noteq> cr_resource (prov_request presented)
        then ResourceMismatch
      else if cr_action (prov_request (cl_origin lease)) \<noteq> cr_action (prov_request presented)
        then ActionMismatch
      else case compare_process (ec_workload (prov_context (cl_origin lease)))
                                (ec_workload (prov_context presented)) of
        Different \<Rightarrow> WorkloadMismatch
      | CompIndeterminate \<Rightarrow> WorkloadIndeterminate
      | Same \<Rightarrow>
          (case compare_executable (ec_workload (prov_context (cl_origin lease)))
                                   (ec_workload (prov_context presented)) of
             Different \<Rightarrow> ExecutableMismatch
           | CompIndeterminate \<Rightarrow> WorkloadIndeterminate
           | Same \<Rightarrow>
               if now \<ge> cl_expires_at lease then Expired (cl_expires_at lease)
               else Valid (saturating_duration_since (cl_expires_at lease) now)))"

section \<open>Characteristic equations\<close>

lemma is_valid_iff: "is_valid v \<longleftrightarrow> (\<exists>d. v = Valid d)"
  by (cases v) auto

lemma time_checked_add_None: "time_checked_add t d = None \<longleftrightarrow> 2 ^ 64 \<le> unat t + d"
  using time_checked_add_Some [of t d "t + of_nat d"] unsigned_less [of t]
  by (cases "time_checked_add t d")
     (auto simp: time_checked_add_Some not_less time_checked_add_def u64_try_from_def
        u64_checked_add_def unat_of_nat_u64 split: if_splits)

lemma issue_Inr_iff:
  "issue iss policy origin now ttl = (Inr l, iss') \<longleftrightarrow>
     0 < ttl \<and> ttl \<le> li_max_ttl iss \<and>
     pd_effect (policy_evaluate policy (prov_context origin) (prov_request origin)) = Allow \<and>
     (\<exists>e. time_checked_add now ttl = Some e \<and>
        l = \<lparr>cl_id = \<lparr>lid_issuer = li_instance iss, lid_sequence = li_next_sequence iss\<rparr>,
             cl_origin = origin, cl_policy = policy_provenance_of policy,
             cl_decision_reason =
               pd_reason (policy_evaluate policy (prov_context origin) (prov_request origin)),
             cl_issued_at = now, cl_expires_at = e\<rparr>) \<and>
     iss' = iss\<lparr>li_next_sequence := li_next_sequence iss + 1\<rparr>"
  by (auto simp: issue_def Let_def not_less split: option.splits)

lemma issue_Inl_iff:
  "issue iss policy origin now ttl = (Inl e, iss') \<longleftrightarrow>
     iss' = iss \<and>
     (if ttl = 0 then e = NonPositiveTtl
      else if ttl > li_max_ttl iss then e = TtlExceedsMaximum ttl (li_max_ttl iss)
      else if pd_effect (policy_evaluate policy (prov_context origin) (prov_request origin)) \<noteq> Allow
        then e = LeaseDenied (policy_evaluate policy (prov_context origin) (prov_request origin))
      else e = ExpiryOverflow \<and> 2 ^ 64 \<le> unat now + ttl)"
  by (auto simp: issue_def Let_def time_checked_add_None time_checked_add_Some split: option.splits)

lemma issue_result_iff:
  "(\<exists>l. fst (issue iss policy origin now ttl) = Inr l) \<longleftrightarrow>
     0 < ttl \<and> ttl \<le> li_max_ttl iss \<and>
     pd_effect (policy_evaluate policy (prov_context origin) (prov_request origin)) = Allow \<and>
     unat now + ttl < 2 ^ 64"
  by (auto simp: issue_def Let_def time_checked_add_None time_checked_add_Some not_less not_le
      split: option.splits)

lemma validate_Valid_iff:
  "validate iss l p now = Valid d \<longleftrightarrow>
     lid_issuer (cl_id l) = li_instance iss \<and> lid_sequence (cl_id l) \<notin> li_revoked iss \<and>
     prov_request (cl_origin l) = prov_request p \<and>
     compare_process (ec_workload (prov_context (cl_origin l))) (ec_workload (prov_context p)) = Same \<and>
     compare_executable (ec_workload (prov_context (cl_origin l))) (ec_workload (prov_context p)) = Same \<and>
     now < cl_expires_at l \<and> d = unat (cl_expires_at l) - unat now"
proof -
  have "cr_resource a = cr_resource b \<and> cr_action a = cr_action b \<longleftrightarrow> a = b" for a b :: compute_request
    by (cases a; cases b) simp
  from this [of "prov_request (cl_origin l)" "prov_request p"] show ?thesis
    by (auto simp: validate_def saturating_duration_since_eq not_le split: identity_comparison.splits)
qed

lemma validate_valid_iff:
  "is_valid (validate iss l p now) \<longleftrightarrow>
     validate iss l p now = Valid (unat (cl_expires_at l) - unat now)"
  by (auto simp: is_valid_iff validate_Valid_iff)

lemma validate_not_final:
  "is_valid (validate iss l p now) \<Longrightarrow>
     lid_issuer (cl_id l) = li_instance iss \<and> lid_sequence (cl_id l) \<notin> li_revoked iss \<and>
     now < cl_expires_at l"
  by (auto simp: is_valid_iff validate_Valid_iff)

lemma validate_Revoked_iff:
  "validate iss l p now = ValRevoked \<longleftrightarrow>
     lid_issuer (cl_id l) = li_instance iss \<and> lid_sequence (cl_id l) \<in> li_revoked iss"
  by (auto simp: validate_def split: identity_comparison.splits)

lemma validate_Expired:
  "validate iss l p now = Expired t \<Longrightarrow> t = cl_expires_at l \<and> cl_expires_at l \<le> now"
  by (auto simp: validate_def split: identity_comparison.splits if_splits)

lemma validate_revoke:
  "validate (snd (revoke iss lid)) l p now =
     (if fst (revoke iss lid) = Revoked \<and> cl_id l = lid then ValRevoked else validate iss l p now)"
proof -
  have "cl_id l = lid \<longleftrightarrow>
      lid_issuer (cl_id l) = lid_issuer lid \<and> lid_sequence (cl_id l) = lid_sequence lid"
    by (cases "cl_id l"; cases lid) auto
  then show ?thesis
    by (auto simp: revoke_def validate_def)
qed

lemma revoke_simps [simp]:
  "li_instance (snd (revoke iss lid)) = li_instance iss"
  "li_max_ttl (snd (revoke iss lid)) = li_max_ttl iss"
  "li_next_sequence (snd (revoke iss lid)) = li_next_sequence iss"
  by (simp_all add: revoke_def)

lemma issue_simps [simp]:
  "li_instance (snd (issue iss policy origin now ttl)) = li_instance iss"
  "li_max_ttl (snd (issue iss policy origin now ttl)) = li_max_ttl iss"
  "li_revoked (snd (issue iss policy origin now ttl)) = li_revoked iss"
  by (simp_all add: issue_def Let_def split: option.splits)

section \<open>Histories of an issuer\<close>

datatype issuer_op =
    OpIssue policy_set provenance_record monotonic_time duration
  | OpRevoke lease_id

fun issuer_step :: "issuer_op \<Rightarrow> lease_issuer \<Rightarrow> lease_issuer" where
  "issuer_step (OpIssue policy origin now ttl) iss = snd (issue iss policy origin now ttl)"
| "issuer_step (OpRevoke lid) iss = snd (revoke iss lid)"

fun issuer_leases :: "issuer_op list \<Rightarrow> lease_issuer \<Rightarrow> compute_lease list" where
  "issuer_leases [] iss = []"
| "issuer_leases (op # ops) iss =
     (case op of
        OpIssue policy origin now ttl \<Rightarrow>
          (case issue iss policy origin now ttl of
             (Inr l, _) \<Rightarrow> [l]
           | (Inl _, _) \<Rightarrow> [])
      | OpRevoke _ \<Rightarrow> []) @ issuer_leases ops (issuer_step op iss)"

definition issuer_run :: "issuer_op list \<Rightarrow> lease_issuer \<Rightarrow> lease_issuer" where
  "issuer_run ops iss = fold issuer_step ops iss"

lemma issuer_run_simps [simp]:
  "issuer_run [] iss = iss"
  "issuer_run (op # ops) iss = issuer_run ops (issuer_step op iss)"
  by (simp_all add: issuer_run_def)

text \<open>Only issued sequence numbers are ever revoked.\<close>

definition issuer_ok :: "lease_issuer \<Rightarrow> bool" where
  "issuer_ok iss \<longleftrightarrow> (\<forall>s\<in>li_revoked iss. s < li_next_sequence iss)"

lemma issuer_ok_new [simp]: "issuer_ok (issuer_new inst ttl)"
  by (simp add: issuer_ok_def issuer_new_def)

lemma issuer_ok_revoke [simp]: "issuer_ok iss \<Longrightarrow> issuer_ok (snd (revoke iss lid))"
  by (auto simp: issuer_ok_def revoke_def not_le)

lemma u64_less_Suc: "unat (n :: u64) < 2 ^ 64 - 1 \<Longrightarrow> s < n \<Longrightarrow> s < n + 1"
  by (simp add: word_less_nat_alt unat_u64_Suc)

lemma issuer_ok_issue:
  "issuer_ok iss \<Longrightarrow> unat (li_next_sequence iss) < 2 ^ 64 - 1 \<Longrightarrow>
     issuer_ok (snd (issue iss policy origin now ttl))"
  by (auto simp: issuer_ok_def issue_def Let_def u64_less_Suc split: option.splits)

lemma issue_next_le:
  "unat (li_next_sequence iss) < 2 ^ 64 - 1 \<Longrightarrow>
     unat (li_next_sequence (snd (issue iss policy origin now ttl))) \<le>
       Suc (unat (li_next_sequence iss))"
  by (auto simp: issue_def Let_def unat_u64_Suc split: option.splits)

lemma issuer_step_instance [simp]: "li_instance (issuer_step op iss) = li_instance iss"
  by (cases op) simp_all

lemma issuer_step_revoked: "li_revoked iss \<subseteq> li_revoked (issuer_step op iss)"
  by (cases op) (auto simp: revoke_def)

lemma issuer_run_instance [simp]: "li_instance (issuer_run ops iss) = li_instance iss"
  by (induction ops arbitrary: iss) simp_all

lemma issuer_run_revoked: "li_revoked iss \<subseteq> li_revoked (issuer_run ops iss)"
  by (induction ops arbitrary: iss) (auto dest: issuer_step_revoked [THEN subsetD])

text \<open>The leases of a history carry consecutive sequence numbers, as long as the counter does not
  wrap.\<close>

lemma issuer_leases_sequence:
  assumes "unat (li_next_sequence iss) + length ops < 2 ^ 64"
  shows "map (\<lambda>l. unat (lid_sequence (cl_id l))) (issuer_leases ops iss) =
    [unat (li_next_sequence iss) ..< unat (li_next_sequence iss) + length (issuer_leases ops iss)]"
  using assms
proof (induction ops arbitrary: iss)
  case (Cons op ops)
  show ?case
  proof (cases "\<exists>policy origin now ttl l iss'. op = OpIssue policy origin now ttl \<and>
                  issue iss policy origin now ttl = (Inr l, iss')")
    case True
    then obtain policy origin now ttl l iss' where op: "op = OpIssue policy origin now ttl"
      and l: "issue iss policy origin now ttl = (Inr l, iss')" by blast
    then have "lid_sequence (cl_id l) = li_next_sequence iss"
      and next_eq: "unat (li_next_sequence iss') = Suc (unat (li_next_sequence iss))"
      using Cons.prems by (auto simp: issue_Inr_iff unat_u64_Suc)
    then show ?thesis
      using Cons.IH [of iss'] Cons.prems op l by (simp add: upt_conv_Cons del: upt_Suc)
  next
    case False
    then have "issuer_leases (op # ops) iss = issuer_leases ops (issuer_step op iss)"
      and "li_next_sequence (issuer_step op iss) = li_next_sequence iss"
      by (cases op; auto simp: issue_def Let_def split: sum.splits option.splits if_splits)+
    then show ?thesis using Cons by simp
  qed
qed simp

lemma issuer_leases_issuer:
  "l \<in> set (issuer_leases ops iss) \<Longrightarrow> lid_issuer (cl_id l) = li_instance iss"
proof (induction ops arbitrary: iss)
  case (Cons op ops)
  then show ?case
    by (cases op)
       (auto dest: issue_Inr_iff [THEN iffD1, OF sym] split: sum.splits prod.splits)
qed simp

lemma distinct_map_comp: "distinct (map (\<lambda>x. f (g x)) xs) \<Longrightarrow> distinct (map g xs)"
  using distinct_map [of f "map g xs"] by (simp add: comp_def)

section \<open>Concrete inputs\<close>

definition demo_provenance :: provenance_record where
  "demo_provenance = provenance_new demo_context demo_request"

definition demo_issuer :: lease_issuer where
  "demo_issuer = issuer_new ''agent-1'' 60"

definition demo_lease :: compute_lease where
  "demo_lease =
     \<lparr>cl_id = \<lparr>lid_issuer = ''agent-1'', lid_sequence = 0\<rparr>, cl_origin = demo_provenance,
      cl_policy = policy_provenance_of demo_policy,
      cl_decision_reason = pd_reason (policy_evaluate demo_policy demo_context demo_request),
      cl_issued_at = 100, cl_expires_at = 130\<rparr>"

lemma demo_issue:
  "issue demo_issuer demo_policy demo_provenance 100 30 =
     (Inr demo_lease, demo_issuer\<lparr>li_next_sequence := 1\<rparr>)"
  by (simp add: issue_Inr_iff demo_lease_def demo_provenance_def demo_allowed demo_issuer_def
      issuer_new_def time_checked_add_Some)

section \<open>Properties\<close>

text \<open>C25. A lease validates exactly when it was issued by this instance, has not been revoked, is
  presented for its own resource and action, by the process it was issued to (same pid and start
  token, both observed and not self-asserted) running the same executable (same hash, or the same
  path when a hash is not available on both sides), strictly before its expiry; the remaining time
  is then exactly the distance to the expiry.\<close>

theorem validate_valid_characterised:
  "validate iss l p now = Valid d \<longleftrightarrow>
     lid_issuer (cl_id l) = li_instance iss \<and> lid_sequence (cl_id l) \<notin> li_revoked iss \<and>
     prov_request (cl_origin l) = prov_request p \<and>
     (let w = ec_workload (prov_context (cl_origin l)); v = ec_workload (prov_context p);
          trusted_equal = (\<lambda>a b. trusted_value a \<noteq> None \<and> trusted_value a = trusted_value b);
          comparable = (\<lambda>a b. trusted_value a \<noteq> None \<and> trusted_value b \<noteq> None)
      in wi_pid w = wi_pid v \<and>
         (trusted_value (wi_process_start w) \<noteq> None \<and>
          trusted_value (wi_process_start w) = trusted_value (wi_process_start v)) \<and>
         (if trusted_value (wi_executable_hash w) \<noteq> None \<and> trusted_value (wi_executable_hash v) \<noteq> None
          then trusted_value (wi_executable_hash w) = trusted_value (wi_executable_hash v)
          else trusted_value (wi_executable_path w) \<noteq> None \<and>
               trusted_value (wi_executable_path w) = trusted_value (wi_executable_path v))) \<and>
     now < cl_expires_at l \<and> d = unat (cl_expires_at l) - unat now"
  by (auto simp: validate_Valid_iff Let_def compare_process_Same_iff compare_executable_Same_iff)

text \<open>A lease is issued exactly when the time to live is positive and within the issuer's
  maximum, the policy allows the very provenance it is bound to, and its expiry fits the clock; it
  then validates on that provenance for exactly its time to live, from the instant of issue,
  provided the workload's start token and executable were observed.\<close>

theorem issue_then_validate:
  assumes "issuer_ok iss"
  shows "((\<exists>l. fst (issue iss policy origin now ttl) = Inr l) \<longleftrightarrow>
      0 < ttl \<and> ttl \<le> li_max_ttl iss \<and>
      pd_effect (policy_evaluate policy (prov_context origin) (prov_request origin)) = Allow \<and>
      unat now + ttl < 2 ^ 64) \<and>
    (\<forall>l iss' t. issue iss policy origin now ttl = (Inr l, iss') \<longrightarrow>
       (is_valid (validate iss' l origin t) \<longleftrightarrow>
          unat t < unat now + ttl \<and>
          compare_process (ec_workload (prov_context origin)) (ec_workload (prov_context origin)) = Same \<and>
          compare_executable (ec_workload (prov_context origin)) (ec_workload (prov_context origin)) = Same))"
proof -
  have "li_next_sequence iss \<notin> li_revoked iss"
    using assms by (auto simp: issuer_ok_def)
  then show ?thesis
    unfolding issue_result_iff
    by (auto simp: issue_Inr_iff is_valid_iff validate_Valid_iff time_checked_add_Some word_less_nat_alt)
qed

lemma issue_then_validate_witness:
  "is_valid (validate (demo_issuer\<lparr>li_next_sequence := 1\<rparr>) demo_lease demo_provenance 129) \<and>
   \<not> is_valid (validate (demo_issuer\<lparr>li_next_sequence := 1\<rparr>) demo_lease demo_provenance 130)"
proof -
  have "issuer_ok demo_issuer" by (simp add: demo_issuer_def)
  from issue_then_validate [OF this, THEN conjunct2, rule_format, OF demo_issue]
  show ?thesis
    by (simp add: demo_provenance_def demo_context_def demo_workload_def compare_process_refl
        compare_executable_refl)
qed

text \<open>C26. Revocation and expiry are final: once a lease has been reported revoked, expired or foreign,
  no later validation finds it valid, whatever is presented, after any sequence of issues and
  revocations, as long as the clock does not run backwards.\<close>

theorem invalidation_is_final:
  assumes "validate iss l p now \<in> {ValRevoked, ValForeignIssuer inst, Expired e}"
    and "now \<le> now'"
  shows "\<not> is_valid (validate (issuer_run ops iss) l p' now')"
  using assms issuer_run_revoked [of iss ops]
  by (auto simp: validate_Revoked_iff dest!: validate_not_final validate_Expired)
     (auto simp: validate_def split: if_splits identity_comparison.splits)

lemma invalidation_is_final_witness:
  "\<not> is_valid (validate (issuer_run [OpIssue demo_policy demo_provenance 140 30] demo_issuer)
       demo_lease demo_provenance 141)"
proof (rule invalidation_is_final [of _ _ demo_provenance 130 "''agent-1''" 130])
  show "validate demo_issuer demo_lease demo_provenance 130 \<in>
      {ValRevoked, ValForeignIssuer ''agent-1'', Expired 130}"
    by (simp add: validate_def demo_lease_def demo_issuer_def issuer_new_def demo_provenance_def
        compare_process_refl compare_executable_refl demo_context_def demo_workload_def)
qed simp

text \<open>Revoking a lease invalidates that lease and no other: after a successful revocation the
  lease validates as revoked on every presentation, and every other lease validates as before; an
  unsuccessful revocation changes nothing. The revocation succeeds exactly for a lease this
  instance has issued and not yet revoked.\<close>

theorem revoke_exact:
  "validate (snd (revoke iss lid)) l p now =
     (if fst (revoke iss lid) = Revoked \<and> cl_id l = lid then ValRevoked else validate iss l p now) \<and>
   (fst (revoke iss lid) = Revoked \<longleftrightarrow>
      lid_issuer lid = li_instance iss \<and> lid_sequence lid < li_next_sequence iss \<and>
      lid_sequence lid \<notin> li_revoked iss) \<and>
   (fst (revoke iss lid) \<noteq> Revoked \<longleftrightarrow> snd (revoke iss lid) = iss)"
proof (intro conjI)
  show "fst (revoke iss lid) \<noteq> Revoked \<longleftrightarrow> snd (revoke iss lid) = iss"
    by (cases iss) (auto simp: revoke_def)
qed (simp add: validate_revoke, auto simp: revoke_def)

text \<open>No two leases of an issuer share an identifier: along any history of fewer operations than
  the sequence counter can count, the issued leases carry pairwise distinct sequence numbers,
  consecutive from the counter's value, and all name the issuing instance.\<close>

theorem lease_ids_distinct:
  assumes "unat (li_next_sequence iss) + length ops < 2 ^ 64"
  shows "distinct (map cl_id (issuer_leases ops iss)) \<and>
    (\<forall>l\<in>set (issuer_leases ops iss). lid_issuer (cl_id l) = li_instance iss)"
proof -
  have "distinct (map (\<lambda>l. unat (lid_sequence (cl_id l))) (issuer_leases ops iss))"
    by (simp add: issuer_leases_sequence [OF assms])
  then show ?thesis
    using distinct_map_comp [of "\<lambda>i. unat (lid_sequence i)" cl_id] issuer_leases_issuer by auto
qed

lemma lease_ids_distinct_witness:
  "distinct (map cl_id (issuer_leases
     [OpIssue demo_policy demo_provenance 100 30, OpIssue demo_policy demo_provenance 100 30]
     demo_issuer))"
  by (rule lease_ids_distinct [THEN conjunct1]) (simp add: demo_issuer_def issuer_new_def)

text \<open>Narrowing can only shorten a lease: the narrowed lease is valid exactly when the original
  is and the new bound has not been reached, and it keeps the identity, so revoking one revokes
  both.\<close>

theorem narrow_expiry_only_narrows:
  "is_valid (validate iss (narrow_expiry l not_after) p now) \<longleftrightarrow>
     is_valid (validate iss l p now) \<and> now < not_after"
  by (auto simp: is_valid_iff validate_Valid_iff narrow_expiry_def)

text \<open>A lease cannot be shared: two presentations on which one lease validates come from the same
  process and ask for the same resource and action.\<close>

theorem lease_bound_to_one_process:
  assumes "is_valid (validate iss l p now)" and "is_valid (validate iss' l q now')"
  shows "compare_process (ec_workload (prov_context p)) (ec_workload (prov_context q)) = Same \<and>
    prov_request p = prov_request q"
proof -
  let ?w = "ec_workload (prov_context (cl_origin l))"
  have "compare_process (ec_workload (prov_context p)) ?w = Same"
    and "compare_process ?w (ec_workload (prov_context q)) = Same"
    and "prov_request p = prov_request q"
    using assms by (simp_all add: is_valid_iff validate_Valid_iff compare_process_sym [of _ ?w])
  then show ?thesis
    using compare_process_Same_trans by blast
qed

lemma lease_bound_to_one_process_witness:
  "compare_process demo_workload (demo_workload\<lparr>wi_ancestry := [], wi_uid := EvidenceUnsupported\<rparr>) = Same"
proof -
  let ?other = "demo_provenance\<lparr>prov_context := demo_context\<lparr>ec_workload :=
      demo_workload\<lparr>wi_ancestry := [], wi_uid := EvidenceUnsupported\<rparr>\<rparr>\<rparr>"
  have "is_valid (validate demo_issuer demo_lease demo_provenance 101)"
    and "is_valid (validate demo_issuer demo_lease ?other 102)"
    by (simp_all add: is_valid_iff validate_Valid_iff demo_lease_def demo_issuer_def issuer_new_def
        demo_provenance_def compare_process_Same_iff compare_executable_Same_iff demo_context_def
        demo_workload_def)
  from lease_bound_to_one_process [OF this] show ?thesis
    by (simp add: demo_provenance_def demo_context_def)
qed

end
