(* ===== verification/Eltanin_Protocol.thy ===== *)
theory Eltanin_Protocol
  imports Eltanin_Lease
begin

text \<open>
  Models the crate \<open>crates/eltanin-protocol\<close>: the wire requests (\<open>src/request.rs\<close>) and
  responses (\<open>src/response.rs\<close>), and the framing (\<open>src/framing.rs\<close>): a 4-byte big-endian
  length, then that many bytes of JSON, bounded by \<open>MAX_FRAME_BYTES\<close>, with the envelope version
  checked before the shape of the payload. The JSON library is not part of the repository; its
  entry points, at the types the sources use them, are the fields of the record \<open>serde_json\<close>, a
  parameter of the definitions that call it. A \<open>usize\<close> is a natural number.
\<close>

section \<open>Requests\<close>

type_synonym request_id = u64

record lease_request =
  lr_resource :: resource_identity
  lr_action :: action

record release_request =
  rr_lease_id :: lease_id

datatype client_request =
    RequestLease lease_request
  | ReleaseLease release_request
  | AgentStatus

record request_body =
  rqb_request_id :: request_id
  rqb_body :: client_request

type_synonym wire_request = "request_body versioned"

definition provenance_for :: "lease_request \<Rightarrow> execution_context \<Rightarrow> provenance_record" where
  "provenance_for request derived =
     provenance_new derived \<lparr>cr_resource = lr_resource request, cr_action = lr_action request\<rparr>"

section \<open>Responses\<close>

record lease_view =
  lv_lease_id :: lease_id
  lv_remaining :: duration

datatype denial_reason = DenialNoMatchingRule | DenialExplicitDeny | DenialIndeterminateEvidence

datatype release_outcome = Released | Refused

record agent_status_view =
  asv_protocol_version :: u16

datatype error_code =
    CodeUnsupportedVersion u16 u16
  | MalformedRequest
  | CodeOversized
  | UnknownOperation
  | Internal

datatype agent_response =
    LeaseGranted lease_view
  | RespLeaseDenied denial_reason
  | LeaseReleased release_outcome
  | RespStatus agent_status_view
  | RespError error_code

record response_body =
  rsb_request_id :: "request_id option"
  rsb_body :: agent_response

type_synonym wire_response = "response_body versioned"

section \<open>The JSON library\<close>

text \<open>The instances of \<open>serde_json::from_slice\<close> and \<open>serde_json::to_vec\<close> the framing uses.\<close>

record serde_json =
  sj_version :: "u8 list \<Rightarrow> u16 option"
  sj_request_id :: "u8 list \<Rightarrow> request_id option"
  sj_request_to_vec :: "wire_request \<Rightarrow> u8 list"
  sj_request_from_slice :: "u8 list \<Rightarrow> wire_request option"
  sj_response_to_vec :: "wire_response \<Rightarrow> u8 list"
  sj_response_from_slice :: "u8 list \<Rightarrow> wire_response option"

text \<open>What the library documents for derived implementations, stated for one value: reading back
  what was written gives the value, and a reader of one field finds that field.\<close>

definition request_faithful :: "serde_json \<Rightarrow> wire_request \<Rightarrow> bool" where
  "request_faithful sj r \<longleftrightarrow>
     sj_request_from_slice sj (sj_request_to_vec sj r) = Some r \<and>
     sj_version sj (sj_request_to_vec sj r) = Some (v_version r) \<and>
     sj_request_id sj (sj_request_to_vec sj r) = Some (rqb_request_id (v_payload r))"

definition response_faithful :: "serde_json \<Rightarrow> wire_response \<Rightarrow> bool" where
  "response_faithful sj r \<longleftrightarrow>
     sj_response_from_slice sj (sj_response_to_vec sj r) = Some r \<and>
     sj_version sj (sj_response_to_vec sj r) = Some (v_version r)"

section \<open>Framing\<close>

definition MAX_FRAME_BYTES :: nat where
  "MAX_FRAME_BYTES = 64 * 1024"

datatype framing_error = Oversized nat nat

datatype protocol_error =
    Framing framing_error
  | Malformed
  | Version unsupported_version

text \<open>\<open>u32::from_be_bytes\<close> and \<open>u32::to_be_bytes\<close>.\<close>

definition u32_from_be_bytes :: "u8 list \<Rightarrow> u32" where
  "u32_from_be_bytes bytes = of_nat (foldl (\<lambda>acc b. acc * 256 + unat b) 0 bytes)"

definition u32_to_be_bytes :: "u32 \<Rightarrow> u8 list" where
  "u32_to_be_bytes w = map (\<lambda>i. of_nat (unat w div 256 ^ i mod 256)) [3, 2, 1, 0]"

definition decode_frame_len :: "u8 list \<Rightarrow> (framing_error, nat) result" where
  "decode_frame_len header =
     (let len = unat (u32_from_be_bytes header)
      in if len > MAX_FRAME_BYTES then Inl (Oversized len MAX_FRAME_BYTES) else Inr len)"

definition encode_frame :: "u8 list \<Rightarrow> (framing_error, u8 list) result" where
  "encode_frame payload =
     (if length payload > MAX_FRAME_BYTES
      then Inl (Oversized (length payload) MAX_FRAME_BYTES)
      else Inr (u32_to_be_bytes (of_nat (length payload)) @ payload))"

definition peek_version :: "serde_json \<Rightarrow> u8 list \<Rightarrow> u16 option" where
  "peek_version sj body = sj_version sj body"

definition peek_request_id :: "serde_json \<Rightarrow> u8 list \<Rightarrow> request_id option" where
  "peek_request_id sj body = sj_request_id sj body"

definition decode_request :: "serde_json \<Rightarrow> u8 list \<Rightarrow> (protocol_error, wire_request) result" where
  "decode_request sj body =
     (if length body > MAX_FRAME_BYTES
      then Inl (Framing (Oversized (length body) MAX_FRAME_BYTES))
      else case peek_version sj body of
        None \<Rightarrow> Inl Malformed
      | Some version \<Rightarrow>
          if version \<noteq> DOMAIN_SCHEMA_VERSION
          then Inl (Version \<lparr>uv_found = version, uv_expected = DOMAIN_SCHEMA_VERSION\<rparr>)
          else ok_or Malformed (sj_request_from_slice sj body))"

definition encode_response :: "serde_json \<Rightarrow> wire_response \<Rightarrow> (framing_error, u8 list) result" where
  "encode_response sj response = encode_frame (sj_response_to_vec sj response)"

definition encode_request :: "serde_json \<Rightarrow> wire_request \<Rightarrow> (framing_error, u8 list) result" where
  "encode_request sj request = encode_frame (sj_request_to_vec sj request)"

definition decode_response :: "serde_json \<Rightarrow> u8 list \<Rightarrow> (protocol_error, wire_response) result" where
  "decode_response sj body =
     (if length body > MAX_FRAME_BYTES
      then Inl (Framing (Oversized (length body) MAX_FRAME_BYTES))
      else case peek_version sj body of
        None \<Rightarrow> Inl Malformed
      | Some version \<Rightarrow>
          if version \<noteq> DOMAIN_SCHEMA_VERSION
          then Inl (Version \<lparr>uv_found = version, uv_expected = DOMAIN_SCHEMA_VERSION\<rparr>)
          else ok_or Malformed (sj_response_from_slice sj body))"

section \<open>Lemmas\<close>

lemma be_bytes_value:
  assumes "n < 2 ^ 32"
  shows "((n div 256 ^ 3 mod 256 * 256 + n div 256 ^ 2 mod 256) * 256 + n div 256 ^ 1 mod 256) * 256 +
    n div 256 ^ 0 mod 256 = (n :: nat)"
proof -
  have step: "j = Suc k \<Longrightarrow> n div 256 ^ j * 256 + n div 256 ^ k mod 256 = n div 256 ^ k" for j k
    by (metis div_mult2_eq div_mult_mod_eq power_Suc2)
  have top: "n div 256 ^ 3 mod 256 = n div 256 ^ 3"
    using assms by (simp add: less_mult_imp_div_less)
  have "n div 256 ^ 3 * 256 + n div 256 ^ 2 mod 256 = n div 256 ^ 2"
    and "n div 256 ^ 2 * 256 + n div 256 ^ 1 mod 256 = n div 256 ^ 1"
    and "n div 256 ^ 1 * 256 + n div 256 ^ 0 mod 256 = n div 256 ^ 0"
    by (rule step, simp)+
  then show ?thesis
    by (simp only: top) simp
qed

lemma length_u32_to_be_bytes [simp]: "length (u32_to_be_bytes w) = 4"
  by (simp add: u32_to_be_bytes_def)

lemma unat_be_bytes:
  "map unat (u32_to_be_bytes w) = map (\<lambda>i. unat w div 256 ^ i mod 256) [3, 2, 1, 0]"
proof -
  have "unat (of_nat (n mod 256) :: u8) = n mod 256" for n
    by (simp add: unat_of_nat take_bit_nat_eq_self)
  then show ?thesis
    by (simp only: u32_to_be_bytes_def list.map)
qed

lemma u32_be_bytes_roundtrip [simp]: "u32_from_be_bytes (u32_to_be_bytes w) = w"
proof -
  have "unat w < 2 ^ LENGTH(32)" by (rule unsigned_less)
  then have "foldl (\<lambda>acc b. acc * 256 + b) 0 (map unat (u32_to_be_bytes w)) = unat w"
    unfolding unat_be_bytes using be_bytes_value [of "unat w"] by (simp only: list.map foldl.simps) simp
  then show ?thesis
    by (simp add: u32_from_be_bytes_def foldl_map)
qed

lemma unat_of_nat_frame: "n \<le> MAX_FRAME_BYTES \<Longrightarrow> unat (of_nat n :: u32) = n"
  by (simp add: MAX_FRAME_BYTES_def unat_of_nat take_bit_nat_eq_self)

lemma decode_frame_len_header:
  "n \<le> MAX_FRAME_BYTES \<Longrightarrow> decode_frame_len (u32_to_be_bytes (of_nat n)) = Inr n"
  by (simp add: decode_frame_len_def unat_of_nat_frame)

lemma decode_frame_len_bound: "decode_frame_len h = Inr n \<Longrightarrow> n \<le> MAX_FRAME_BYTES"
  by (auto simp: decode_frame_len_def Let_def split: if_splits)

lemma encode_frame_Inr:
  "encode_frame p = Inr f \<longleftrightarrow>
     length p \<le> MAX_FRAME_BYTES \<and> f = u32_to_be_bytes (of_nat (length p)) @ p"
  by (auto simp: encode_frame_def)

lemma decode_request_faithful:
  "request_faithful sj r \<Longrightarrow> length (sj_request_to_vec sj r) \<le> MAX_FRAME_BYTES \<Longrightarrow>
     v_version r = DOMAIN_SCHEMA_VERSION \<Longrightarrow> decode_request sj (sj_request_to_vec sj r) = Inr r"
  by (simp add: decode_request_def request_faithful_def peek_version_def)

lemma decode_response_faithful:
  "response_faithful sj r \<Longrightarrow> length (sj_response_to_vec sj r) \<le> MAX_FRAME_BYTES \<Longrightarrow>
     v_version r = DOMAIN_SCHEMA_VERSION \<Longrightarrow> decode_response sj (sj_response_to_vec sj r) = Inr r"
  by (simp add: decode_response_def response_faithful_def peek_version_def)

lemma decode_request_Inr:
  "decode_request sj body = Inr r \<longleftrightarrow>
     length body \<le> MAX_FRAME_BYTES \<and> sj_version sj body = Some DOMAIN_SCHEMA_VERSION \<and>
     sj_request_from_slice sj body = Some r"
  by (auto simp: decode_request_def peek_version_def split: option.splits if_splits)

section \<open>Properties\<close>

text \<open>Framing: a payload is framed exactly when it fits, as four header bytes from which its exact
  length is read back, followed by the payload; a header announcing more than the bound is refused
  with the announced length, so no read is ever larger than the bound.\<close>

theorem frame_round_trip:
  "(encode_frame p = Inr f \<longleftrightarrow>
      length f = 4 + length p \<and> drop 4 f = p \<and> take 4 f = u32_to_be_bytes (of_nat (length p)) \<and>
      decode_frame_len (take 4 f) = Inr (length p)) \<and>
   (encode_frame p = Inl (Oversized (length p) MAX_FRAME_BYTES) \<longleftrightarrow> MAX_FRAME_BYTES < length p) \<and>
   (decode_frame_len h = Inr n \<longleftrightarrow> n = unat (u32_from_be_bytes h) \<and> n \<le> MAX_FRAME_BYTES)"
proof (intro conjI)
  show "encode_frame p = Inr f \<longleftrightarrow>
      length f = 4 + length p \<and> drop 4 f = p \<and> take 4 f = u32_to_be_bytes (of_nat (length p)) \<and>
      decode_frame_len (take 4 f) = Inr (length p)" (is "?L \<longleftrightarrow> ?R")
  proof
    assume ?R
    moreover have "f = take 4 f @ drop 4 f" by simp
    ultimately show ?L
      using decode_frame_len_bound by (metis encode_frame_Inr)
  qed (auto simp: encode_frame_Inr decode_frame_len_header)
qed (auto simp: encode_frame_def decode_frame_len_def Let_def)

text \<open>C34. What crosses the wire. A value is framed exactly when its JSON fits the bound; the header then
  announces exactly the bytes that follow. Whatever bytes arrive, both directions judge them in the same
  order: the size, then the envelope version, then the shape. So a body of another version is reported
  as such even when its payload has no shape this build knows, and a body is malformed only if no
  version can be read from it or, at the current version, the whole does not parse. A request or
  response the JSON library reads back as it was written arrives as it was sent.\<close>

theorem wire_round_trip:
  "(encode_request sj rq = Inr f \<longleftrightarrow>
      length (sj_request_to_vec sj rq) \<le> 65536 \<and> drop 4 f = sj_request_to_vec sj rq \<and> 4 \<le> length f \<and>
      decode_frame_len (take 4 f) = Inr (length f - 4) \<and> take 4 f = u32_to_be_bytes (of_nat (length f - 4))) \<and>
   (decode_request sj body =
      (if length body > 65536 then Inl (Framing (Oversized (length body) 65536))
       else if \<exists>v. sj_version sj body = Some v \<and> v \<noteq> 1
       then Inl (Version \<lparr>uv_found = the (sj_version sj body), uv_expected = 1\<rparr>)
       else if sj_version sj body = None \<or> sj_request_from_slice sj body = None then Inl Malformed
       else Inr (the (sj_request_from_slice sj body)))) \<and>
   (decode_response sj body =
      (if length body > 65536 then Inl (Framing (Oversized (length body) 65536))
       else if \<exists>v. sj_version sj body = Some v \<and> v \<noteq> 1
       then Inl (Version \<lparr>uv_found = the (sj_version sj body), uv_expected = 1\<rparr>)
       else if sj_version sj body = None \<or> sj_response_from_slice sj body = None then Inl Malformed
       else Inr (the (sj_response_from_slice sj body)))) \<and>
   (request_faithful sj rq \<and> encode_request sj rq = Inr f \<longrightarrow>
      peek_request_id sj (drop 4 f) = Some (rqb_request_id (v_payload rq)) \<and>
      decode_request sj (drop 4 f) =
        (if v_version rq = 1 then Inr rq
         else Inl (Version \<lparr>uv_found = v_version rq, uv_expected = 1\<rparr>))) \<and>
   (response_faithful sj rs \<and> encode_response sj rs = Inr g \<longrightarrow>
      decode_frame_len (take 4 g) = Inr (length g - 4) \<and>
      decode_response sj (drop 4 g) =
        (if v_version rs = 1 then Inr rs
         else Inl (Version \<lparr>uv_found = v_version rs, uv_expected = 1\<rparr>)))"
proof (intro conjI)
  have max: "MAX_FRAME_BYTES = 65536" by (simp add: MAX_FRAME_BYTES_def)
  show "encode_request sj rq = Inr f \<longleftrightarrow>
      length (sj_request_to_vec sj rq) \<le> 65536 \<and> drop 4 f = sj_request_to_vec sj rq \<and> 4 \<le> length f \<and>
      decode_frame_len (take 4 f) = Inr (length f - 4) \<and> take 4 f = u32_to_be_bytes (of_nat (length f - 4))"
    (is "?L \<longleftrightarrow> ?R")
  proof
    assume ?R
    moreover have "f = take 4 f @ drop 4 f" by simp
    ultimately show ?L
      by (metis encode_frame_Inr encode_request_def length_drop max)
  next
    assume ?L
    then show ?R
      using decode_frame_len_header [of "length (sj_request_to_vec sj rq)"]
      by (auto simp: encode_request_def encode_frame_Inr max)
  qed
next
  show "request_faithful sj rq \<and> encode_request sj rq = Inr f \<longrightarrow>
      peek_request_id sj (drop 4 f) = Some (rqb_request_id (v_payload rq)) \<and>
      decode_request sj (drop 4 f) =
        (if v_version rq = 1 then Inr rq
         else Inl (Version \<lparr>uv_found = v_version rq, uv_expected = 1\<rparr>))"
    by (auto simp: request_faithful_def encode_request_def encode_frame_Inr peek_request_id_def
        decode_request_def peek_version_def DOMAIN_SCHEMA_VERSION_def)
  show "response_faithful sj rs \<and> encode_response sj rs = Inr g \<longrightarrow>
      decode_frame_len (take 4 g) = Inr (length g - 4) \<and>
      decode_response sj (drop 4 g) =
        (if v_version rs = 1 then Inr rs
         else Inl (Version \<lparr>uv_found = v_version rs, uv_expected = 1\<rparr>))"
    by (auto simp: response_faithful_def encode_response_def encode_frame_Inr decode_frame_len_header
        decode_response_def peek_version_def DOMAIN_SCHEMA_VERSION_def)
qed (auto simp: decode_request_def decode_response_def peek_version_def DOMAIN_SCHEMA_VERSION_def
    MAX_FRAME_BYTES_def split: option.splits)

definition demo_wire_request :: wire_request where
  "demo_wire_request = versioned_current \<lparr>rqb_request_id = 9, rqb_body = AgentStatus\<rparr>"

definition demo_wire_response :: wire_response where
  "demo_wire_response = versioned_current
     \<lparr>rsb_request_id = Some 9, rsb_body = RespStatus \<lparr>asv_protocol_version = 1\<rparr>\<rparr>"

definition demo_serde :: serde_json where
  "demo_serde =
     \<lparr>sj_version = (\<lambda>b. if b \<in> {[1, 2], [1, 3]} then Some 1 else if b = [7] then Some 2 else None),
      sj_request_id = (\<lambda>b. if b = [1, 2] then Some 9 else None),
      sj_request_to_vec = (\<lambda>_. [1, 2]),
      sj_request_from_slice = (\<lambda>b. if b = [1, 2] then Some demo_wire_request else None),
      sj_response_to_vec = (\<lambda>_. [1, 3]),
      sj_response_from_slice = (\<lambda>b. if b = [1, 3] then Some demo_wire_response else None)\<rparr>"

lemma wire_round_trip_witness:
  "decode_request demo_serde [1, 2] = Inr demo_wire_request \<and>
   decode_response demo_serde [1, 3] = Inr demo_wire_response \<and>
   decode_request demo_serde [7] = Inl (Version \<lparr>uv_found = 2, uv_expected = 1\<rparr>)"
proof -
  have "request_faithful demo_serde demo_wire_request"
    and "response_faithful demo_serde demo_wire_response"
    and "encode_request demo_serde demo_wire_request = Inr [0, 0, 0, 2, 1, 2]"
    and "encode_response demo_serde demo_wire_response = Inr [0, 0, 0, 2, 1, 3]"
    and "v_version demo_wire_request = 1" "v_version demo_wire_response = 1"
    and "sj_version demo_serde [7] = Some 2"
    by (simp_all add: request_faithful_def response_faithful_def demo_serde_def
        demo_wire_request_def demo_wire_response_def versioned_current_def DOMAIN_SCHEMA_VERSION_def
        encode_request_def encode_response_def encode_frame_def MAX_FRAME_BYTES_def
        u32_to_be_bytes_def)
  moreover have "sj_request_to_vec demo_serde x = [1, 2]" for x
    by (simp add: demo_serde_def)
  ultimately show ?thesis
    using wire_round_trip [of demo_serde demo_wire_request "[0, 0, 0, 2, 1, 2]" "[7]" demo_wire_response "[0, 0, 0, 2, 1, 3]"]
    by simp
qed

end
