(* ===== verification/Eltanin_Peer.thy ===== *)
theory Eltanin_Peer
  imports Eltanin_Identity
begin

text \<open>
  Models \<open>crates/eltanin-core/src/peer.rs\<close>: the kernel credential of a connected peer, the
  reconciliation of its effective uid with independently observed uids, and the
  \<open>PeerContext\<close> whose \<open>authorizable\<close> accessor is the fail-closed gate of the agent. The
  constructors behind the \<open>test-support\<close> feature are not part of a production build and are
  left out.
\<close>

section \<open>Credentials and consistency\<close>

record peer_credential =
  cred_pid :: u32
  cred_effective_uid :: u32
  cred_effective_gid :: u32

definition from_kernel :: "u32 \<Rightarrow> u32 \<Rightarrow> u32 \<Rightarrow> peer_credential" where
  "from_kernel pid effective_uid effective_gid =
     \<lparr>cred_pid = pid, cred_effective_uid = effective_uid, cred_effective_gid = effective_gid\<rparr>"

datatype peer_consistency =
    Consistent
  | CredentialDivergence u32 "u32 evidence" "u32 evidence"
  | PeerUnmapped
  | PeerIndeterminate string

fun uid_matches :: "u32 \<Rightarrow> u32 evidence \<Rightarrow> bool" where
  "uid_matches peer_effective_uid (Present value source) \<longleftrightarrow>
     source \<noteq> SelfAsserted \<and> value = peer_effective_uid"
| "uid_matches _ (Missing _) \<longleftrightarrow> False"
| "uid_matches _ EvidenceUnsupported \<longleftrightarrow> False"

definition classify_consistency ::
  "u32 \<Rightarrow> u32 evidence \<Rightarrow> u32 evidence \<Rightarrow> peer_consistency" where
  "classify_consistency peer_effective_uid observed_real_uid observed_effective_uid =
     (if uid_matches peer_effective_uid observed_real_uid \<or>
         uid_matches peer_effective_uid observed_effective_uid then Consistent
      else case (observed_real_uid, observed_effective_uid) of
        (Missing reason, Missing _) \<Rightarrow> PeerIndeterminate reason
      | _ \<Rightarrow> CredentialDivergence peer_effective_uid observed_real_uid observed_effective_uid)"

section \<open>Peer contexts\<close>

record peer_context =
  pc_credential :: peer_credential
  pc_consistency :: peer_consistency
  pc_observed :: execution_context

definition from_kernel_observation ::
  "peer_credential \<Rightarrow> execution_context \<Rightarrow> u32 evidence \<Rightarrow> u32 evidence \<Rightarrow> peer_context" where
  "from_kernel_observation credential observed observed_real_uid observed_effective_uid =
     \<lparr>pc_credential = credential,
      pc_consistency = classify_consistency (cred_effective_uid credential)
                         observed_real_uid observed_effective_uid,
      pc_observed = observed\<rparr>"

definition peer_unmapped :: "peer_credential \<Rightarrow> execution_context \<Rightarrow> peer_context" where
  "peer_unmapped credential observed =
     \<lparr>pc_credential = credential, pc_consistency = PeerUnmapped, pc_observed = observed\<rparr>"

definition authorizable :: "peer_context \<Rightarrow> execution_context option" where
  "authorizable p = (if pc_consistency p = Consistent then Some (pc_observed p) else None)"

datatype peer_credential_error = CredentialIo string | UnsupportedPlatform

section \<open>Lemmas\<close>

lemma uid_matches_iff: "uid_matches u e \<longleftrightarrow> trusted_value e = Some u"
  by (cases e) auto

lemma classify_Consistent_iff:
  "classify_consistency u r e = Consistent \<longleftrightarrow>
     trusted_value r = Some u \<or> trusted_value e = Some u"
  by (auto simp: classify_consistency_def uid_matches_iff split: evidence.splits)

lemma classify_Indeterminate_iff:
  "classify_consistency u r e = PeerIndeterminate reason \<longleftrightarrow>
     r = Missing reason \<and> (\<exists>x. e = Missing x)"
  by (cases r; cases e) (auto simp: classify_consistency_def)

lemma classify_not_unmapped: "classify_consistency u r e \<noteq> PeerUnmapped"
  by (auto simp: classify_consistency_def split: evidence.splits)

lemma authorizable_Some:
  "authorizable p = Some obs \<longleftrightarrow> pc_consistency p = Consistent \<and> pc_observed p = obs"
  by (auto simp: authorizable_def)

lemma authorizable_None: "authorizable p = None \<longleftrightarrow> pc_consistency p \<noteq> Consistent"
  by (simp add: authorizable_def)

lemma authorizable_unmapped [simp]: "authorizable (peer_unmapped c obs) = None"
  by (simp add: authorizable_def peer_unmapped_def)

lemma authorizable_observation:
  "authorizable (from_kernel_observation c obs r e) = Some obs' \<longleftrightarrow>
     obs' = obs \<and>
     (trusted_value r = Some (cred_effective_uid c) \<or> trusted_value e = Some (cred_effective_uid c))"
  by (auto simp: authorizable_def from_kernel_observation_def classify_Consistent_iff)

section \<open>Properties\<close>

text \<open>The fail-closed gate: a context is released for authorization exactly when an observer
  other than the workload itself saw the kernel's effective uid as the real or the effective uid
  of the process. A peer outside the local pid namespace is never released; two unread uids are
  indeterminate, every other disagreement is a divergence that keeps what was seen.\<close>

theorem authorizable_exactly_consistent:
  "(authorizable (from_kernel_observation c obs r e) = Some obs' \<longleftrightarrow>
      obs' = obs \<and>
      (trusted_value r = Some (cred_effective_uid c) \<or>
       trusted_value e = Some (cred_effective_uid c))) \<and>
   authorizable (peer_unmapped c obs) = None \<and>
   (pc_consistency (from_kernel_observation c obs r e) = PeerIndeterminate reason \<longleftrightarrow>
      r = Missing reason \<and> (\<exists>x. e = Missing x)) \<and>
   pc_consistency (from_kernel_observation c obs r e) \<in>
      {Consistent, CredentialDivergence (cred_effective_uid c) r e} \<union> range PeerIndeterminate"
  using authorizable_observation authorizable_unmapped
  by (auto simp: from_kernel_observation_def classify_Indeterminate_iff)
     (auto simp: classify_consistency_def split: evidence.splits)

end
