(* ===== verification/Eltanin_Text.thy ===== *)
theory Eltanin_Text
  imports Eltanin_Prelude "HOL-Library.Char_ord" "HOL-Library.List_Lexorder"
begin

text \<open>
  The operations of Rust's standard library on text that the sources call: decimal formatting
  of unsigned integers (\<open>to_string\<close>), their parsing (\<open>str::parse\<close>: an optional plus sign,
  at least one digit, no overflow), splitting at the last occurrence of a separator
  (\<open>rsplit_once\<close>), and prefixes. A string is the list of its bytes; every character the
  sources test for is ASCII, so the bytes of a longer UTF-8 sequence never match one.
\<close>

section \<open>Decimal numbers\<close>

definition digit_char :: "nat \<Rightarrow> char" where
  "digit_char d = char_of (48 + d)"

fun dec_of_nat :: "nat \<Rightarrow> string" where
  "dec_of_nat n =
     (if n < 10 then [digit_char n] else dec_of_nat (n div 10) @ [digit_char (n mod 10)])"

declare dec_of_nat.simps [simp del]

definition digit_val :: "char \<Rightarrow> nat option" where
  "digit_val c = (let n = of_char c :: nat in if 48 \<le> n \<and> n \<le> 57 then Some (n - 48) else None)"

fun parse_digits :: "nat \<Rightarrow> nat \<Rightarrow> string \<Rightarrow> nat option" where
  "parse_digits limit acc [] = Some acc"
| "parse_digits limit acc (c # cs) =
     (case digit_val c of
        None \<Rightarrow> None
      | Some d \<Rightarrow>
          if acc * 10 + d < limit then parse_digits limit (acc * 10 + d) cs else None)"

text \<open>\<open>parse::<uN>\<close> with \<open>limit = 2 ^ N\<close>; a lone sign and a minus sign are invalid.\<close>

definition parse_unsigned :: "nat \<Rightarrow> string \<Rightarrow> nat option" where
  "parse_unsigned limit s =
     (case s of
        [] \<Rightarrow> None
      | c # cs \<Rightarrow>
          if c = CHR ''+'' then (if cs = [] then None else parse_digits limit 0 cs)
          else parse_digits limit 0 s)"

definition u64_to_string :: "u64 \<Rightarrow> string" where
  "u64_to_string w = dec_of_nat (unat w)"

definition u32_to_string :: "u32 \<Rightarrow> string" where
  "u32_to_string w = dec_of_nat (unat w)"

definition parse_u64 :: "string \<Rightarrow> u64 option" where
  "parse_u64 s = map_option of_nat (parse_unsigned (2 ^ 64) s)"

definition parse_u32 :: "string \<Rightarrow> u32 option" where
  "parse_u32 s = map_option of_nat (parse_unsigned (2 ^ 32) s)"

lemma digit_val_char [simp]: "d < 10 \<Longrightarrow> digit_val (digit_char d) = Some d"
  by (simp add: digit_val_def digit_char_def of_char_of take_bit_nat_eq_self)

lemma digit_char_not_sign: "d < 10 \<Longrightarrow> digit_char d \<noteq> CHR ''+''"
proof
  assume "d < 10" and "digit_char d = CHR ''+''"
  then have "digit_val (CHR ''+'') = Some d"
    using digit_val_char by metis
  then show False by (simp add: digit_val_def)
qed

lemma digit_val_None_if: "digit_val c = None \<Longrightarrow> d < 10 \<Longrightarrow> digit_char d \<noteq> c"
  using digit_val_char by fastforce

lemma parse_digits_append:
  "parse_digits limit acc (xs @ ys) =
     (case parse_digits limit acc xs of None \<Rightarrow> None | Some a \<Rightarrow> parse_digits limit a ys)"
  by (induction limit acc xs rule: parse_digits.induct) (auto split: option.splits)

lemma parse_digits_dec: "n < limit \<Longrightarrow> parse_digits limit 0 (dec_of_nat n) = Some n"
proof (induction n rule: dec_of_nat.induct)
  case (1 n)
  show ?case
  proof (cases "n < 10")
    case True
    then show ?thesis using 1 by (simp add: dec_of_nat.simps [of n])
  next
    case False
    moreover have "n div 10 < limit" using 1(2) by simp
    ultimately show ?thesis
      using 1 by (simp add: dec_of_nat.simps [of n] parse_digits_append)
  qed
qed

lemma dec_of_nat_not_Nil [simp]: "dec_of_nat n \<noteq> []"
  by (subst dec_of_nat.simps) simp

lemma set_dec_of_nat: "c \<in> set (dec_of_nat n) \<Longrightarrow> \<exists>d<10. c = digit_char d"
proof (induction n rule: dec_of_nat.induct)
  case (1 n)
  have "n mod 10 < 10" by simp
  with 1 show ?case
    by (cases "n < 10") (auto simp: dec_of_nat.simps [of n] intro: exI [of _ "n mod 10"])
qed

lemma digit_val_dec_of_nat: "c \<in> set (dec_of_nat n) \<Longrightarrow> digit_val c \<noteq> None"
  by (auto dest: set_dec_of_nat)

lemma parse_unsigned_dec: "n < limit \<Longrightarrow> parse_unsigned limit (dec_of_nat n) = Some n"
proof -
  assume n: "n < limit"
  obtain c cs where s: "dec_of_nat n = c # cs"
    by (cases "dec_of_nat n") auto
  then have "c \<noteq> CHR ''+''"
    using set_dec_of_nat [of c n] digit_char_not_sign by auto
  then show ?thesis
    using parse_digits_dec [OF n] by (simp add: parse_unsigned_def s)
qed

lemma parse_u64_to_string [simp]: "parse_u64 (u64_to_string w) = Some w"
proof -
  have "unat w < 2 ^ LENGTH(64)" by (rule unsigned_less)
  then show ?thesis by (simp add: parse_u64_def u64_to_string_def parse_unsigned_dec)
qed

lemma parse_u32_to_string [simp]: "parse_u32 (u32_to_string w) = Some w"
proof -
  have "unat w < 2 ^ LENGTH(32)" by (rule unsigned_less)
  then show ?thesis by (simp add: parse_u32_def u32_to_string_def parse_unsigned_dec)
qed

lemma u64_to_string_inject [simp]: "u64_to_string a = u64_to_string b \<longleftrightarrow> a = b"
  by (metis option.inject parse_u64_to_string)

lemma parse_digits_bound: "parse_digits limit acc s = Some n \<Longrightarrow> acc < limit \<Longrightarrow> n < limit"
  by (induction limit acc s rule: parse_digits.induct) (auto split: option.splits if_splits)

section \<open>Splitting\<close>

text \<open>\<open>split_once\<close> and \<open>rsplit_once\<close> on one separator character.\<close>

fun split_once :: "char \<Rightarrow> string \<Rightarrow> (string \<times> string) option" where
  "split_once sep [] = None"
| "split_once sep (c # cs) =
     (if c = sep then Some ([], cs)
      else map_option (\<lambda>(a, b). (c # a, b)) (split_once sep cs))"

definition rsplit_once :: "char \<Rightarrow> string \<Rightarrow> (string \<times> string) option" where
  "rsplit_once sep s = map_option (\<lambda>(a, b). (rev b, rev a)) (split_once sep (rev s))"

lemma split_once_None [simp]: "split_once sep s = None \<longleftrightarrow> sep \<notin> set s"
  by (induction sep s rule: split_once.induct) auto

lemma split_once_Some: "split_once sep s = Some (a, b) \<longleftrightarrow> s = a @ sep # b \<and> sep \<notin> set a"
proof (induction s arbitrary: a)
  case (Cons c cs)
  note Cons_IH = Cons.IH
  show ?case
  proof (cases a)
    case Nil
    then show ?thesis by (auto split: option.splits)
  next
    case (Cons d ds)
    have "split_once sep (c # cs) = Some (d # ds, b) \<longleftrightarrow>
        c \<noteq> sep \<and> c = d \<and> split_once sep cs = Some (ds, b)"
      by auto
    then show ?thesis
      using Cons_IH [of ds] Cons by auto
  qed
qed simp

lemma rsplit_once_Some: "rsplit_once sep s = Some (a, b) \<longleftrightarrow> s = a @ sep # b \<and> sep \<notin> set b"
proof -
  have "rsplit_once sep s = Some (a, b) \<longleftrightarrow> split_once sep (rev s) = Some (rev b, rev a)"
    by (auto simp: rsplit_once_def)
  moreover have "rev s = rev b @ sep # rev a \<longleftrightarrow> s = a @ sep # b"
    using rev_is_rev_conv [of s "a @ sep # b"] by (simp only: rev_append rev.simps append_assoc append.simps)
  ultimately show ?thesis
    by (simp only: split_once_Some set_rev)
qed

text \<open>\<open>strip_prefix\<close>.\<close>

fun strip_prefix :: "string \<Rightarrow> string \<Rightarrow> string option" where
  "strip_prefix [] s = Some s"
| "strip_prefix (p # ps) (c # cs) = (if p = c then strip_prefix ps cs else None)"
| "strip_prefix (_ # _) [] = None"

lemma strip_prefix_Some: "strip_prefix p s = Some rest \<longleftrightarrow> s = p @ rest"
  by (induction p s rule: strip_prefix.induct) auto

end
