(* ===== verification/Eltanin_Backend.thy ===== *)
theory Eltanin_Backend
  imports Eltanin_Resource Eltanin_Text
begin

text \<open>
  Models \<open>crates/eltanin-backend/src/contract.rs\<close> (the backend error and the
  \<open>ComputeBackend\<close> trait, here the locale \<open>compute_backend\<close> with the laws the trait's contract
  states), \<open>crates/eltanin-backend/src/fake.rs\<close> (the deterministic fake backend) and
  \<open>crates/eltanin-apple/src/backend.rs\<close> with \<open>device.rs\<close> (the Apple adapter, over the device
  list that Metal reports, which is a parameter). Locks are not modelled: no operation panics
  while it holds one, so none is ever poisoned.
\<close>

section \<open>The contract\<close>

datatype backend_error =
    BackendUnsupported capability
  | Unavailable resource_identity
  | PermissionDenied
  | Transient string
  | Invariant string

text \<open>A backend with state \<open>'b\<close>: \<open>observe\<close> reports a resource under its own identity, a success of
  \<open>enforce\<close> or \<open>revoke\<close> is reported only for a resource that is observed with the capability
  supported, and neither changes what is observed.\<close>

locale compute_backend =
  fixes backend_ok :: "'b \<Rightarrow> bool"
    and observe :: "'b \<Rightarrow> resource_identity \<Rightarrow> (backend_error, protected_resource) result"
    and enforce :: "'b \<Rightarrow> compute_request \<Rightarrow> (backend_error, enforcement_result) result \<times> 'b"
    and revoke :: "'b \<Rightarrow> resource_identity \<Rightarrow> (backend_error, enforcement_result) result \<times> 'b"
  assumes observe_identity: "backend_ok b \<Longrightarrow> observe b r = Inr p \<Longrightarrow> pr_identity p = r"
    and enforce_capable:
      "backend_ok b \<Longrightarrow> enforce b q = (Inr Allowed, b') \<Longrightarrow>
         \<exists>p. observe b (cr_resource q) = Inr p \<and> supports (pr_capabilities p) DeviceEnforce"
    and revoke_capable:
      "backend_ok b \<Longrightarrow> revoke b r = (Inr Allowed, b') \<Longrightarrow>
         \<exists>p. observe b r = Inr p \<and> supports (pr_capabilities p) DeviceRevoke"
    and enforce_ok: "backend_ok b \<Longrightarrow> backend_ok (snd (enforce b q))"
    and revoke_ok: "backend_ok b \<Longrightarrow> backend_ok (snd (revoke b r))"
    and enforce_observe: "observe (snd (enforce b q)) = observe b"
    and revoke_observe: "observe (snd (revoke b r)) = observe b"
begin

text \<open>A resource whose capability is absent, partial, unsupported or not evaluated is never
  reported as enforced or revoked, whatever calls came before.\<close>

definition apply_call :: "compute_request + resource_identity \<Rightarrow> 'b \<Rightarrow> 'b" where
  "apply_call c b = (case c of Inl q \<Rightarrow> snd (enforce b q) | Inr r \<Rightarrow> snd (revoke b r))"

lemma calls_ok: "backend_ok b \<Longrightarrow> backend_ok (fold apply_call cs b)"
  by (induction cs arbitrary: b) (auto simp: apply_call_def enforce_ok revoke_ok split: sum.splits)

lemma calls_observe: "observe (fold apply_call cs b) = observe b"
  by (induction cs arbitrary: b)
     (auto simp: apply_call_def enforce_observe revoke_observe split: sum.splits)

lemma never_enforced_without_capability:
  assumes "backend_ok b"
    and "\<And>p. observe b (cr_resource q) = Inr p \<Longrightarrow> \<not> supports (pr_capabilities p) DeviceEnforce"
  shows "fst (enforce (fold apply_call cs b) q) \<noteq> Inr Allowed"
  using enforce_capable [OF calls_ok [OF assms(1)], of cs q] assms(2)
  by (metis calls_observe prod.collapse)

lemma never_revoked_without_capability:
  assumes "backend_ok b"
    and "\<And>p. observe b r = Inr p \<Longrightarrow> \<not> supports (pr_capabilities p) DeviceRevoke"
  shows "fst (revoke (fold apply_call cs b) r) \<noteq> Inr Allowed"
  using revoke_capable [OF calls_ok [OF assms(1)], of cs r] assms(2)
  by (metis calls_observe prod.collapse)

end

section \<open>The fake backend\<close>

record fake_backend =
  fb_resources :: "(resource_identity \<times> protected_resource) list"
  fb_scripted :: "(resource_identity \<times> enforcement_result) list"
  fb_revoke_calls :: "(resource_identity \<times> u32) list"

definition fake_new :: fake_backend where
  "fake_new = \<lparr>fb_resources = [], fb_scripted = [], fb_revoke_calls = []\<rparr>"

definition fake_insert :: "protected_resource \<Rightarrow> fake_backend \<Rightarrow> fake_backend" where
  "fake_insert resource b =
     b\<lparr>fb_resources := AList.update (pr_identity resource) resource (fb_resources b)\<rparr>"

definition fake_remove :: "resource_identity \<Rightarrow> fake_backend \<Rightarrow> fake_backend" where
  "fake_remove identity b =
     b\<lparr>fb_resources := AList.delete identity (fb_resources b),
       fb_scripted := AList.delete identity (fb_scripted b)\<rparr>"

definition script_enforcement ::
  "resource_identity \<Rightarrow> enforcement_result \<Rightarrow> fake_backend \<Rightarrow> fake_backend" where
  "script_enforcement identity result b =
     b\<lparr>fb_scripted := AList.update identity result (fb_scripted b)\<rparr>"

definition revoke_call_count :: "fake_backend \<Rightarrow> resource_identity \<Rightarrow> u32" where
  "revoke_call_count b identity =
     (case map_of (fb_revoke_calls b) identity of Some n \<Rightarrow> n | None \<Rightarrow> 0)"

definition fake_discover :: "fake_backend \<Rightarrow> (backend_error, protected_resource list) result" where
  "fake_discover b = Inr (map snd (fb_resources b))"

definition fake_observe ::
  "fake_backend \<Rightarrow> resource_identity \<Rightarrow> (backend_error, protected_resource) result" where
  "fake_observe b resource = ok_or (Unavailable resource) (map_of (fb_resources b) resource)"

definition fake_enforce ::
  "fake_backend \<Rightarrow> compute_request \<Rightarrow> (backend_error, enforcement_result) result" where
  "fake_enforce b request =
     (case fake_observe b (cr_resource request) of
        Inl e \<Rightarrow> Inl e
      | Inr resource \<Rightarrow>
          if \<not> supports (pr_capabilities resource) DeviceEnforce
          then Inr (EnforcementUnsupported DeviceEnforce)
          else case map_of (fb_scripted b) (cr_resource request) of
            Some scripted \<Rightarrow> Inr scripted
          | None \<Rightarrow> Inr Allowed)"

definition fake_revoke ::
  "fake_backend \<Rightarrow> resource_identity \<Rightarrow>
     (backend_error, enforcement_result) result \<times> fake_backend" where
  "fake_revoke b resource =
     (let b' = b\<lparr>fb_revoke_calls :=
                   AList.update resource (revoke_call_count b resource + 1) (fb_revoke_calls b)\<rparr>
      in case fake_observe b' resource of
           Inl e \<Rightarrow> (Inl e, b')
         | Inr observed \<Rightarrow>
             if \<not> supports (pr_capabilities observed) DeviceRevoke
             then (Inr (EnforcementUnsupported DeviceRevoke), b')
             else (Inr Allowed, b'))"

text \<open>Every resource is stored under its own identity, each identity once.\<close>

definition fake_ok :: "fake_backend \<Rightarrow> bool" where
  "fake_ok b \<longleftrightarrow> keys_distinct (fb_resources b) \<and>
     (\<forall>(i, p)\<in>set (fb_resources b). pr_identity p = i)"

lemma fake_ok_new [simp]: "fake_ok fake_new"
  by (simp add: fake_ok_def fake_new_def)

lemma fake_ok_iff:
  "fake_ok b \<longleftrightarrow> keys_distinct (fb_resources b) \<and>
     (\<forall>i p. map_of (fb_resources b) i = Some p \<longrightarrow> pr_identity p = i)"
  by (auto simp: fake_ok_def map_of_iff_mem)

lemma fake_ok_insert [simp]: "fake_ok b \<Longrightarrow> fake_ok (fake_insert p b)"
  by (auto simp: fake_ok_iff fake_insert_def split: if_splits)

lemma fake_ok_remove [simp]: "fake_ok b \<Longrightarrow> fake_ok (fake_remove i b)"
  by (auto simp: fake_ok_iff fake_remove_def split: if_splits)

lemma fake_ok_script [simp]: "fake_ok (script_enforcement i r b) = fake_ok b"
  by (simp add: fake_ok_def script_enforcement_def)

lemma fake_observe_Inr: "fake_observe b r = Inr p \<longleftrightarrow> map_of (fb_resources b) r = Some p"
  by (simp add: fake_observe_def)

lemma fake_observe_insert:
  "fake_observe (fake_insert p b) r =
     (if r = pr_identity p then Inr p else fake_observe b r)"
  by (simp add: fake_observe_def fake_insert_def)

lemma fake_observe_remove:
  "fake_observe (fake_remove i b) r = (if r = i then Inl (Unavailable i) else fake_observe b r)"
  by (simp add: fake_observe_def fake_remove_def)

lemma fake_revoke_resources [simp]:
  "fb_resources (snd (fake_revoke b r)) = fb_resources b"
  "fb_scripted (snd (fake_revoke b r)) = fb_scripted b"
  by (simp_all add: fake_revoke_def Let_def split: sum.splits)

lemma fake_revoke_observe [simp]: "fake_observe (snd (fake_revoke b r)) = fake_observe b"
  by (rule ext) (simp add: fake_observe_def)

lemma fake_revoke_count:
  "revoke_call_count (snd (fake_revoke b r)) i =
     (if i = r then revoke_call_count b r + 1 else revoke_call_count b i)"
  by (simp add: fake_revoke_def Let_def revoke_call_count_def split: sum.splits)

lemma fake_enforce_Allowed_iff:
  "fake_enforce b q = Inr Allowed \<longleftrightarrow>
     (\<exists>p. fake_observe b (cr_resource q) = Inr p \<and> supports (pr_capabilities p) DeviceEnforce) \<and>
     map_of (fb_scripted b) (cr_resource q) \<in> {None, Some Allowed}"
  by (auto simp: fake_enforce_def split: sum.splits option.splits)

lemma fake_revoke_Allowed_iff:
  "fst (fake_revoke b r) = Inr Allowed \<longleftrightarrow>
     (\<exists>p. fake_observe b r = Inr p \<and> supports (pr_capabilities p) DeviceRevoke)"
  by (auto simp: fake_revoke_def Let_def fake_observe_def split: sum.splits option.splits)

interpretation fake: compute_backend fake_ok fake_observe "\<lambda>b q. (fake_enforce b q, b)" fake_revoke
proof unfold_locales
  fix b :: fake_backend and r q p b'
  show "fake_ok b \<Longrightarrow> fake_observe b r = Inr p \<Longrightarrow> pr_identity p = r"
    by (simp add: fake_ok_iff fake_observe_Inr)
  show "fake_ok b \<Longrightarrow> (fake_enforce b q, b) = (Inr Allowed, b') \<Longrightarrow>
      \<exists>p. fake_observe b (cr_resource q) = Inr p \<and> supports (pr_capabilities p) DeviceEnforce"
    by (auto simp: fake_enforce_Allowed_iff)
  show "fake_ok b \<Longrightarrow> fake_revoke b r = (Inr Allowed, b') \<Longrightarrow>
      \<exists>p. fake_observe b r = Inr p \<and> supports (pr_capabilities p) DeviceRevoke"
    by (metis fake_revoke_Allowed_iff fst_conv)
qed (simp_all add: fake_ok_def)

section \<open>The Apple backend\<close>

record device_snapshot =
  ds_registry_id :: u64
  ds_name :: string
  ds_has_unified_memory :: bool

definition vendor_apple :: resource_vendor where "vendor_apple = ''apple''"

definition snapshot_to_resource :: "device_snapshot \<Rightarrow> protected_resource" where
  "snapshot_to_resource snapshot =
     \<lparr>pr_identity =
        \<lparr>ri_vendor = vendor_apple, ri_kind = kind_gpu,
         ri_local_id = u64_to_string (ds_registry_id snapshot)\<rparr>,
      pr_capabilities =
        from_states
          [(DiscoverResource, Supported), (ObserveResource, Partial),
           (ObserveWorkload, Unsupported), (AttributeWorkload, Unsupported),
           (Authorize, Unsupported), (ControlledLaunch, NotEvaluated),
           (DeviceEnforce, Unsupported), (DeviceRevoke, Unsupported), (Attest, Unsupported)],
      pr_memory = (if ds_has_unified_memory snapshot then Unified else NotReportable)\<rparr>"

text \<open>The host the adapter runs on: whether it is a macOS build, and the devices Metal reports.\<close>

record apple_host =
  ah_macos :: bool
  ah_devices :: "device_snapshot list"

definition snapshot_all :: "apple_host \<Rightarrow> device_snapshot list" where
  "snapshot_all h = (if ah_macos h then ah_devices h else [])"

definition apple_discover :: "apple_host \<Rightarrow> (backend_error, protected_resource list) result" where
  "apple_discover h =
     (if ah_macos h then Inr (map snapshot_to_resource (snapshot_all h))
      else Inl (BackendUnsupported DiscoverResource))"

definition apple_observe ::
  "apple_host \<Rightarrow> resource_identity \<Rightarrow> (backend_error, protected_resource) result" where
  "apple_observe h resource =
     (if ah_macos h
      then ok_or (Unavailable resource)
             (find (\<lambda>candidate. pr_identity candidate = resource)
                (map snapshot_to_resource (snapshot_all h)))
      else Inl (BackendUnsupported ObserveResource))"

definition apple_enforce ::
  "apple_host \<Rightarrow> compute_request \<Rightarrow> (backend_error, enforcement_result) result" where
  "apple_enforce h request = Inr (EnforcementUnsupported DeviceEnforce)"

definition apple_revoke ::
  "apple_host \<Rightarrow> resource_identity \<Rightarrow> (backend_error, enforcement_result) result" where
  "apple_revoke h resource = Inr (EnforcementUnsupported DeviceRevoke)"

lemma apple_observe_Inr:
  "apple_observe h r = Inr p \<Longrightarrow> pr_identity p = r \<and> p \<in> snapshot_to_resource ` set (ah_devices h)"
  by (auto simp: apple_observe_def find_Some_iff snapshot_all_def split: if_splits
      intro: nth_mem)

interpretation apple: compute_backend "\<lambda>_. True" apple_observe
  "\<lambda>h q. (apple_enforce h q, h)" "\<lambda>h r. (apple_revoke h r, h)"
  by unfold_locales (auto simp: apple_enforce_def apple_revoke_def dest: apple_observe_Inr)

lemma supports_snapshot:
  "supports (pr_capabilities (snapshot_to_resource s)) c \<longleftrightarrow> c = DiscoverResource"
  by (cases c) (simp_all add: snapshot_to_resource_def from_states_def supports_iff)

lemma snapshot_identity_inject:
  "pr_identity (snapshot_to_resource a) = pr_identity (snapshot_to_resource b) \<longleftrightarrow>
     ds_registry_id a = ds_registry_id b"
  by (simp add: snapshot_to_resource_def)

section \<open>Histories of the fake backend\<close>

datatype fake_op =
    FakeInsert protected_resource
  | FakeRemove resource_identity
  | FakeScript resource_identity enforcement_result
  | FakeRevoke resource_identity

fun fake_step :: "fake_op \<Rightarrow> fake_backend \<Rightarrow> fake_backend" where
  "fake_step (FakeInsert p) b = fake_insert p b"
| "fake_step (FakeRemove i) b = fake_remove i b"
| "fake_step (FakeScript i r) b = script_enforcement i r b"
| "fake_step (FakeRevoke i) b = snd (fake_revoke b i)"

lemma fake_step_ok: "fake_ok b \<Longrightarrow> fake_ok (fake_step op b)"
  by (cases op) (simp_all add: fake.revoke_ok)

lemma fake_run_ok: "fake_ok b \<Longrightarrow> fake_ok (fold fake_step ops b)"
  by (induction ops arbitrary: b) (simp_all add: fake_step_ok)

lemma fake_step_count:
  "revoke_call_count (fake_step op b) i =
     revoke_call_count b i + (if op = FakeRevoke i then 1 else 0)"
  by (cases op)
     (simp_all add: fake_revoke_count, simp_all add: revoke_call_count_def fake_insert_def
        fake_remove_def script_enforcement_def)

lemma fake_run_count:
  "revoke_call_count (fold fake_step ops b) i =
     revoke_call_count b i + of_nat (length (filter (\<lambda>op. op = FakeRevoke i) ops))"
  by (induction ops arbitrary: b) (simp_all add: fake_step_count)

section \<open>Properties\<close>

text \<open>After any history of insertions, removals, scripts and revocations, the fake backend
  reports an enforcement or a revocation as allowed only for a present resource that supports the
  capability; a script chooses the outcome there and cannot mask a capability downgrade; and the
  revocation counter of a resource is the number of revocations asked for, successful or not.\<close>

theorem fake_backend_history:
  "(let b = fold fake_step ops fake_new
    in (fake_enforce b q = Inr Allowed \<longleftrightarrow>
          (\<exists>p. fake_observe b (cr_resource q) = Inr p \<and> pr_identity p = cr_resource q \<and>
               pr_capabilities p DeviceEnforce = Some Supported) \<and>
          map_of (fb_scripted b) (cr_resource q) \<in> {None, Some Allowed}) \<and>
       (fst (fake_revoke b r) = Inr Allowed \<longleftrightarrow>
          (\<exists>p. fake_observe b r = Inr p \<and> pr_identity p = r \<and>
               pr_capabilities p DeviceRevoke = Some Supported)) \<and>
       revoke_call_count b r = of_nat (length (filter (\<lambda>op. op = FakeRevoke r) ops)))"
  using fake.observe_identity [OF fake_run_ok [OF fake_ok_new, of ops]]
  by (auto simp: Let_def fake_enforce_Allowed_iff fake_revoke_Allowed_iff supports_iff fake_run_count)
     (simp_all add: revoke_call_count_def fake_new_def)

text \<open>The Apple adapter never claims control it does not have: every device it observes supports
  discovery and nothing else, two devices share an identity only when they share the registry id,
  and no enforcement or revocation is ever reported as allowed, on any build and any host.\<close>

theorem apple_never_enforces:
  "fst (apple_enforce h q, h) \<noteq> Inr Allowed \<and> fst (apple_revoke h r, h) \<noteq> Inr Allowed \<and>
   {c. \<exists>p r. apple_observe h r = Inr p \<and> supports (pr_capabilities p) c} \<subseteq> {DiscoverResource} \<and>
   (pr_identity (snapshot_to_resource a) = pr_identity (snapshot_to_resource b) \<longleftrightarrow>
      ds_registry_id a = ds_registry_id b)"
proof (intro conjI)
  have no: "\<not> supports (pr_capabilities p) c" if "apple_observe h r = Inr p" "c \<noteq> DiscoverResource"
    for r p c
    using that by (auto dest!: apple_observe_Inr simp: supports_snapshot)
  show "fst (apple_enforce h q, h) \<noteq> Inr Allowed"
    using apple.never_enforced_without_capability [of h q "[]"] no by (simp add: apple.apply_call_def)
  show "fst (apple_revoke h r, h) \<noteq> Inr Allowed"
    using apple.never_revoked_without_capability [of h r "[]"] no by (simp add: apple.apply_call_def)
  show "{c. \<exists>p r. apple_observe h r = Inr p \<and> supports (pr_capabilities p) c} \<subseteq> {DiscoverResource}"
    using no by blast
qed (rule snapshot_identity_inject)

end
