(* ===== verification/Eltanin_Authz.thy ===== *)
theory Eltanin_Authz
  imports Eltanin_Protocol Eltanin_Peer Eltanin_Backend
begin

text \<open>
  Models \<open>crates/eltanin-agent/src/authz/state.rs\<close> (the lease store), \<open>authz/event.rs\<close> (the
  internal outcome of a request), \<open>authz/mod.rs\<close> (the authorization handler) and
  \<open>handler.rs\<close> (the status-only handler). The state lock is not data: each definition below is
  what happens under one acquisition of it, or between two. A clock reading is an argument at the
  point where the code reads the clock. The backend is given by its two operations the handler
  calls. The handlers are composed here for one request at a time; the theory
  \<open>Eltanin_Authz_Concurrent\<close> interleaves the same pieces.
\<close>

section \<open>The lease store\<close>

record lease_state =
  ls_issuer :: lease_issuer
  ls_leases :: "(lease_id \<times> compute_lease) list"
  ls_max_outstanding :: nat
  ls_reserved :: nat

definition state_new :: "lease_issuer \<Rightarrow> nat \<Rightarrow> lease_state" where
  "state_new iss max_outstanding =
     \<lparr>ls_issuer = iss, ls_leases = [], ls_max_outstanding = max_outstanding, ls_reserved = 0\<rparr>"

definition prune :: "monotonic_time \<Rightarrow> lease_state \<Rightarrow> lease_state" where
  "prune now ls = ls\<lparr>ls_leases := filter (\<lambda>(_, lease). cl_expires_at lease > now) (ls_leases ls)\<rparr>"

definition is_at_capacity :: "lease_state \<Rightarrow> bool" where
  "is_at_capacity ls \<longleftrightarrow> length (ls_leases ls) + ls_reserved ls \<ge> ls_max_outstanding ls"

definition reserve :: "lease_state \<Rightarrow> lease_state" where
  "reserve ls = ls\<lparr>ls_reserved := ls_reserved ls + 1\<rparr>"

definition release_reservation :: "lease_state \<Rightarrow> lease_state" where
  "release_reservation ls = ls\<lparr>ls_reserved := ls_reserved ls - 1\<rparr>"

definition state_insert :: "compute_lease \<Rightarrow> lease_state \<Rightarrow> lease_state" where
  "state_insert lease ls =
     (let ls' = release_reservation ls
      in ls'\<lparr>ls_leases := AList.update (cl_id lease) lease (ls_leases ls')\<rparr>)"

definition state_get :: "lease_state \<Rightarrow> lease_id \<Rightarrow> compute_lease option" where
  "state_get ls lid = map_of (ls_leases ls) lid"

definition state_remove :: "lease_id \<Rightarrow> lease_state \<Rightarrow> lease_state" where
  "state_remove lid ls = ls\<lparr>ls_leases := AList.delete lid (ls_leases ls)\<rparr>"

definition lease_resource :: "compute_lease \<Rightarrow> resource_identity" where
  "lease_resource lease = cr_resource (prov_request (cl_origin lease))"

definition any_other_live_lease_for_same_resource :: "lease_state \<Rightarrow> lease_id \<Rightarrow> bool" where
  "any_other_live_lease_for_same_resource ls lid =
     (case state_get ls lid of
        None \<Rightarrow> False
      | Some released \<Rightarrow>
          list_ex (\<lambda>(other_id, other). other_id \<noteq> lid \<and> lease_resource other = lease_resource released)
            (ls_leases ls))"

section \<open>Outcomes and events\<close>

datatype operation = OpRequestLease | OpReleaseLease | OpAgentStatus

datatype authorization_outcome =
    Granted lease_id monotonic_time
  | PolicyDenied policy_decision
  | PeerNotAuthorizable
  | LeaseIssueFailed lease_error
  | EnforcementRefused enforcement_result
  | BackendFailed backend_error
  | OutCapacityExhausted nat
  | OutReleased revocation_outcome "enforcement_result option"
  | ReleaseRefused lease_validity
  | ReleaseUnknownLease
  | StatusReported

record authorization_event =
  ev_operation :: operation
  ev_request :: client_request
  ev_peer :: peer_context
  ev_outcome :: authorization_outcome
  ev_response :: agent_response

section \<open>Configuration\<close>

datatype config_error = NonPositiveLeaseTtl

record authorization_config =
  ac_lease_ttl :: duration
  ac_max_outstanding_leases :: nat

definition DEFAULT_MAX_OUTSTANDING_LEASES :: nat where
  "DEFAULT_MAX_OUTSTANDING_LEASES = 1024"

definition authorization_config_new :: "duration \<Rightarrow> (config_error, authorization_config) result" where
  "authorization_config_new lease_ttl =
     (if lease_ttl = 0 then Inl NonPositiveLeaseTtl
      else Inr \<lparr>ac_lease_ttl = lease_ttl,
                ac_max_outstanding_leases = DEFAULT_MAX_OUTSTANDING_LEASES\<rparr>)"

definition with_max_outstanding_leases :: "nat \<Rightarrow> authorization_config \<Rightarrow> authorization_config" where
  "with_max_outstanding_leases n config = config\<lparr>ac_max_outstanding_leases := n\<rparr>"

datatype policy_load_error = PolicyIo string | PolicyJson string | PolicyInvalid policy_error

text \<open>Reading the file and parsing its JSON are the two first arguments: the outside world's and the
  JSON library's answers.\<close>

definition load_policy ::
  "('path \<Rightarrow> (string, string) result) \<Rightarrow> (string \<Rightarrow> (string, policy_document versioned) result) \<Rightarrow>
     'path \<Rightarrow> (policy_load_error, policy_set) result" where
  "load_policy read_to_string from_str path =
     (case read_to_string path of
        Inl e \<Rightarrow> Inl (PolicyIo e)
      | Inr contents \<Rightarrow>
          (case from_str contents of
             Inl e \<Rightarrow> Inl (PolicyJson e)
           | Inr envelope \<Rightarrow>
               (case from_versioned envelope of
                  Inl e \<Rightarrow> Inl (PolicyInvalid e)
                | Inr policy \<Rightarrow> Inr policy)))"

fun denial_reason_for :: "decision_reason \<Rightarrow> denial_reason" where
  "denial_reason_for (ExplicitDeny _ _) = DenialExplicitDeny"
| "denial_reason_for (IndeterminateEvidence _) = DenialIndeterminateEvidence"
| "denial_reason_for NoMatchingRule = DenialNoMatchingRule"
| "denial_reason_for (ExplicitAllow _) = DenialNoMatchingRule"

section \<open>The authorization handler\<close>

text \<open>The immutable part of the handler, and the operations of its backend.\<close>

record authorization_handler =
  ah_policy :: policy_set
  ah_lease_ttl :: duration
  ah_max_outstanding_leases :: nat

record 'b backend_ops =
  bo_enforce :: "'b \<Rightarrow> compute_request \<Rightarrow> (backend_error, enforcement_result) result \<times> 'b"
  bo_revoke :: "'b \<Rightarrow> resource_identity \<Rightarrow> (backend_error, enforcement_result) result \<times> 'b"

definition handler_new ::
  "issuer_instance_id \<Rightarrow> policy_set \<Rightarrow> authorization_config \<Rightarrow> authorization_handler \<times> lease_state" where
  "handler_new inst policy config =
     (\<lparr>ah_policy = policy, ah_lease_ttl = ac_lease_ttl config,
       ah_max_outstanding_leases = ac_max_outstanding_leases config\<rparr>,
      state_new (issuer_new inst (ac_lease_ttl config)) (ac_max_outstanding_leases config))"

datatype issue_failure =
    CapacityExhausted nat
  | IssueDenied policy_decision
  | IssueOther lease_error

definition issue_reserving_capacity ::
  "authorization_handler \<Rightarrow> monotonic_time \<Rightarrow> provenance_record \<Rightarrow> lease_state \<Rightarrow>
     (issue_failure, compute_lease) result \<times> lease_state" where
  "issue_reserving_capacity h now provenance ls =
     (let ls1 = prune now ls
      in if is_at_capacity ls1
         then (Inl (CapacityExhausted (ah_max_outstanding_leases h)), ls1)
         else
           case issue (ls_issuer ls1) (ah_policy h) provenance now (ah_lease_ttl h) of
             (Inr lease, iss) \<Rightarrow> (Inr lease, reserve (ls1\<lparr>ls_issuer := iss\<rparr>))
           | (Inl (LeaseDenied decision), iss) \<Rightarrow>
               (Inl (IssueDenied decision), ls1\<lparr>ls_issuer := iss\<rparr>)
           | (Inl error, iss) \<Rightarrow> (Inl (IssueOther error), ls1\<lparr>ls_issuer := iss\<rparr>))"

definition handle_status :: "authorization_outcome \<times> agent_response" where
  "handle_status =
     (StatusReported, RespStatus \<lparr>asv_protocol_version = DOMAIN_SCHEMA_VERSION\<rparr>)"

fun issue_failure_reply :: "issue_failure \<Rightarrow> authorization_outcome \<times> agent_response" where
  "issue_failure_reply (CapacityExhausted outstanding) =
     (OutCapacityExhausted outstanding, RespError Internal)"
| "issue_failure_reply (IssueDenied decision) =
     (PolicyDenied decision, RespLeaseDenied (denial_reason_for (pd_reason decision)))"
| "issue_failure_reply (IssueOther error) = (LeaseIssueFailed error, RespError Internal)"

text \<open>The compensation of a lease whose enforcement did not succeed: revoked and its slot released
  under one lock.\<close>

definition compensate :: "lease_id \<Rightarrow> lease_state \<Rightarrow> lease_state" where
  "compensate lid ls =
     release_reservation (ls\<lparr>ls_issuer := snd (revoke (ls_issuer ls) lid)\<rparr>)"

text \<open>What follows the backend's answer; \<open>reply_now\<close> is the second clock reading.\<close>

definition finish_request ::
  "monotonic_time \<Rightarrow> compute_lease \<Rightarrow> (backend_error, enforcement_result) result \<Rightarrow> lease_state \<Rightarrow>
     (authorization_outcome \<times> agent_response) \<times> lease_state" where
  "finish_request reply_now lease result ls =
     (case result of
        Inr Allowed \<Rightarrow>
          (let expires_at = cl_expires_at lease;
               remaining = saturating_duration_since expires_at reply_now;
               lid = cl_id lease
           in if remaining = 0
              then ((LeaseIssueFailed ExpiryOverflow, RespError Internal), compensate lid ls)
              else ((Granted lid expires_at,
                     LeaseGranted \<lparr>lv_lease_id = lid, lv_remaining = remaining\<rparr>),
                    state_insert lease ls))
      | Inr refused \<Rightarrow>
          ((EnforcementRefused refused, RespError Internal), compensate (cl_id lease) ls)
      | Inl error \<Rightarrow>
          ((BackendFailed error, RespError Internal), compensate (cl_id lease) ls))"

definition handle_request_lease ::
  "authorization_handler \<Rightarrow> 'b backend_ops \<Rightarrow> monotonic_time \<Rightarrow> monotonic_time \<Rightarrow>
     lease_request \<Rightarrow> peer_context \<Rightarrow> lease_state \<times> 'b \<Rightarrow>
     (authorization_outcome \<times> agent_response) \<times> lease_state \<times> 'b" where
  "handle_request_lease h ops now reply_now request peer st =
     (case authorizable peer of
        None \<Rightarrow> ((PeerNotAuthorizable, RespLeaseDenied DenialIndeterminateEvidence), st)
      | Some observed \<Rightarrow>
          (case issue_reserving_capacity h now (provenance_for request observed) (fst st) of
             (Inl failure, ls1) \<Rightarrow> (issue_failure_reply failure, (ls1, snd st))
           | (Inr lease, ls1) \<Rightarrow>
               (let (result, b1) = bo_enforce ops (snd st) (prov_request (cl_origin lease));
                    (reply, ls2) = finish_request reply_now lease result ls1
                in (reply, (ls2, b1)))))"

text \<open>The release path is one critical section, the backend call included.\<close>

definition handle_release_lease ::
  "'b backend_ops \<Rightarrow> monotonic_time \<Rightarrow> release_request \<Rightarrow> peer_context \<Rightarrow> lease_state \<times> 'b \<Rightarrow>
     (authorization_outcome \<times> agent_response) \<times> lease_state \<times> 'b" where
  "handle_release_lease ops now request peer st =
     (case authorizable peer of
        None \<Rightarrow> ((PeerNotAuthorizable, LeaseReleased Refused), st)
      | Some observed \<Rightarrow>
          (let ls = prune now (fst st); lid = rr_lease_id request
           in case state_get ls lid of
                None \<Rightarrow> ((ReleaseUnknownLease, LeaseReleased Refused), (ls, snd st))
              | Some stored \<Rightarrow>
                  (let presented = provenance_new observed (prov_request (cl_origin stored));
                       validity = validate (ls_issuer ls) stored presented now
                   in if \<not> is_valid validity
                      then ((ReleaseRefused validity, LeaseReleased Refused), (ls, snd st))
                      else
                        let revoke_backend = \<not> any_other_live_lease_for_same_resource ls lid;
                            (revocation, iss) = revoke (ls_issuer ls) lid;
                            ls' = state_remove lid (ls\<lparr>ls_issuer := iss\<rparr>);
                            (backend_result, b') =
                              (if revoke_backend
                               then let (r, b1) = bo_revoke ops (snd st) (lease_resource stored)
                                    in (result_ok r, b1)
                               else (None, snd st))
                        in ((OutReleased revocation backend_result, LeaseReleased Released),
                            (ls', b')))))"

text \<open>The entry point: the response, the event recorded for it, and the new state.\<close>

definition handle ::
  "authorization_handler \<Rightarrow> 'b backend_ops \<Rightarrow> monotonic_time \<Rightarrow> monotonic_time \<Rightarrow>
     client_request \<Rightarrow> peer_context \<Rightarrow> lease_state \<times> 'b \<Rightarrow>
     agent_response \<times> authorization_event \<times> lease_state \<times> 'b" where
  "handle h ops now reply_now request peer st =
     (let (op, (outcome, response), st') =
        (case request of
           AgentStatus \<Rightarrow> (OpAgentStatus, handle_status, st)
         | RequestLease r \<Rightarrow>
             (let (reply, st1) = handle_request_lease h ops now reply_now r peer st
              in (OpRequestLease, reply, st1))
         | ReleaseLease r \<Rightarrow>
             (let (reply, st1) = handle_release_lease ops now r peer st
              in (OpReleaseLease, reply, st1)))
      in (response,
          \<lparr>ev_operation = op, ev_request = request, ev_peer = peer, ev_outcome = outcome,
           ev_response = response\<rparr>,
          st'))"

section \<open>The status-only handler\<close>

definition status_only_handle :: "client_request \<Rightarrow> peer_context \<Rightarrow> agent_response" where
  "status_only_handle request peer =
     (case request of
        AgentStatus \<Rightarrow> RespStatus \<lparr>asv_protocol_version = DOMAIN_SCHEMA_VERSION\<rparr>
      | _ \<Rightarrow> RespError Internal)"

section \<open>Store lemmas\<close>

lemma prune_simps [simp]:
  "ls_issuer (prune now ls) = ls_issuer ls"
  "ls_max_outstanding (prune now ls) = ls_max_outstanding ls"
  "ls_reserved (prune now ls) = ls_reserved ls"
  by (simp_all add: prune_def)

lemma reserve_simps [simp]:
  "ls_issuer (reserve ls) = ls_issuer ls" "ls_leases (reserve ls) = ls_leases ls"
  "ls_max_outstanding (reserve ls) = ls_max_outstanding ls"
  "ls_reserved (reserve ls) = Suc (ls_reserved ls)"
  by (simp_all add: reserve_def)

lemma release_reservation_simps [simp]:
  "ls_issuer (release_reservation ls) = ls_issuer ls"
  "ls_leases (release_reservation ls) = ls_leases ls"
  "ls_max_outstanding (release_reservation ls) = ls_max_outstanding ls"
  "ls_reserved (release_reservation ls) = ls_reserved ls - 1"
  by (simp_all add: release_reservation_def)

lemma state_insert_simps [simp]:
  "ls_issuer (state_insert l ls) = ls_issuer ls"
  "ls_leases (state_insert l ls) = AList.update (cl_id l) l (ls_leases ls)"
  "ls_max_outstanding (state_insert l ls) = ls_max_outstanding ls"
  "ls_reserved (state_insert l ls) = ls_reserved ls - 1"
  by (simp_all add: state_insert_def Let_def)

lemma state_remove_simps [simp]:
  "ls_issuer (state_remove lid ls) = ls_issuer ls"
  "ls_leases (state_remove lid ls) = AList.delete lid (ls_leases ls)"
  "ls_max_outstanding (state_remove lid ls) = ls_max_outstanding ls"
  "ls_reserved (state_remove lid ls) = ls_reserved ls"
  by (simp_all add: state_remove_def)

lemma compensate_simps [simp]:
  "ls_issuer (compensate lid ls) = snd (revoke (ls_issuer ls) lid)"
  "ls_leases (compensate lid ls) = ls_leases ls"
  "ls_max_outstanding (compensate lid ls) = ls_max_outstanding ls"
  "ls_reserved (compensate lid ls) = ls_reserved ls - 1"
  by (simp_all add: compensate_def)

lemma length_prune_le: "length (ls_leases (prune now ls)) \<le> length (ls_leases ls)"
  by (simp add: prune_def)

lemma state_get_prune:
  "keys_distinct (ls_leases ls) \<Longrightarrow>
     state_get (prune now ls) lid = Some l \<longleftrightarrow> state_get ls lid = Some l \<and> now < cl_expires_at l"
  by (simp add: state_get_def prune_def map_of_filter_Some)

lemma any_other_iff:
  "any_other_live_lease_for_same_resource ls lid \<longleftrightarrow>
     (\<exists>l. state_get ls lid = Some l \<and>
        (\<exists>(i, o')\<in>set (ls_leases ls). i \<noteq> lid \<and> lease_resource o' = lease_resource l))"
  by (auto simp: any_other_live_lease_for_same_resource_def list_ex_iff split: option.splits)

section \<open>The store invariant\<close>

text \<open>Every stored lease is stored once, under its own id, was issued by this instance and is not
  revoked; no sequence number beyond the counter is revoked; leases and reservations together stay
  within the bound.\<close>

definition lease_stored_ok :: "lease_issuer \<Rightarrow> lease_id \<Rightarrow> compute_lease \<Rightarrow> bool" where
  "lease_stored_ok iss lid l \<longleftrightarrow>
     cl_id l = lid \<and> lid_issuer lid = li_instance iss \<and>
     lid_sequence lid < li_next_sequence iss \<and> lid_sequence lid \<notin> li_revoked iss"

definition state_ok :: "lease_state \<Rightarrow> bool" where
  "state_ok ls \<longleftrightarrow>
     keys_distinct (ls_leases ls) \<and> issuer_ok (ls_issuer ls) \<and>
     (\<forall>(lid, l)\<in>set (ls_leases ls). lease_stored_ok (ls_issuer ls) lid l) \<and>
     length (ls_leases ls) + ls_reserved ls \<le> ls_max_outstanding ls"

lemma state_ok_new [simp]: "state_ok (state_new (issuer_new inst ttl) n)"
  by (simp add: state_ok_def state_new_def)

lemma state_ok_keys: "state_ok ls \<Longrightarrow> keys_distinct (ls_leases ls)"
  by (simp add: state_ok_def)

lemma state_ok_issuer: "state_ok ls \<Longrightarrow> issuer_ok (ls_issuer ls)"
  by (simp add: state_ok_def)

lemma state_ok_get:
  "state_ok ls \<Longrightarrow> state_get ls lid = Some l \<Longrightarrow> lease_stored_ok (ls_issuer ls) lid l"
  by (auto simp: state_ok_def state_get_def dest: map_of_SomeD)

lemma state_ok_prune [simp]: "state_ok ls \<Longrightarrow> state_ok (prune now ls)"
  by (auto simp: state_ok_def prune_def intro: order_trans [OF add_right_mono [OF length_filter_le]])

text \<open>A lease whose slot is reserved and that is not stored: the state between issue and finish.\<close>

definition lease_pending :: "compute_lease \<Rightarrow> lease_state \<Rightarrow> bool" where
  "lease_pending l ls \<longleftrightarrow>
     0 < ls_reserved ls \<and> lease_stored_ok (ls_issuer ls) (cl_id l) l \<and>
     state_get ls (cl_id l) = None"

lemma lease_stored_ok_revoke:
  "lease_stored_ok (snd (revoke iss lid)) lid' l \<longleftrightarrow>
     lease_stored_ok iss lid' l \<and> \<not> (fst (revoke iss lid) = Revoked \<and> lid' = lid)"
  by (cases lid; cases lid') (auto simp: lease_stored_ok_def revoke_def)

lemma lease_stored_ok_next:
  "unat (li_next_sequence iss) < 2 ^ 64 - 1 \<Longrightarrow> lease_stored_ok iss lid l \<Longrightarrow>
     lease_stored_ok (iss\<lparr>li_next_sequence := li_next_sequence iss + 1\<rparr>) lid l"
  by (simp add: lease_stored_ok_def u64_less_Suc)

lemma state_ok_compensate:
  assumes "state_ok ls" and "state_get ls lid = None"
  shows "state_ok (compensate lid ls)"
proof -
  have "lid \<notin> fst ` set (ls_leases ls)"
    using assms(2) by (simp add: state_get_def map_of_eq_None_iff)
  then have "\<forall>(k, l)\<in>set (ls_leases ls). k \<noteq> lid" by force
  then show ?thesis
    using assms(1) by (auto simp: state_ok_def lease_stored_ok_revoke split: prod.splits)
qed

lemma set_update_subset:
  "set (AList.update k v m) \<subseteq> insert (k, v) (set m)"
  by (induction m) auto

lemma state_ok_insert:
  assumes "state_ok ls" and "lease_pending l ls"
  shows "state_ok (state_insert l ls)"
  using assms set_update_subset [of "cl_id l" l "ls_leases ls"]
  by (auto simp: state_ok_def lease_pending_def state_get_def length_alist_update)

lemma state_ok_remove_revoke:
  assumes "state_ok ls"
  shows "state_ok (state_remove lid (ls\<lparr>ls_issuer := snd (revoke (ls_issuer ls) lid)\<rparr>))"
proof -
  have "(k, l) \<in> set (AList.delete lid (ls_leases ls)) \<longleftrightarrow> (k, l) \<in> set (ls_leases ls) \<and> k \<noteq> lid"
    for k l by (auto simp: AList.delete_eq)
  then show ?thesis
    using assms length_alist_delete_le [of lid "ls_leases ls"]
    by (auto simp: state_ok_def lease_stored_ok_revoke issuer_ok_revoke)
qed

section \<open>Characteristic equations of the handlers\<close>

lemma update_issuer_same [simp]: "ls\<lparr>ls_issuer := ls_issuer ls\<rparr> = ls"
  by simp

lemma issue_cap_Inr:
  "issue_reserving_capacity h now prov ls = (Inr l, ls1) \<longleftrightarrow>
     \<not> is_at_capacity (prune now ls) \<and>
     (\<exists>iss. issue (ls_issuer ls) (ah_policy h) prov now (ah_lease_ttl h) = (Inr l, iss) \<and>
        ls1 = reserve ((prune now ls)\<lparr>ls_issuer := iss\<rparr>))"
  by (auto simp: issue_reserving_capacity_def Let_def split: prod.splits sum.splits lease_error.splits)

lemma issue_cap_Inl_state:
  assumes "issue_reserving_capacity h now prov ls = (Inl f, ls1)"
  shows "ls1 = prune now ls"
proof -
  have "snd (issue iss policy origin t ttl) = iss" if "fst (issue iss policy origin t ttl) = Inl e"
    for iss policy origin t ttl e
    using that by (simp add: issue_def Let_def split: if_splits option.splits)
  then have "iss' = ls_issuer ls"
    if "issue (ls_issuer ls) (ah_policy h) prov now (ah_lease_ttl h) = (Inl e, iss')" for e iss'
    using that by (metis fst_conv snd_conv)
  then show ?thesis
    using assms
    by (auto simp: issue_reserving_capacity_def Let_def
        split: if_splits prod.splits sum.splits lease_error.splits)
qed

lemma issue_cap_cases:
  obtains (fail) f where "issue_reserving_capacity h now prov ls = (Inl f, prune now ls)"
  | (issued) l where "issue_reserving_capacity h now prov ls =
      (Inr l, reserve ((prune now ls)\<lparr>ls_issuer :=
         (ls_issuer ls)\<lparr>li_next_sequence := li_next_sequence (ls_issuer ls) + 1\<rparr>\<rparr>))"
proof (cases "issue_reserving_capacity h now prov ls")
  case (Pair r ls1)
  then show ?thesis
    using fail issued by (cases r) (auto simp: issue_cap_Inr issue_Inr_iff dest: issue_cap_Inl_state)
qed

lemma issue_cap_Denied:
  "issue_reserving_capacity h now prov ls = (Inl (IssueDenied d), ls1) \<longleftrightarrow>
     \<not> is_at_capacity (prune now ls) \<and> 0 < ah_lease_ttl h \<and>
     ah_lease_ttl h \<le> li_max_ttl (ls_issuer ls) \<and>
     d = policy_evaluate (ah_policy h) (prov_context prov) (prov_request prov) \<and>
     pd_effect d = Deny \<and> ls1 = prune now ls" (is "?L \<longleftrightarrow> ?R")
proof
  assume L: ?L
  then have "ls1 = prune now ls" by (rule issue_cap_Inl_state)
  moreover have "\<not> is_at_capacity (prune now ls) \<and>
      fst (issue (ls_issuer ls) (ah_policy h) prov now (ah_lease_ttl h)) = Inl (LeaseDenied d)"
    using L by (auto simp: issue_reserving_capacity_def Let_def
        split: if_splits prod.splits sum.splits lease_error.splits)
  ultimately show ?R
    by (cases "pd_effect d")
       (auto simp: issue_def Let_def split: if_splits option.splits)
next
  assume R: ?R
  then have "issue (ls_issuer ls) (ah_policy h) prov now (ah_lease_ttl h) =
      (Inl (LeaseDenied d), ls_issuer ls)"
    by (auto simp: issue_def Let_def)
  then show ?L
    using R by (simp add: issue_reserving_capacity_def)
qed

lemma finish_request_simps:
  "finish_request reply_now l (Inr Allowed) ls =
     (if reply_now < cl_expires_at l
      then ((Granted (cl_id l) (cl_expires_at l),
             LeaseGranted \<lparr>lv_lease_id = cl_id l,
                lv_remaining = unat (cl_expires_at l) - unat reply_now\<rparr>), state_insert l ls)
      else ((LeaseIssueFailed ExpiryOverflow, RespError Internal), compensate (cl_id l) ls))"
  "r \<noteq> Inr Allowed \<Longrightarrow>
     snd (finish_request reply_now l r ls) = compensate (cl_id l) ls \<and>
     snd (fst (finish_request reply_now l r ls)) = RespError Internal"
  by (auto simp: finish_request_def Let_def saturating_duration_since_eq word_less_nat_alt
      split: sum.splits enforcement_result.splits)

lemma finish_request_cases:
  "snd (fst (finish_request reply_now l r ls)) = LeaseGranted v \<longleftrightarrow>
     r = Inr Allowed \<and> reply_now < cl_expires_at l \<and>
     v = \<lparr>lv_lease_id = cl_id l, lv_remaining = unat (cl_expires_at l) - unat reply_now\<rparr>"
  "snd (finish_request reply_now l r ls) =
     (if r = Inr Allowed \<and> reply_now < cl_expires_at l then state_insert l ls
      else compensate (cl_id l) ls)"
  by (cases "r = Inr Allowed"; auto simp: finish_request_simps)+

lemma finish_request_no_denial:
  "snd (fst (finish_request reply_now l r ls)) \<noteq> RespLeaseDenied d"
  by (cases "r = Inr Allowed") (auto simp: finish_request_simps)

section \<open>Preservation\<close>

definition counter_room :: "lease_state \<Rightarrow> nat \<Rightarrow> bool" where
  "counter_room ls n \<longleftrightarrow> unat (li_next_sequence (ls_issuer ls)) + n < 2 ^ 64"

lemma issue_cap_pending:
  assumes "state_ok ls" and "counter_room ls 1"
    and "issue_reserving_capacity h now prov ls = (Inr l, ls1)"
  shows "state_ok ls1 \<and> lease_pending l ls1 \<and> ls_reserved ls1 = Suc (ls_reserved ls) \<and>
    ls_leases ls1 = ls_leases (prune now ls) \<and> ls_max_outstanding ls1 = ls_max_outstanding ls"
proof -
  let ?iss = "ls_issuer ls"
  from assms(3) obtain iss where cap: "\<not> is_at_capacity (prune now ls)"
    and l: "issue ?iss (ah_policy h) prov now (ah_lease_ttl h) = (Inr l, iss)"
    and ls1: "ls1 = reserve ((prune now ls)\<lparr>ls_issuer := iss\<rparr>)"
    by (auto simp: issue_cap_Inr)
  have room: "unat (li_next_sequence ?iss) < 2 ^ 64 - 1"
    using assms(2) by (simp add: counter_room_def)
  have iss: "iss = ?iss\<lparr>li_next_sequence := li_next_sequence ?iss + 1\<rparr>"
    and lid: "cl_id l = \<lparr>lid_issuer = li_instance ?iss, lid_sequence = li_next_sequence ?iss\<rparr>"
    using l by (auto simp: issue_Inr_iff)
  have pruned: "state_ok (prune now ls)" using assms(1) by simp
  have "state_ok ls1"
    using pruned cap issuer_ok_issue [OF state_ok_issuer [OF assms(1)] room, of "ah_policy h" prov now "ah_lease_ttl h"] l
    by (auto simp: ls1 state_ok_def is_at_capacity_def iss intro!: lease_stored_ok_next [OF room])
  moreover have "lease_stored_ok iss (cl_id l) l"
    using room state_ok_issuer [OF assms(1)]
    by (auto simp: lease_stored_ok_def lid iss issuer_ok_def word_less_nat_alt unat_u64_Suc)
  moreover have "state_get (prune now ls) (cl_id l) = None"
  proof (rule ccontr)
    assume "state_get (prune now ls) (cl_id l) \<noteq> None"
    then obtain a where "state_get (prune now ls) (cl_id l) = Some a" by blast
    from state_ok_get [OF pruned this] show False
      by (simp add: lease_stored_ok_def lid)
  qed
  ultimately show ?thesis
    by (simp add: ls1 lease_pending_def state_get_def)
qed

lemma finish_request_ok:
  assumes "state_ok ls" and "lease_pending l ls"
  shows "state_ok (snd (finish_request reply_now l r ls)) \<and>
    ls_reserved (snd (finish_request reply_now l r ls)) = ls_reserved ls - 1 \<and>
    ls_max_outstanding (snd (finish_request reply_now l r ls)) = ls_max_outstanding ls"
  using state_ok_insert [OF assms] state_ok_compensate [OF assms(1), of "cl_id l"] assms(2)
  by (simp add: finish_request_cases lease_pending_def)

lemma finish_request_counter [simp]:
  "li_next_sequence (ls_issuer (snd (finish_request reply_now l r ls))) = li_next_sequence (ls_issuer ls)"
  "li_instance (ls_issuer (snd (finish_request reply_now l r ls))) = li_instance (ls_issuer ls)"
  "li_max_ttl (ls_issuer (snd (finish_request reply_now l r ls))) = li_max_ttl (ls_issuer ls)"
  by (simp_all add: finish_request_cases)

lemma issue_cap_counter:
  "li_instance (ls_issuer (snd (issue_reserving_capacity h now prov ls))) = li_instance (ls_issuer ls)"
  "li_max_ttl (ls_issuer (snd (issue_reserving_capacity h now prov ls))) = li_max_ttl (ls_issuer ls)"
  by (rule issue_cap_cases [of h now prov ls]; simp)+

lemma issue_cap_next:
  "counter_room ls (Suc n) \<Longrightarrow> counter_room (snd (issue_reserving_capacity h now prov ls)) n"
  by (rule issue_cap_cases [of h now prov ls]) (simp_all add: counter_room_def unat_u64_Suc)

lemma handle_request_lease_ok:
  assumes "state_ok (fst st)" and "counter_room (fst st) (Suc n)"
  shows "state_ok (fst (snd (handle_request_lease h ops now reply_now rq peer st))) \<and>
    ls_reserved (fst (snd (handle_request_lease h ops now reply_now rq peer st))) = ls_reserved (fst st) \<and>
    counter_room (fst (snd (handle_request_lease h ops now reply_now rq peer st))) n"
proof (cases "authorizable peer")
  case None
  then show ?thesis
    using assms by (simp add: handle_request_lease_def counter_room_def)
next
  case (Some obs)
  let ?r = "issue_reserving_capacity h now (provenance_for rq obs) (fst st)"
  have room: "counter_room (snd ?r) n"
    by (rule issue_cap_next [OF assms(2)])
  show ?thesis
  proof (rule issue_cap_cases [of h now "provenance_for rq obs" "fst st"])
    fix f assume r: "?r = (Inl f, prune now (fst st))"
    then show ?thesis
      using assms room by (simp add: handle_request_lease_def Some)
  next
    fix l assume r: "?r = (Inr l, reserve ((prune now (fst st))\<lparr>ls_issuer :=
      (ls_issuer (fst st))\<lparr>li_next_sequence := li_next_sequence (ls_issuer (fst st)) + 1\<rparr>\<rparr>))"
      (is "_ = (_, ?ls1)")
    have "counter_room (fst st) 1" using assms(2) by (simp add: counter_room_def)
    from issue_cap_pending [OF assms(1) this r] have "state_ok ?ls1" "lease_pending l ?ls1"
      "ls_reserved ?ls1 = Suc (ls_reserved (fst st))" by auto
    with room finish_request_ok [of ?ls1 l] show ?thesis
      by (simp add: handle_request_lease_def Some r Let_def split_beta counter_room_def)
  qed
qed

lemma handle_release_lease_ok:
  assumes "state_ok (fst st)"
  shows "state_ok (fst (snd (handle_release_lease ops now rq peer st))) \<and>
    ls_reserved (fst (snd (handle_release_lease ops now rq peer st))) = ls_reserved (fst st) \<and>
    li_next_sequence (ls_issuer (fst (snd (handle_release_lease ops now rq peer st)))) =
      li_next_sequence (ls_issuer (fst st))"
  using assms state_ok_remove_revoke [of "prune now (fst st)" "rr_lease_id rq"]
  by (simp add: handle_release_lease_def Let_def split_beta split: option.splits)

lemma handle_state:
  "snd (snd (handle h ops now reply_now request peer st)) =
     (case request of
        AgentStatus \<Rightarrow> st
      | RequestLease r \<Rightarrow> snd (handle_request_lease h ops now reply_now r peer st)
      | ReleaseLease r \<Rightarrow> snd (handle_release_lease ops now r peer st))"
  by (simp add: handle_def Let_def split_beta split: client_request.splits)

lemma handle_response:
  "fst (handle h ops now reply_now request peer st) =
     (case request of
        AgentStatus \<Rightarrow> RespStatus \<lparr>asv_protocol_version = DOMAIN_SCHEMA_VERSION\<rparr>
      | RequestLease r \<Rightarrow> snd (fst (handle_request_lease h ops now reply_now r peer st))
      | ReleaseLease r \<Rightarrow> snd (fst (handle_release_lease ops now r peer st)))"
  by (simp add: handle_def handle_status_def Let_def split_beta split: client_request.splits)

lemma handle_ok:
  assumes "state_ok (fst st)" and "counter_room (fst st) (Suc n)"
  shows "state_ok (fst (snd (snd (handle h ops now reply_now request peer st)))) \<and>
    ls_reserved (fst (snd (snd (handle h ops now reply_now request peer st)))) = ls_reserved (fst st) \<and>
    counter_room (fst (snd (snd (handle h ops now reply_now request peer st)))) n"
  using assms handle_request_lease_ok [OF assms] handle_release_lease_ok [OF assms(1)]
  by (cases request) (auto simp: handle_state counter_room_def)

section \<open>Leases are justified\<close>

definition lease_justified :: "authorization_handler \<Rightarrow> compute_lease \<Rightarrow> bool" where
  "lease_justified h l \<longleftrightarrow>
     (let d = policy_evaluate (ah_policy h) (prov_context (cl_origin l)) (prov_request (cl_origin l))
      in pd_effect d = Allow \<and> cl_decision_reason l = pd_reason d \<and>
         cl_policy l = policy_provenance_of (ah_policy h) \<and>
         unat (cl_expires_at l) = unat (cl_issued_at l) + ah_lease_ttl h)"

lemma issue_cap_justified:
  "issue_reserving_capacity h now prov ls = (Inr l, ls1) \<Longrightarrow> lease_justified h l"
  by (auto simp: issue_cap_Inr issue_Inr_iff lease_justified_def Let_def time_checked_add_Some)

lemma handle_request_lease_leases:
  "(k, l) \<in> set (ls_leases (fst (snd (handle_request_lease h ops now reply_now rq peer st)))) \<Longrightarrow>
     (k, l) \<in> set (ls_leases (fst st)) \<or> lease_justified h l"
proof (cases "authorizable peer")
  case (Some obs)
  assume "(k, l) \<in> set (ls_leases (fst (snd (handle_request_lease h ops now reply_now rq peer st))))"
  then show ?thesis
    by (cases rule: issue_cap_cases [of h now "provenance_for rq obs" "fst st"])
       (auto simp: handle_request_lease_def Some Let_def split_beta finish_request_cases prune_def
          dest!: issue_cap_justified set_update_subset [THEN subsetD] split: if_splits)
qed (simp add: handle_request_lease_def)

lemma handle_release_lease_leases:
  "(k, l) \<in> set (ls_leases (fst (snd (handle_release_lease ops now rq peer st)))) \<Longrightarrow>
     (k, l) \<in> set (ls_leases (fst st))"
  by (auto simp: handle_release_lease_def Let_def split_beta prune_def AList.delete_eq
      split: option.splits if_splits)

lemma handle_leases:
  "(k, l) \<in> set (ls_leases (fst (snd (snd (handle h ops now reply_now request peer st))))) \<Longrightarrow>
     (k, l) \<in> set (ls_leases (fst st)) \<or> lease_justified h l"
  by (cases request)
     (auto simp: handle_state dest: handle_request_lease_leases handle_release_lease_leases)

section \<open>Who may release\<close>

text \<open>The presented context comes from the process, running the executable, that the live lease was
  issued to.\<close>

definition holder_may_release ::
  "lease_state \<Rightarrow> monotonic_time \<Rightarrow> lease_id \<Rightarrow> peer_context \<Rightarrow> bool" where
  "holder_may_release ls now lid peer \<longleftrightarrow>
     (case (authorizable peer, state_get ls lid) of
        (Some obs, Some l) \<Rightarrow>
          now < cl_expires_at l \<and>
          compare_process (ec_workload (prov_context (cl_origin l))) (ec_workload obs) = Same \<and>
          compare_executable (ec_workload (prov_context (cl_origin l))) (ec_workload obs) = Same
      | _ \<Rightarrow> False)"

definition removed_and_revoked :: "lease_id \<Rightarrow> lease_state \<Rightarrow> lease_state" where
  "removed_and_revoked lid ls =
     ls\<lparr>ls_issuer := (ls_issuer ls)\<lparr>li_revoked := insert (lid_sequence lid) (li_revoked (ls_issuer ls))\<rparr>,
       ls_leases := AList.delete lid (ls_leases ls)\<rparr>"

text \<open>Another unexpired lease names the same resource.\<close>

definition shared_resource :: "lease_state \<Rightarrow> monotonic_time \<Rightarrow> lease_id \<Rightarrow> bool" where
  "shared_resource ls now lid \<longleftrightarrow>
     (\<exists>l l' lid'. state_get ls lid = Some l \<and> state_get ls lid' = Some l' \<and> lid' \<noteq> lid \<and>
        now < cl_expires_at l' \<and> lease_resource l' = lease_resource l)"

lemma any_other_shared:
  assumes "state_ok ls" and "state_get (prune now ls) lid = Some l"
  shows "any_other_live_lease_for_same_resource (prune now ls) lid \<longleftrightarrow> shared_resource ls now lid"
proof -
  have kd: "keys_distinct (ls_leases ls)" "keys_distinct (ls_leases (prune now ls))"
    using assms(1) state_ok_keys state_ok_prune by blast+
  have "(i, o') \<in> set (ls_leases (prune now ls)) \<longleftrightarrow>
      state_get ls i = Some o' \<and> now < cl_expires_at o'" for i o'
    using state_get_prune [OF kd(1), of now i o'] kd(2) by (simp add: state_get_def map_of_iff_mem)
  then show ?thesis
    using assms(2) state_get_prune [OF kd(1)] by (auto simp: any_other_iff shared_resource_def)
qed

lemma release_valid:
  assumes "state_ok ls" and "state_get (prune now ls) lid = Some l"
  shows "is_valid (validate (ls_issuer ls) l (provenance_new obs (prov_request (cl_origin l))) now) \<longleftrightarrow>
    compare_process (ec_workload (prov_context (cl_origin l))) (ec_workload obs) = Same \<and>
    compare_executable (ec_workload (prov_context (cl_origin l))) (ec_workload obs) = Same"
proof -
  have l: "state_get ls lid = Some l" "now < cl_expires_at l"
    using assms by (simp_all add: state_get_prune state_ok_keys)
  then show ?thesis
    using state_ok_get [OF assms(1) l(1)] by (auto simp: is_valid_iff validate_Valid_iff lease_stored_ok_def)
qed

lemma revoke_stored:
  assumes "state_ok ls" and "state_get (prune now ls) lid = Some l"
  shows "revoke (ls_issuer ls) lid =
    (Revoked, (ls_issuer ls)\<lparr>li_revoked := insert (lid_sequence lid) (li_revoked (ls_issuer ls))\<rparr>)"
proof -
  have "state_get ls lid = Some l"
    using assms by (simp add: state_get_prune state_ok_keys)
  from state_ok_get [OF assms(1) this] show ?thesis
    by (simp add: revoke_def lease_stored_ok_def not_le)
qed

lemma release_equation:
  assumes "state_ok ls"
  shows "handle_release_lease ops now \<lparr>rr_lease_id = lid\<rparr> peer (ls, b) =
    (if holder_may_release ls now lid peer then
       (let l = the (state_get ls lid);
            (r, b') = (if shared_resource ls now lid then (None, b)
                       else map_prod result_ok id (bo_revoke ops b (lease_resource l)))
        in ((OutReleased Revoked r, LeaseReleased Released),
            (removed_and_revoked lid (prune now ls), b')))
     else
       (case authorizable peer of
          None \<Rightarrow> ((PeerNotAuthorizable, LeaseReleased Refused), (ls, b))
        | Some obs \<Rightarrow>
            (case state_get (prune now ls) lid of
               None \<Rightarrow> ((ReleaseUnknownLease, LeaseReleased Refused), (prune now ls, b))
             | Some l \<Rightarrow>
                 ((ReleaseRefused
                     (validate (ls_issuer ls) l (provenance_new obs (prov_request (cl_origin l))) now),
                   LeaseReleased Refused), (prune now ls, b)))))"
proof (cases "authorizable peer")
  case None
  then show ?thesis
    by (simp add: handle_release_lease_def holder_may_release_def)
next
  case (Some obs)
  note peer = Some
  have kd: "keys_distinct (ls_leases ls)" using assms by (rule state_ok_keys)
  show ?thesis
  proof (cases "state_get (prune now ls) lid")
    case None
    then have "\<not> holder_may_release ls now lid peer"
      using state_get_prune [OF kd, of now lid] by (auto simp: holder_may_release_def split: option.splits)
    then show ?thesis
      by (simp add: handle_release_lease_def peer None)
  next
    case (Some l)
    then have l: "state_get ls lid = Some l" "now < cl_expires_at l"
      by (simp_all add: state_get_prune [OF kd])
    show ?thesis
      using any_other_shared [OF assms Some] release_valid [OF assms Some, of obs]
        revoke_stored [OF assms Some]
      by (simp add: handle_release_lease_def peer Some l holder_may_release_def Let_def
          removed_and_revoked_def state_remove_def split_beta map_prod_def)
  qed
qed

section \<open>Histories\<close>

type_synonym agent_call = "monotonic_time \<times> monotonic_time \<times> client_request \<times> peer_context"

definition agent_step ::
  "authorization_handler \<Rightarrow> 'b backend_ops \<Rightarrow> agent_call \<Rightarrow> lease_state \<times> 'b \<Rightarrow> lease_state \<times> 'b" where
  "agent_step h ops c st =
     (case c of (now, reply_now, request, peer) \<Rightarrow>
        snd (snd (handle h ops now reply_now request peer st)))"

lemma agent_history_ok:
  assumes "state_ok (fst st)" and "counter_room (fst st) (length calls)"
  shows "state_ok (fst (fold (agent_step h ops) calls st)) \<and>
    ls_reserved (fst (fold (agent_step h ops) calls st)) = ls_reserved (fst st)"
  using assms
proof (induction calls arbitrary: st)
  case (Cons c calls)
  obtain now reply_now request peer where c: "c = (now, reply_now, request, peer)"
    by (cases c)
  have "state_ok (fst (agent_step h ops c st)) \<and>
      ls_reserved (fst (agent_step h ops c st)) = ls_reserved (fst st) \<and>
      counter_room (fst (agent_step h ops c st)) (length calls)"
    using handle_ok [OF Cons.prems(1), of "length calls"] Cons.prems(2)
    by (simp add: agent_step_def c)
  then show ?case
    using Cons.IH [of "agent_step h ops c st"] by simp
qed simp

lemma agent_history_justified:
  assumes "\<forall>(k, l)\<in>set (ls_leases (fst st)). lease_justified h l"
  shows "\<forall>(k, l)\<in>set (ls_leases (fst (fold (agent_step h ops) calls st))). lease_justified h l"
  using assms
proof (induction calls arbitrary: st)
  case (Cons c calls)
  have "\<forall>(k, l)\<in>set (ls_leases (fst (agent_step h ops c st))). lease_justified h l"
    using Cons.prems by (auto simp: agent_step_def split_beta dest!: handle_leases)
  then show ?case
    using Cons.IH [of "agent_step h ops c st"] by simp
qed simp

lemma handler_new_state:
  "handler_new inst policy config = (h, ls) \<Longrightarrow>
     state_ok ls \<and> ls_leases ls = [] \<and> ls_reserved ls = 0 \<and>
     ls_max_outstanding ls = ac_max_outstanding_leases config \<and>
     li_next_sequence (ls_issuer ls) = 0 \<and> li_instance (ls_issuer ls) = inst \<and>
     ah_policy h = policy \<and> ah_lease_ttl h = ac_lease_ttl config \<and>
     li_max_ttl (ls_issuer ls) = ac_lease_ttl config"
  by (auto simp: handler_new_def) (simp_all add: state_new_def issuer_new_def)

lemma finish_max [simp]:
  "ls_max_outstanding (snd (finish_request reply_now l r ls)) = ls_max_outstanding ls"
  by (simp add: finish_request_cases)

lemma agent_step_max: "ls_max_outstanding (fst (agent_step h ops c st)) = ls_max_outstanding (fst st)"
proof -
  obtain now reply_now request peer where c: "c = (now, reply_now, request, peer)"
    by (cases c)
  have "ls_max_outstanding (fst (snd (handle_request_lease h ops now reply_now rq peer st))) =
      ls_max_outstanding (fst st)" for rq
  proof (cases "authorizable peer")
    case (Some obs)
    show ?thesis
      by (rule issue_cap_cases [of h now "provenance_for rq obs" "fst st"])
         (simp_all add: handle_request_lease_def Some Let_def split_beta)
  qed (simp add: handle_request_lease_def)
  moreover have "ls_max_outstanding (fst (snd (handle_release_lease ops now rq peer st))) =
      ls_max_outstanding (fst st)" for rq
    by (simp add: handle_release_lease_def Let_def split_beta split: option.splits)
  ultimately show ?thesis
    by (simp add: c agent_step_def handle_state split: client_request.splits)
qed

lemma agent_history_max:
  "ls_max_outstanding (fst (fold (agent_step h ops) calls st)) = ls_max_outstanding (fst st)"
  by (induction calls arbitrary: st) (simp_all add: agent_step_max)

section \<open>The backend contract, as the handler relies on it\<close>

context compute_backend begin

lemma grant_is_enforced:
  assumes "backend_ok b"
    and "snd (fst (handle_request_lease h \<lparr>bo_enforce = enforce, bo_revoke = revoke\<rparr>
           now reply_now rq peer (ls, b))) = LeaseGranted v"
  shows "\<exists>p. observe b (lr_resource rq) = Inr p \<and> supports (pr_capabilities p) DeviceEnforce"
proof (cases "authorizable peer")
  case None
  then show ?thesis using assms(2) by (simp add: handle_request_lease_def)
next
  case (Some obs)
  show ?thesis
  proof (cases rule: issue_cap_cases [of h now "provenance_for rq obs" ls])
    case (fail f)
    then show ?thesis
      using assms(2) by (cases f) (simp_all add: handle_request_lease_def Some)
  next
    case (issued l)
    then have origin: "cl_origin l = provenance_for rq obs"
      by (auto simp: issue_cap_Inr issue_Inr_iff)
    obtain r b' where e: "enforce b (prov_request (cl_origin l)) = (r, b')"
      by (cases "enforce b (prov_request (cl_origin l))")
    then have "r = Inr Allowed"
      using assms(2) issued by (simp add: handle_request_lease_def Some Let_def split_beta finish_request_cases)
    then show ?thesis
      using enforce_capable [OF assms(1), of "prov_request (cl_origin l)" b'] e
      by (simp add: origin provenance_for_def)
  qed
qed

lemma handler_keeps_backend:
  assumes "backend_ok (snd st)"
  shows "backend_ok (snd (agent_step h \<lparr>bo_enforce = enforce, bo_revoke = revoke\<rparr> c st)) \<and>
    observe (snd (agent_step h \<lparr>bo_enforce = enforce, bo_revoke = revoke\<rparr> c st)) = observe (snd st)"
  using assms enforce_ok revoke_ok enforce_observe revoke_observe
  by (simp add: agent_step_def handle_state handle_request_lease_def handle_release_lease_def Let_def
      split_beta split: prod.splits client_request.splits option.splits sum.splits)

lemma history_keeps_backend:
  assumes "backend_ok (snd st)"
  shows "backend_ok (snd (fold (agent_step h \<lparr>bo_enforce = enforce, bo_revoke = revoke\<rparr>) calls st)) \<and>
    observe (snd (fold (agent_step h \<lparr>bo_enforce = enforce, bo_revoke = revoke\<rparr>) calls st)) =
      observe (snd st)"
  using assms
proof (induction calls arbitrary: st)
  case (Cons c calls)
  then show ?case
    using handler_keeps_backend [of st h c] by simp
qed simp

lemma grant_in_history_is_enforced:
  assumes "backend_ok (snd st)"
    and "fold (agent_step h \<lparr>bo_enforce = enforce, bo_revoke = revoke\<rparr>) calls st = (ls, b)"
    and "fst (handle h \<lparr>bo_enforce = enforce, bo_revoke = revoke\<rparr> now reply_now (RequestLease rq) peer
           (ls, b)) = LeaseGranted v"
  shows "\<exists>p. observe (snd st) (lr_resource rq) = Inr p \<and> supports (pr_capabilities p) DeviceEnforce"
proof -
  have "backend_ok b" "observe b = observe (snd st)"
    using history_keeps_backend [OF assms(1), of h calls] assms(2) by simp_all
  then show ?thesis
    using grant_is_enforced [of b h now reply_now rq peer ls v] assms(3) by (simp add: handle_response)
qed

end

text \<open>The operations of the two backends as the handler holds them.\<close>

definition fake_ops :: "fake_backend backend_ops" where
  "fake_ops = \<lparr>bo_enforce = (\<lambda>b q. (fake_enforce b q, b)), bo_revoke = fake_revoke\<rparr>"

definition apple_ops :: "apple_host backend_ops" where
  "apple_ops = \<lparr>bo_enforce = (\<lambda>h q. (apple_enforce h q, h)), bo_revoke = (\<lambda>h r. (apple_revoke h r, h))\<rparr>"

section \<open>Concrete inputs\<close>

definition demo_peer :: peer_context where
  "demo_peer = from_kernel_observation (from_kernel 42 1000 1000) demo_context
     (Present 1000 KernelObserved) (Present 1000 KernelObserved)"

definition demo_handler :: authorization_handler where
  "demo_handler = \<lparr>ah_policy = demo_policy, ah_lease_ttl = 30, ah_max_outstanding_leases = 2\<rparr>"

definition demo_state :: lease_state where
  "demo_state = state_new (issuer_new ''agent-1'' 30) 2"

definition demo_backend :: fake_backend where
  "demo_backend = fake_insert
     \<lparr>pr_identity = demo_gpu, pr_capabilities = capabilities_new [DeviceEnforce, DeviceRevoke],
      pr_memory = Unified\<rparr> fake_new"

definition demo_lease_request :: lease_request where
  "demo_lease_request = \<lparr>lr_resource = demo_gpu, lr_action = Compute\<rparr>"

text \<open>The state after one grant.\<close>

definition demo_granted_state :: lease_state where
  "demo_granted_state =
     demo_state\<lparr>ls_issuer := (ls_issuer demo_state)\<lparr>li_next_sequence := 1\<rparr>,
       ls_leases := [(cl_id demo_lease, demo_lease)]\<rparr>"

lemma demo_authorizable [simp]: "authorizable demo_peer = Some demo_context"
  by (simp add: demo_peer_def authorizable_observation from_kernel_def)

lemma demo_state_ok [simp]: "state_ok demo_state" "state_ok demo_granted_state"
  by (simp_all add: demo_state_def)
     (simp add: demo_granted_state_def demo_state_def state_new_def issuer_new_def state_ok_def
        keys_distinct_def issuer_ok_def lease_stored_ok_def demo_lease_def)

lemma demo_provenance_for: "provenance_for demo_lease_request demo_context = demo_provenance"
  by (simp add: provenance_for_def demo_lease_request_def demo_provenance_def demo_request_def)

lemma demo_issue_reserving:
  "issue_reserving_capacity demo_handler 100 demo_provenance demo_state =
     (Inr demo_lease, reserve (demo_state\<lparr>ls_issuer := (ls_issuer demo_state)\<lparr>li_next_sequence := 1\<rparr>\<rparr>))"
proof -
  have "issue (ls_issuer demo_state) demo_policy demo_provenance 100 30 =
      (Inr demo_lease, (ls_issuer demo_state)\<lparr>li_next_sequence := 1\<rparr>)"
    by (simp add: issue_Inr_iff demo_lease_def demo_provenance_def demo_allowed demo_state_def
        state_new_def issuer_new_def time_checked_add_Some)
  then show ?thesis
    by (simp add: issue_cap_Inr demo_handler_def is_at_capacity_def prune_def)
       (simp add: demo_state_def state_new_def)
qed

lemma demo_observe:
  "fake_observe demo_backend demo_gpu = Inr
     \<lparr>pr_identity = demo_gpu, pr_capabilities = capabilities_new [DeviceEnforce, DeviceRevoke],
      pr_memory = Unified\<rparr>"
  by (simp add: demo_backend_def fake_observe_insert)

lemma demo_enforce: "fake_enforce demo_backend demo_request = Inr Allowed"
  by (simp add: fake_enforce_Allowed_iff demo_request_def demo_observe supports_capabilities_new)
     (simp add: demo_backend_def fake_insert_def fake_new_def)

lemma demo_grant:
  "handle_request_lease demo_handler fake_ops 100 110 demo_lease_request demo_peer
     (demo_state, demo_backend) =
   ((Granted (cl_id demo_lease) 130,
     LeaseGranted \<lparr>lv_lease_id = cl_id demo_lease, lv_remaining = 20\<rparr>),
    demo_granted_state, demo_backend)"
proof -
  have "prov_request (cl_origin demo_lease) = demo_request" "cl_expires_at demo_lease = 130"
    by (simp_all add: demo_lease_def demo_provenance_def)
  then show ?thesis
    by (simp add: handle_request_lease_def demo_provenance_for demo_issue_reserving fake_ops_def
        demo_enforce finish_request_simps state_insert_def release_reservation_def reserve_def)
       (simp add: demo_granted_state_def demo_state_def state_new_def)
qed

section \<open>Properties\<close>

text \<open>C2. A lease is granted exactly when the peer's context is released for authorization, a slot is
  free after expired leases are dropped, the handler's time to live is admissible and fits the
  clock, the policy allows the observed context for the requested resource and action, the backend
  reports enforcement as allowed, and the reply is made before the expiry: all of it said of the state
  before the request. The client is told the time remaining at the reply and the next identifier of the
  issuer. After a grant the store holds that lease, bound to the observed context, next to the
  unexpired ones.\<close>

theorem grant_characterised:
  assumes "state_ok ls" and "counter_room ls 1"
  shows "(snd (fst (handle_request_lease h ops now reply_now rq peer (ls, b))) = LeaseGranted v \<longleftrightarrow>
    (\<exists>obs e. authorizable peer = Some obs \<and>
       length (filter (\<lambda>(_, l). now < cl_expires_at l) (ls_leases ls)) + ls_reserved ls
         < ls_max_outstanding ls \<and>
       0 < ah_lease_ttl h \<and> ah_lease_ttl h \<le> li_max_ttl (ls_issuer ls) \<and>
       pd_effect (policy_evaluate (ah_policy h) obs (prov_request (provenance_for rq obs))) = Allow \<and>
       time_checked_add now (ah_lease_ttl h) = Some e \<and>
       fst (bo_enforce ops b (prov_request (provenance_for rq obs))) = Inr Allowed \<and>
       reply_now < e \<and> lv_remaining v = unat e - unat reply_now \<and>
       lv_lease_id v = \<lparr>lid_issuer = li_instance (ls_issuer ls),
                        lid_sequence = li_next_sequence (ls_issuer ls)\<rparr>)) \<and>
    (snd (fst (handle_request_lease h ops now reply_now rq peer (ls, b))) = LeaseGranted v \<longrightarrow>
    (\<exists>obs e. authorizable peer = Some obs \<and> time_checked_add now (ah_lease_ttl h) = Some e \<and>
       (\<forall>lid. state_get (fst (snd (handle_request_lease h ops now reply_now rq peer (ls, b)))) lid =
          (if lid = lv_lease_id v
           then Some \<lparr>cl_id = lid, cl_origin = provenance_for rq obs,
                      cl_policy = policy_provenance_of (ah_policy h),
                      cl_decision_reason = pd_reason
                        (policy_evaluate (ah_policy h) obs (prov_request (provenance_for rq obs))),
                      cl_issued_at = now, cl_expires_at = e\<rparr>
           else state_get (prune now ls) lid))))"
    (is "(?L \<longleftrightarrow> ?C) \<and> (?L \<longrightarrow> ?S)")
proof (cases "authorizable peer")
  case None
  then show ?thesis by (simp add: handle_request_lease_def)
next
  case (Some obs)
  note peer = Some
  let ?prov = "provenance_for rq obs"
  have [simp]: "prov_context ?prov = obs" by (simp add: provenance_for_def)
  show ?thesis
  proof (cases rule: issue_cap_cases [of h now ?prov ls])
    case (fail f)
    have "\<nexists>l ls1. issue_reserving_capacity h now ?prov ls = (Inr l, ls1)"
      by (simp add: fail)
    then have "\<not> ?C"
      by (auto simp: issue_cap_Inr issue_Inr_iff is_at_capacity_def prune_def peer not_le)
    moreover have "\<not> ?L"
      by (cases f) (simp_all add: handle_request_lease_def peer fail)
    ultimately show ?thesis by blast
  next
    case (issued l)
    then obtain e where cap: "\<not> is_at_capacity (prune now ls)"
      and e: "0 < ah_lease_ttl h" "ah_lease_ttl h \<le> li_max_ttl (ls_issuer ls)"
        "pd_effect (policy_evaluate (ah_policy h) obs (prov_request ?prov)) = Allow"
        "time_checked_add now (ah_lease_ttl h) = Some e"
      and l: "l = \<lparr>cl_id = \<lparr>lid_issuer = li_instance (ls_issuer ls),
                           lid_sequence = li_next_sequence (ls_issuer ls)\<rparr>,
                  cl_origin = ?prov, cl_policy = policy_provenance_of (ah_policy h),
                  cl_decision_reason = pd_reason
                    (policy_evaluate (ah_policy h) obs (prov_request ?prov)),
                  cl_issued_at = now, cl_expires_at = e\<rparr>"
      by (auto simp: issue_cap_Inr issue_Inr_iff)
    obtain r b1 where en: "bo_enforce ops b (prov_request ?prov) = (r, b1)"
      by (cases "bo_enforce ops b (prov_request ?prov)")
    have o: "prov_request (cl_origin l) = prov_request ?prov" "cl_expires_at l = e"
      by (simp_all add: l)
    have v: "v = \<lparr>lv_lease_id = i, lv_remaining = d\<rparr> \<longleftrightarrow> lv_lease_id v = i \<and> lv_remaining v = d" for i d
      by (cases v) auto
    note handled = handle_request_lease_def peer issued en o Let_def split_beta finish_request_cases
    have "?L \<longleftrightarrow> ?C"
      using cap e by (auto simp: handled is_at_capacity_def prune_def not_le v l cong: conj_cong)
    moreover have "?S" if "?L"
      using that e by (auto simp: handled v peer l state_get_def prune_def split: if_splits)
    ultimately show ?thesis by blast
  qed
qed

lemma grant_characterised_witness:
  "pd_effect (policy_evaluate demo_policy demo_context demo_request) = Allow"
proof -
  have "counter_room demo_state 1"
    by (simp add: counter_room_def demo_state_def state_new_def issuer_new_def)
  from grant_characterised [OF demo_state_ok(1) this, THEN conjunct1, THEN iffD1,
      of demo_handler fake_ops 100 110 demo_lease_request demo_peer demo_backend]
  show ?thesis
    by (simp add: demo_grant demo_provenance_for)
       (auto simp: demo_handler_def demo_provenance_def)
qed

text \<open>The wire tells a policy denial apart from everything else: a lease request is answered with
  a denial exactly when the peer's context is not released for authorization, or a slot was free
  and the policy itself decided to deny, with that decision's reason; every other refusal is an
  internal error, and a denial never changes the store beyond dropping expired leases.\<close>

theorem denial_exactly_policy:
  assumes "0 < ah_lease_ttl h" and "ah_lease_ttl h \<le> li_max_ttl (ls_issuer ls)"
  shows "(snd (fst (handle_request_lease h ops now reply_now rq peer (ls, b))) = RespLeaseDenied reason \<longleftrightarrow>
      (case authorizable peer of
         None \<Rightarrow> reason = DenialIndeterminateEvidence
       | Some obs \<Rightarrow>
           \<not> is_at_capacity (prune now ls) \<and>
           (let d = policy_evaluate (ah_policy h) obs (prov_request (provenance_for rq obs))
            in pd_effect d = Deny \<and>
               (case pd_reason d of
                  NoMatchingRule \<Rightarrow> reason = DenialNoMatchingRule
                | ExplicitDeny _ _ \<Rightarrow> reason = DenialExplicitDeny
                | IndeterminateEvidence _ \<Rightarrow> reason = DenialIndeterminateEvidence
                | ExplicitAllow _ \<Rightarrow> False)))) \<and>
    snd (fst (handle_request_lease h ops now reply_now rq peer (ls, b)))
      \<in> range LeaseGranted \<union> range RespLeaseDenied \<union> {RespError Internal}"
proof (cases "authorizable peer")
  case None
  then show ?thesis by (auto simp: handle_request_lease_def)
next
  case (Some obs)
  note peer = Some
  let ?prov = "provenance_for rq obs"
  let ?d = "policy_evaluate (ah_policy h) obs (prov_request ?prov)"
  have prov [simp]: "prov_context ?prov = obs" by (simp add: provenance_for_def)
  have deny: "pd_reason ?d \<noteq> ExplicitAllow x" if "pd_effect ?d = Deny" for x
    using that by (auto simp: policy_evaluate_eq Let_def split: if_splits)
  show ?thesis
  proof (cases rule: issue_cap_cases [of h now ?prov ls])
    case (fail f)
    have "issue_reserving_capacity h now ?prov ls = (Inl (IssueDenied d), prune now ls) \<longleftrightarrow>
        f = IssueDenied d" for d
      by (simp add: fail)
    then have f: "f = IssueDenied d \<longleftrightarrow>
        \<not> is_at_capacity (prune now ls) \<and> d = ?d \<and> pd_effect d = Deny" for d
      using assms unfolding issue_cap_Denied by (metis prov)
    show ?thesis
    proof (cases "\<exists>d. f = IssueDenied d")
      case True
      then have "f = IssueDenied ?d" "\<not> is_at_capacity (prune now ls)" "pd_effect ?d = Deny"
        using f by auto
      then show ?thesis
        using deny [OF \<open>pd_effect ?d = Deny\<close>]
        by (auto simp: handle_request_lease_def peer fail split: decision_reason.splits)
    next
      case False
      then have "\<not> (\<not> is_at_capacity (prune now ls) \<and> pd_effect ?d = Deny)"
        using f by blast
      then show ?thesis
        using False by (cases f) (auto simp: handle_request_lease_def peer fail Let_def)
    qed
  next
    case (issued l)
    then have "pd_effect ?d = Allow" by (auto simp: issue_cap_Inr issue_Inr_iff)
    then show ?thesis
      using finish_request_no_denial finish_request_cases
      by (auto simp: handle_request_lease_def peer issued Let_def split_beta finish_request_def
          split: sum.splits enforcement_result.splits)
  qed
qed

lemma denial_exactly_policy_witness:
  "snd (fst (handle_request_lease demo_handler fake_ops 100 110 demo_lease_request
     (peer_unmapped (from_kernel 42 1000 1000) demo_context) (demo_state, demo_backend)))
     = RespLeaseDenied DenialIndeterminateEvidence"
  using denial_exactly_policy [of demo_handler demo_state fake_ops 100 110 demo_lease_request
      "peer_unmapped (from_kernel 42 1000 1000) demo_context" demo_backend DenialIndeterminateEvidence]
  by (simp add: demo_handler_def demo_state_def state_new_def issuer_new_def)

text \<open>C31. A request that is not granted leaves no authority behind: no lease is added to the store, no
  capacity stays reserved, and if a lease had been issued before the backend refused, failed or was
  too slow, its identifier is revoked, so no copy of it can ever validate.\<close>

theorem failed_request_leaves_nothing:
  assumes "state_ok ls" and "counter_room ls 1"
    and "\<And>v. snd (fst (handle_request_lease h ops now reply_now rq peer (ls, b))) \<noteq> LeaseGranted v"
  shows "(let ls' = fst (snd (handle_request_lease h ops now reply_now rq peer (ls, b)))
    in ls_leases ls' \<in> {ls_leases ls, ls_leases (prune now ls)} \<and> ls_reserved ls' = ls_reserved ls \<and>
       (ls_issuer ls' = ls_issuer ls \<or>
        li_next_sequence (ls_issuer ls') = li_next_sequence (ls_issuer ls) + 1 \<and>
        li_revoked (ls_issuer ls') =
          insert (li_next_sequence (ls_issuer ls)) (li_revoked (ls_issuer ls))))"
proof (cases "authorizable peer")
  case None
  then show ?thesis by (simp add: handle_request_lease_def)
next
  case (Some obs)
  note peer = Some
  show ?thesis
  proof (cases rule: issue_cap_cases [of h now "provenance_for rq obs" ls])
    case (fail f)
    then show ?thesis by (simp add: handle_request_lease_def peer)
  next
    case (issued l)
    then have lid: "cl_id l = \<lparr>lid_issuer = li_instance (ls_issuer ls),
                              lid_sequence = li_next_sequence (ls_issuer ls)\<rparr>"
      by (auto simp: issue_cap_Inr issue_Inr_iff)
    have room: "unat (li_next_sequence (ls_issuer ls)) < 2 ^ 64 - 1"
      using assms(2) by (simp add: counter_room_def)
    then have less: "\<not> li_next_sequence (ls_issuer ls) + 1 \<le> li_next_sequence (ls_issuer ls)"
      by (simp add: word_le_nat_alt unat_u64_Suc)
    have fresh: "li_next_sequence (ls_issuer ls) \<notin> li_revoked (ls_issuer ls)"
      using state_ok_issuer [OF assms(1)] by (auto simp: issuer_ok_def)
    have "\<not> (fst (bo_enforce ops b (prov_request (cl_origin l))) = Inr Allowed \<and>
            reply_now < cl_expires_at l)"
      using assms(3) by (auto simp: handle_request_lease_def peer issued Let_def split_beta finish_request_cases)
    then show ?thesis
      using less fresh
      by (auto simp: handle_request_lease_def peer issued Let_def split_beta finish_request_cases
          revoke_def lid)
  qed
qed

lemma failed_request_leaves_nothing_witness:
  "ls_reserved (fst (snd (handle_request_lease demo_handler fake_ops 100 110 demo_lease_request
     (peer_unmapped (from_kernel 42 1000 1000) demo_context) (demo_state, demo_backend)))) =
   ls_reserved demo_state"
proof -
  have room: "counter_room demo_state 1"
    by (simp add: counter_room_def demo_state_def state_new_def issuer_new_def)
  have refused: "snd (fst (handle_request_lease demo_handler fake_ops 100 110 demo_lease_request
     (peer_unmapped (from_kernel 42 1000 1000) demo_context) (demo_state, demo_backend))) \<noteq> LeaseGranted v"
    for v by (simp add: handle_request_lease_def)
  show ?thesis
    using failed_request_leaves_nothing [OF demo_state_ok(1) room refused] by (simp add: Let_def)
qed

text \<open>C7. A lease is released exactly by its holder: the release succeeds when the peer's context is
  released for authorization and comes from the same process running the same executable as the
  unexpired lease's; then the lease is removed and revoked for good, and the backend is told to
  revoke exactly when no other unexpired lease names the resource. Every other attempt gets one and
  the same answer, touches neither the issuer nor the backend, and a second release is refused.\<close>

theorem release_exactly_by_holder:
  assumes "state_ok ls"
  shows "(let r = handle_release_lease ops now \<lparr>rr_lease_id = lid\<rparr> peer (ls, b)
    in (snd (fst r) = LeaseReleased Released \<longleftrightarrow> holder_may_release ls now lid peer) \<and>
       (snd (fst r) = LeaseReleased Refused \<longleftrightarrow> \<not> holder_may_release ls now lid peer) \<and>
       (if holder_may_release ls now lid peer
        then fst (snd r) = removed_and_revoked lid (prune now ls) \<and>
             snd (snd r) =
               (if shared_resource ls now lid then b
                else snd (bo_revoke ops b (lease_resource (the (state_get ls lid))))) \<and>
             snd (fst (handle_release_lease ops now' \<lparr>rr_lease_id = lid\<rparr> peer' (snd r))) =
               LeaseReleased Refused
        else fst (snd r) \<in> {ls, prune now ls} \<and> snd (snd r) = b))"
proof -
  let ?r = "handle_release_lease ops now \<lparr>rr_lease_id = lid\<rparr> peer (ls, b)"
  have "state_ok (fst (snd ?r))"
    using handle_release_lease_ok [of "(ls, b)"] assms by simp
  from release_equation [OF this, of ops now' lid peer' "snd (snd ?r)"]
  have again: "snd (fst (handle_release_lease ops now' \<lparr>rr_lease_id = lid\<rparr> peer' (snd ?r))) =
      LeaseReleased Refused"
    if "state_get (fst (snd ?r)) lid = None"
    using that by (simp add: holder_may_release_def split: option.splits)
  show ?thesis
  proof (cases "holder_may_release ls now lid peer")
    case True
    then have "fst (snd ?r) = removed_and_revoked lid (prune now ls)"
      by (simp add: release_equation [OF assms] Let_def split_beta)
    moreover from this have "state_get (fst (snd ?r)) lid = None"
      by (simp add: removed_and_revoked_def state_get_def)
    ultimately show ?thesis
      using again True by (simp add: release_equation [OF assms] Let_def split_beta map_prod_def)
  next
    case False
    then show ?thesis
      by (simp add: release_equation [OF assms] split: option.splits)
  qed
qed

lemma release_exactly_by_holder_witness:
  "snd (fst (handle_release_lease fake_ops 120 \<lparr>rr_lease_id = cl_id demo_lease\<rparr> demo_peer
     (demo_granted_state, demo_backend))) = LeaseReleased Released"
proof -
  have "holder_may_release demo_granted_state 120 (cl_id demo_lease) demo_peer"
    by (simp add: holder_may_release_def demo_granted_state_def state_get_def)
       (simp add: demo_lease_def demo_provenance_def compare_process_refl compare_executable_refl
          demo_context_def demo_workload_def)
  then show ?thesis
    using release_exactly_by_holder [OF demo_state_ok(2), of fake_ops 120 "cl_id demo_lease" demo_peer
        demo_backend] by (simp add: Let_def)
qed

text \<open>C24. Nobody else's request can take a lease away: an unexpired lease is still stored, unchanged,
  after any request of any peer, except a release of that very lease by its holder.\<close>

theorem lease_survives_others:
  assumes "state_ok ls" and "counter_room ls 1"
    and "state_get ls lid = Some l" and "now < cl_expires_at l"
  shows "state_get (fst (snd (snd (handle h ops now reply_now request peer (ls, b))))) lid =
    (if request = ReleaseLease \<lparr>rr_lease_id = lid\<rparr> \<and> holder_may_release ls now lid peer
     then None else Some l)"
proof (cases request)
  case (RequestLease rq)
  have kept: "state_get (prune now ls) lid = Some l"
    using assms by (simp add: state_get_prune state_ok_keys)
  show ?thesis
  proof (cases "authorizable peer")
    case None
    then show ?thesis
      using assms by (simp add: RequestLease handle_state handle_request_lease_def)
  next
    case (Some obs)
    note peer = Some
    show ?thesis
    proof (cases rule: issue_cap_cases [of h now "provenance_for rq obs" ls])
      case (fail f)
      then show ?thesis
        using kept by (simp add: RequestLease handle_state handle_request_lease_def peer)
    next
      case (issued new)
      then have "cl_id new = \<lparr>lid_issuer = li_instance (ls_issuer ls),
                              lid_sequence = li_next_sequence (ls_issuer ls)\<rparr>"
        by (auto simp: issue_cap_Inr issue_Inr_iff)
      then have "lid_sequence (cl_id new) = li_next_sequence (ls_issuer ls)"
        by simp
      then have "cl_id new \<noteq> lid"
        using state_ok_get [OF assms(1) assms(3)] by (metis lease_stored_ok_def less_irrefl)
      then show ?thesis
        using kept
        by (simp add: RequestLease handle_state handle_request_lease_def peer issued Let_def
            split_beta finish_request_cases state_get_def)
    qed
  qed
next
  case (ReleaseLease rr)
  have kept: "state_get (prune now ls) lid = Some l"
    using assms by (simp add: state_get_prune state_ok_keys)
  obtain lid' where rr: "rr = \<lparr>rr_lease_id = lid'\<rparr>" by (cases rr) auto
  show ?thesis
    using kept assms(3)
    by (auto simp: ReleaseLease rr handle_state release_equation [OF assms(1)] Let_def split_beta
        removed_and_revoked_def state_get_def split: option.splits)
next
  case AgentStatus
  then show ?thesis using assms by (simp add: handle_state)
qed

lemma lease_survives_others_witness:
  "state_get (fst (snd (snd (handle demo_handler fake_ops 120 121 AgentStatus demo_peer
     (demo_granted_state, demo_backend))))) (cl_id demo_lease) = Some demo_lease"
proof -
  have room: "counter_room demo_granted_state 1"
    by (simp add: counter_room_def demo_granted_state_def)
  have stored: "state_get demo_granted_state (cl_id demo_lease) = Some demo_lease"
    by (simp add: demo_granted_state_def state_get_def)
  have live: "120 < cl_expires_at demo_lease"
    by (simp add: demo_lease_def)
  show ?thesis
    using lease_survives_others [OF demo_state_ok(2) room stored live,
        of demo_handler fake_ops 121 AgentStatus demo_peer demo_backend] by simp
qed

text \<open>C9. The agent's state is sound after any history of requests from any peers: the outstanding
  leases never exceed the configured bound, no reservation is left over, every stored lease is
  stored under its own identifier, issued by this instance and not revoked, and every one of them
  was allowed by the policy for the very context and request it is bound to, for exactly the
  configured time to live.\<close>

theorem agent_history_invariant:
  assumes "handler_new inst policy config = (h, ls0)" and "length calls < 2 ^ 64"
    and "fold (agent_step h ops) calls (ls0, b0) = (ls, b)"
  shows "length (ls_leases ls) \<le> ac_max_outstanding_leases config \<and> ls_reserved ls = 0 \<and>
    distinct (map fst (ls_leases ls)) \<and>
    (\<forall>(lid, l)\<in>set (ls_leases ls).
       cl_id l = lid \<and> lease_stored_ok (ls_issuer ls) lid l \<and>
       pd_effect (policy_evaluate policy (prov_context (cl_origin l)) (prov_request (cl_origin l))) = Allow \<and>
       unat (cl_expires_at l) = unat (cl_issued_at l) + ac_lease_ttl config)"
proof -
  have new: "state_ok ls0" "ls_leases ls0 = []" "ls_reserved ls0 = 0"
    "ls_max_outstanding ls0 = ac_max_outstanding_leases config" "counter_room ls0 (length calls)"
    "ah_policy h = policy" "ah_lease_ttl h = ac_lease_ttl config"
    using handler_new_state [OF assms(1)] assms(2) by (simp_all add: counter_room_def)
  have "state_ok ls \<and> ls_reserved ls = 0"
    using agent_history_ok [of "(ls0, b0)" calls h ops] new assms(3) by simp
  moreover have "\<forall>(k, l)\<in>set (ls_leases ls). lease_justified h l"
    using agent_history_justified [of "(ls0, b0)" h ops calls] new assms(3) by simp
  moreover have "ls_max_outstanding ls = ac_max_outstanding_leases config"
    using agent_history_max [of h ops calls "(ls0, b0)"] new assms(3) by simp
  ultimately show ?thesis
    by (fastforce simp: state_ok_def keys_distinct_def lease_stored_ok_def lease_justified_def
        Let_def new(6,7))
qed

lemma agent_history_invariant_witness:
  "length (ls_leases demo_granted_state) \<le> 2 \<and> ls_leases demo_granted_state \<noteq> []"
proof -
  have "handler_new ''agent-1'' demo_policy \<lparr>ac_lease_ttl = 30, ac_max_outstanding_leases = 2\<rparr> =
      (demo_handler, demo_state)"
    by (simp add: handler_new_def demo_handler_def demo_state_def)
  moreover have "fold (agent_step demo_handler fake_ops)
      [(100, 110, RequestLease demo_lease_request, demo_peer)] (demo_state, demo_backend) =
      (demo_granted_state, demo_backend)"
    by (simp add: agent_step_def handle_state demo_grant)
  ultimately show ?thesis
    using agent_history_invariant [of "''agent-1''" demo_policy
        "\<lparr>ac_lease_ttl = 30, ac_max_outstanding_leases = 2\<rparr>" demo_handler demo_state
        "[(100, 110, RequestLease demo_lease_request, demo_peer)]" fake_ops demo_backend]
    by (simp add: demo_granted_state_def)
qed

text \<open>A grant is backed by the backend: over any history of an agent on a fake backend, a lease
  request is granted only for a resource the backend held from the start with device enforcement
  supported; the requests of clients never change what the backend offers.\<close>

theorem granted_only_on_enforceable_resource:
  assumes "fake_ok b0" and "fold (agent_step h fake_ops) calls (ls0, b0) = (ls, b)"
    and "fst (handle h fake_ops now reply_now (RequestLease rq) peer (ls, b)) = LeaseGranted v"
  shows "\<exists>p. fake_observe b0 (lr_resource rq) = Inr p \<and>
    pr_capabilities p DeviceEnforce = Some Supported"
  using fake.grant_in_history_is_enforced [where st = "(ls0, b0)"] assms
  by (simp add: fake_ops_def supports_iff)

lemma granted_only_on_enforceable_resource_witness:
  "\<exists>p. fake_observe demo_backend demo_gpu = Inr p \<and>
     pr_capabilities p DeviceEnforce = Some Supported"
proof -
  have "fake_ok demo_backend" by (simp add: demo_backend_def)
  moreover have "fst (handle demo_handler fake_ops 100 110 (RequestLease demo_lease_request) demo_peer
      (demo_state, demo_backend)) = LeaseGranted \<lparr>lv_lease_id = cl_id demo_lease, lv_remaining = 20\<rparr>"
    by (simp add: handle_response demo_grant)
  ultimately show ?thesis
    using granted_only_on_enforceable_resource [of demo_backend demo_handler "[]" demo_state demo_state
        demo_backend 100 110 demo_lease_request demo_peer "\<lparr>lv_lease_id = cl_id demo_lease, lv_remaining = 20\<rparr>"]
    by (simp add: demo_lease_request_def)
qed

text \<open>An agent on the Apple adapter never grants a lease, whatever the policy says, on any host and
  after any history: an adapter that cannot enforce cannot be used to hand out authority.\<close>

theorem apple_agent_never_grants:
  "fst (handle h apple_ops now reply_now (RequestLease rq) peer
     (fold (agent_step h apple_ops) calls (ls0, host))) \<noteq> LeaseGranted v"
proof
  obtain ls host' where st: "fold (agent_step h apple_ops) calls (ls0, host) = (ls, host')"
    by (cases "fold (agent_step h apple_ops) calls (ls0, host)")
  assume "fst (handle h apple_ops now reply_now (RequestLease rq) peer
     (fold (agent_step h apple_ops) calls (ls0, host))) = LeaseGranted v"
  then have "\<exists>p. apple_observe host (lr_resource rq) = Inr p \<and>
      supports (pr_capabilities p) DeviceEnforce"
    using apple.grant_in_history_is_enforced [where st = "(ls0, host)" and h = h and calls = calls
        and ls = ls and b = host' and now = now and reply_now = reply_now and rq = rq and peer = peer
        and v = v] st
    by (simp add: apple_ops_def)
  then show False
    by (auto dest!: apple_observe_Inr simp: supports_snapshot)
qed

text \<open>Loading a policy fails closed: a policy set is obtained exactly from a file that can be read,
  whose contents parse as an envelope of the current version around a well-formed document, and it
  is that document.\<close>

theorem load_policy_exact:
  "load_policy read_to_string from_str path = Inr ps \<longleftrightarrow>
     (\<exists>contents. read_to_string path = Inr contents \<and>
        from_str contents = Inr (versioned_current (ps_document ps)) \<and>
        well_formed_document (ps_document ps))"
proof -
  have doc: "from_document d = Inr ps \<longleftrightarrow> well_formed_document d \<and> ps_document ps = d" for d
    by (cases ps) (auto simp: from_document_Inr_iff check_rules_well_formed well_formed_document_def)
  have "from_versioned env = Inr ps \<longleftrightarrow> (\<exists>d. into_current env = Inr d \<and> from_document d = Inr ps)" for env
    by (simp add: from_versioned_def split: sum.splits)
  then have "from_versioned env = Inr ps \<longleftrightarrow>
      env = versioned_current (ps_document ps) \<and> well_formed_document (ps_document ps)" for env
    by (auto simp: doc into_current_Inr_iff)
  moreover have "load_policy read_to_string from_str path = Inr ps \<longleftrightarrow>
      (\<exists>contents env. read_to_string path = Inr contents \<and> from_str contents = Inr env \<and>
         from_versioned env = Inr ps)"
    by (simp add: load_policy_def split: sum.splits)
  ultimately show ?thesis by auto
qed

end
