(* ===== verification/Eltanin_Authz_Concurrent.thy ===== *)
theory Eltanin_Authz_Concurrent
  imports Eltanin_Authz
begin

text \<open>
  The authorization handler of \<open>crates/eltanin-agent/src/authz/mod.rs\<close> under concurrent
  connections. Each step of the relation is what one connection thread does under one acquisition
  of the state lock, or between two: a lease request is issued under the lock, enforced by the
  backend with the lock dropped, and finished under the lock again; the clock reading that decides
  whether the lease still lives is made before the lock is taken, so that others may run in between.
  A release holds the lock from its clock reading to the backend's revocation. A backend that panics while it enforces leaves the
  request unanswered and its reservation in place (\<open>connection.rs\<close> catches the panic); one that panics
  while it revokes does so after the lease was removed, and poisons the lock, which the next request
  recovers. Clock
  readings never go back. The requests between issue and finish are a list in no particular order.
  The issuer's counter is assumed not to wrap.
\<close>

section \<open>The interleaved agent\<close>

type_synonym enforce_answer = "(backend_error, enforcement_result) result"

record 'b concurrent_agent =
  ca_now :: monotonic_time
  ca_store :: lease_state
  ca_backend :: 'b
  ca_issued :: "compute_lease list"
  ca_enforced :: "(compute_lease \<times> enforce_answer) list"
  ca_leaked :: nat

definition concurrent_new :: "lease_state \<Rightarrow> 'b \<Rightarrow> 'b concurrent_agent" where
  "concurrent_new ls b =
     \<lparr>ca_now = 0, ca_store = ls, ca_backend = b, ca_issued = [], ca_enforced = [], ca_leaked = 0\<rparr>"

text \<open>What a step lets the connections see: the answer to a lease request or to a release, and the
  clock reading it rests on.\<close>

datatype agent_answer =
    NoAnswer
  | RequestAnswered monotonic_time agent_response
  | ReleaseAnswered monotonic_time lease_id peer_context agent_response
  | ReleasePanicked monotonic_time lease_id peer_context

inductive agent_steps_to ::
  "authorization_handler \<Rightarrow> 'b backend_ops \<Rightarrow> agent_answer \<Rightarrow> 'b concurrent_agent \<Rightarrow>
     'b concurrent_agent \<Rightarrow> bool"
  for h :: authorization_handler and ops :: "'b backend_ops"
where
  issue_step:
    "\<lbrakk>ca_now ca \<le> now; authorizable peer = Some obs; counter_room (ca_store ca) 1;
      issue_reserving_capacity h now (provenance_for rq obs) (ca_store ca) = (Inr l, ls)\<rbrakk> \<Longrightarrow>
     agent_steps_to h ops NoAnswer ca
       (ca\<lparr>ca_now := now, ca_store := ls, ca_issued := l # ca_issued ca\<rparr>)"
| refuse_step:
    "\<lbrakk>ca_now ca \<le> now; authorizable peer = Some obs;
      issue_reserving_capacity h now (provenance_for rq obs) (ca_store ca) = (Inl f, ls)\<rbrakk> \<Longrightarrow>
     agent_steps_to h ops (RequestAnswered now (snd (issue_failure_reply f))) ca
       (ca\<lparr>ca_now := now, ca_store := ls\<rparr>)"
| enforce_step:
    "\<lbrakk>ca_issued ca = xs @ l # ys;
      bo_enforce ops (ca_backend ca) (prov_request (cl_origin l)) = (r, b)\<rbrakk> \<Longrightarrow>
     agent_steps_to h ops NoAnswer ca
       (ca\<lparr>ca_issued := xs @ ys, ca_enforced := (l, r) # ca_enforced ca, ca_backend := b\<rparr>)"
| panic_step:
    "ca_issued ca = xs @ l # ys \<Longrightarrow>
     agent_steps_to h ops NoAnswer ca (ca\<lparr>ca_issued := xs @ ys, ca_leaked := ca_leaked ca + 1\<rparr>)"
| finish_step:
    "\<lbrakk>ca_enforced ca = xs @ (l, r) # ys; cl_issued_at l \<le> reading; reading \<le> now; ca_now ca \<le> now;
      finish_request reading l r (ca_store ca) = (reply, ls)\<rbrakk> \<Longrightarrow>
     agent_steps_to h ops (RequestAnswered reading (snd reply)) ca
       (ca\<lparr>ca_now := now, ca_enforced := xs @ ys, ca_store := ls\<rparr>)"
| release_step:
    "\<lbrakk>ca_now ca \<le> now;
      handle_release_lease ops now rr peer (ca_store ca, ca_backend ca) = (reply, (ls, b))\<rbrakk> \<Longrightarrow>
     agent_steps_to h ops (ReleaseAnswered now (rr_lease_id rr) peer (snd reply)) ca
       (ca\<lparr>ca_now := now, ca_store := ls, ca_backend := b\<rparr>)"
| release_panic_step:
    "\<lbrakk>ca_now ca \<le> now;
      handle_release_lease ops now rr peer (ca_store ca, ca_backend ca) = (reply, (ls, b));
      snd reply = LeaseReleased Released;
      \<not> any_other_live_lease_for_same_resource (prune now (ca_store ca)) (rr_lease_id rr)\<rbrakk> \<Longrightarrow>
     agent_steps_to h ops (ReleasePanicked now (rr_lease_id rr) peer) ca
       (ca\<lparr>ca_now := now, ca_store := ls\<rparr>)"

inductive agent_reaches ::
  "authorization_handler \<Rightarrow> 'b backend_ops \<Rightarrow> 'b concurrent_agent \<Rightarrow> 'b concurrent_agent \<Rightarrow> bool"
  for h :: authorization_handler and ops :: "'b backend_ops" and ca0 :: "'b concurrent_agent"
where
  reach_start: "agent_reaches h ops ca0 ca0"
| reach_step: "\<lbrakk>agent_reaches h ops ca0 ca; agent_steps_to h ops ans ca ca'\<rbrakk> \<Longrightarrow> agent_reaches h ops ca0 ca'"

section \<open>The invariant\<close>

definition in_flight :: "'b concurrent_agent \<Rightarrow> compute_lease list" where
  "in_flight ca = ca_issued ca @ map fst (ca_enforced ca)"

text \<open>The reservations are exactly the requests in flight and the leaked ones; the leases in flight
  are issued, not revoked, not stored, and have distinct identifiers.\<close>

definition concurrent_ok :: "'b concurrent_agent \<Rightarrow> bool" where
  "concurrent_ok ca \<longleftrightarrow>
     state_ok (ca_store ca) \<and>
     ls_reserved (ca_store ca) = length (in_flight ca) + ca_leaked ca \<and>
     distinct (map cl_id (in_flight ca)) \<and>
     (\<forall>l\<in>set (in_flight ca).
        lease_stored_ok (ls_issuer (ca_store ca)) (cl_id l) l \<and>
        state_get (ca_store ca) (cl_id l) = None)"

lemma concurrent_ok_new: "state_ok ls \<Longrightarrow> ls_reserved ls = 0 \<Longrightarrow> concurrent_ok (concurrent_new ls b)"
  by (simp add: concurrent_ok_def concurrent_new_def in_flight_def)

lemma state_get_pruned_None:
  "state_ok ls \<Longrightarrow> state_get ls lid = None \<Longrightarrow> state_get (prune now ls) lid = None"
  using state_get_prune [OF state_ok_keys, of ls now lid] by (cases "state_get (prune now ls) lid") auto

lemma issue_step_ok:
  assumes ok: "concurrent_ok ca" and room: "counter_room (ca_store ca) 1"
    and issued: "issue_reserving_capacity h now prov (ca_store ca) = (Inr l, ls)"
  shows "concurrent_ok (ca\<lparr>ca_now := now, ca_store := ls, ca_issued := l # ca_issued ca\<rparr>)"
proof -
  let ?ls0 = "ca_store ca"
  have ok0: "state_ok ?ls0" using ok by (simp add: concurrent_ok_def)
  note pending = issue_cap_pending [OF ok0 room issued]
  from issued have lid: "lid_sequence (cl_id l) = li_next_sequence (ls_issuer ?ls0)"
    and iss: "ls_issuer ls = (ls_issuer ?ls0)\<lparr>li_next_sequence := li_next_sequence (ls_issuer ?ls0) + 1\<rparr>"
    by (auto simp: issue_cap_Inr issue_Inr_iff)
  have room': "unat (li_next_sequence (ls_issuer ?ls0)) < 2 ^ 64 - 1"
    using room by (simp add: counter_room_def)
  have old: "lease_stored_ok (ls_issuer ls) (cl_id x) x \<and> state_get ls (cl_id x) = None \<and> cl_id x \<noteq> cl_id l"
    if "x \<in> set (in_flight ca)" for x
  proof -
    from that ok have x: "lease_stored_ok (ls_issuer ?ls0) (cl_id x) x" "state_get ?ls0 (cl_id x) = None"
      by (auto simp: concurrent_ok_def)
    then show ?thesis
      using lease_stored_ok_next [OF room' x(1)] state_get_pruned_None [OF ok0 x(2), of now] pending lid
      by (auto simp: iss state_get_def lease_stored_ok_def)
  qed
  let ?ca = "ca\<lparr>ca_now := now, ca_store := ls, ca_issued := l # ca_issued ca\<rparr>"
  have flight: "in_flight ?ca = l # in_flight ca"
    by (simp add: in_flight_def)
  have "cl_id l \<notin> cl_id ` set (in_flight ca)"
    using old by (metis imageE)
  then show ?thesis
    using ok pending old by (simp add: concurrent_ok_def flight lease_pending_def)
qed

lemma finish_step_ok:
  assumes ok: "concurrent_ok ca" and enforced: "ca_enforced ca = xs @ (l, r) # ys"
    and fin: "finish_request reading l r (ca_store ca) = (reply, ls)"
  shows "concurrent_ok (ca\<lparr>ca_now := now, ca_enforced := xs @ ys, ca_store := ls\<rparr>)"
proof -
  let ?ls0 = "ca_store ca"
  have ok0: "state_ok ?ls0" using ok by (simp add: concurrent_ok_def)
  have pending: "lease_pending l ?ls0"
    using ok by (auto simp: concurrent_ok_def in_flight_def enforced lease_pending_def)
  have ls: "ls = snd (finish_request reading l r ?ls0)" using fin by simp
  note finished = finish_request_ok [OF ok0 pending, of reading r]
  have kept: "lease_stored_ok (ls_issuer ls) (cl_id x) x \<and> state_get ls (cl_id x) = None"
    if "x \<in> set (in_flight ca)" "cl_id x \<noteq> cl_id l" for x
  proof -
    have "lease_stored_ok (ls_issuer ?ls0) (cl_id x) x" "state_get ?ls0 (cl_id x) = None"
      using that(1) ok by (auto simp: concurrent_ok_def)
    then show ?thesis
      using that(2) by (simp add: ls finish_request_cases state_get_def lease_stored_ok_revoke)
  qed
  define A B where "A = ca_issued ca @ map fst xs" and "B = map fst ys"
  have before: "in_flight ca = A @ l # B"
    by (simp add: in_flight_def enforced A_def B_def)
  have after: "in_flight (ca\<lparr>ca_now := now, ca_enforced := xs @ ys, ca_store := ls\<rparr>) = A @ B"
    by (simp add: in_flight_def A_def B_def)
  have "distinct (map cl_id (A @ l # B))"
    using ok by (simp add: concurrent_ok_def before)
  then have "cl_id l \<notin> cl_id ` set (A @ B)" and "distinct (map cl_id (A @ B))"
    by auto
  then have "\<forall>x\<in>set (A @ B). cl_id x \<noteq> cl_id l"
    by (metis imageI)
  then have "\<forall>x\<in>set (A @ B). lease_stored_ok (ls_issuer ls) (cl_id x) x \<and> state_get ls (cl_id x) = None"
    using kept by (simp add: before)
  moreover have "ls_reserved ls = length (A @ B) + ca_leaked ca" "state_ok ls"
    using finished ok by (simp_all add: concurrent_ok_def before ls)
  ultimately show ?thesis
    using \<open>distinct (map cl_id (A @ B))\<close> unfolding concurrent_ok_def after by simp
qed

lemma release_step_ok:
  assumes ok: "concurrent_ok ca"
    and rel: "handle_release_lease ops now rr peer (ca_store ca, ca_backend ca) = (reply, (ls, b))"
  shows "concurrent_ok (ca\<lparr>ca_now := now, ca_store := ls, ca_backend := b\<rparr>)"
proof -
  let ?ls0 = "ca_store ca"
  obtain lid where rr: "rr = \<lparr>rr_lease_id = lid\<rparr>" by (cases rr) auto
  have ok0: "state_ok ?ls0" using ok by (simp add: concurrent_ok_def)
  have ls: "ls = fst (snd (handle_release_lease ops now rr peer (?ls0, ca_backend ca)))"
    using rel by simp
  have "ls = ?ls0 \<or> ls = prune now ?ls0 \<or>
      ls = removed_and_revoked lid (prune now ?ls0) \<and> (\<exists>l. state_get ?ls0 lid = Some l)"
    by (auto simp: ls rr release_equation [OF ok0] Let_def split_beta holder_may_release_def
        split: option.splits)
  then have kept: "lease_stored_ok (ls_issuer ls) (cl_id x) x \<and> state_get ls (cl_id x) = None"
    if "x \<in> set (in_flight ca)" for x
  proof -
    from that ok have x: "lease_stored_ok (ls_issuer ?ls0) (cl_id x) x" "state_get ?ls0 (cl_id x) = None"
      by (auto simp: concurrent_ok_def)
    then have "state_get (prune now ?ls0) (cl_id x) = None"
      by (simp add: state_get_pruned_None [OF ok0])
    moreover have "lid_sequence (cl_id x) \<noteq> lid_sequence lid" if l0: "state_get ?ls0 lid = Some l0" for l0
    proof
      assume "lid_sequence (cl_id x) = lid_sequence lid"
      then have "cl_id x = lid"
        using x(1) state_ok_get [OF ok0 l0] by (simp add: lease_stored_ok_def)
      then show False using x(2) l0 by simp
    qed
    ultimately show ?thesis
      using x \<open>ls = ?ls0 \<or> ls = prune now ?ls0 \<or> _\<close>
      by (auto simp: removed_and_revoked_def state_get_def lease_stored_ok_def)
  qed
  moreover have "state_ok ls \<and> ls_reserved ls = ls_reserved ?ls0"
    using handle_release_lease_ok [of "(?ls0, ca_backend ca)" ops now rr peer] ok0 by (simp add: ls)
  ultimately show ?thesis
    using ok by (simp add: concurrent_ok_def in_flight_def)
qed

lemma agent_step_concurrent_ok:
  assumes "agent_steps_to h ops ans ca ca'" and "concurrent_ok ca"
  shows "concurrent_ok ca'"
  using assms
proof (cases rule: agent_steps_to.cases)
  case (issue_step now peer obs rq l ls)
  then show ?thesis using issue_step_ok assms(2) by blast
next
  case (refuse_step now peer obs rq f ls)
  then have "ls = prune now (ca_store ca)" by (blast intro: issue_cap_Inl_state)
  then show ?thesis
    using refuse_step assms(2) state_get_pruned_None [of "ca_store ca"]
    by (auto simp: concurrent_ok_def in_flight_def)
next
  case (enforce_step xs l ys r b)
  then show ?thesis using assms(2) by (auto simp: concurrent_ok_def in_flight_def)
next
  case (panic_step xs l ys)
  then show ?thesis using assms(2) by (auto simp: concurrent_ok_def in_flight_def)
next
  case (finish_step xs l r ys reading now reply ls)
  then show ?thesis using finish_step_ok assms(2) by blast
next
  case (release_step now rr peer reply ls b)
  show ?thesis
    unfolding release_step(2) by (rule release_step_ok [OF assms(2) release_step(4)])
next
  case (release_panic_step now rr peer reply ls b)
  have "concurrent_ok (ca\<lparr>ca_now := now, ca_store := ls, ca_backend := b\<rparr>)"
    by (rule release_step_ok [OF assms(2) release_panic_step(4)])
  then show ?thesis
    unfolding release_panic_step(2) by (simp add: concurrent_ok_def in_flight_def)
qed

lemma agent_reaches_ok:
  "agent_reaches h ops ca0 ca \<Longrightarrow> concurrent_ok ca0 \<Longrightarrow> concurrent_ok ca"
  by (induction rule: agent_reaches.induct) (auto intro: agent_step_concurrent_ok)

lemma agent_step_leaked:
  "agent_steps_to h ops ans ca ca' \<Longrightarrow>
     ca_leaked ca \<le> ca_leaked ca' \<and> ls_max_outstanding (ca_store ca') = ls_max_outstanding (ca_store ca)"
proof (induction rule: agent_steps_to.induct)
  case (issue_step ca now peer obs rq l ls)
  then show ?case
    by (auto simp: issue_cap_Inr)
next
  case (refuse_step ca now peer obs rq f ls)
  then show ?case by (auto dest: issue_cap_Inl_state)
next
  case (finish_step ca xs l r ys reading now reply ls)
  then show ?case
    using finish_max [of reading l r "ca_store ca"] by simp
next
  case (release_step ca now rr peer reply ls b)
  then have "ls = fst (snd (handle_release_lease ops now rr peer (ca_store ca, ca_backend ca)))"
    by simp
  then show ?case
    by (simp add: handle_release_lease_def Let_def split_beta split: option.splits)
next
  case (release_panic_step ca now rr peer reply ls b)
  then have "ls = fst (snd (handle_release_lease ops now rr peer (ca_store ca, ca_backend ca)))"
    by simp
  then show ?case
    by (simp add: handle_release_lease_def Let_def split_beta split: option.splits)
qed simp_all

lemma agent_reaches_leaked:
  "agent_reaches h ops ca ca' \<Longrightarrow>
     ca_leaked ca \<le> ca_leaked ca' \<and> ls_max_outstanding (ca_store ca') = ls_max_outstanding (ca_store ca)"
  by (induction rule: agent_reaches.induct) (auto dest: agent_step_leaked)

section \<open>A backend that remembers what it enforces\<close>

text \<open>The enforced resources as a set: every enforcement succeeds and adds one, every revocation
  removes one.\<close>

definition tracking_ops :: "resource_identity set backend_ops" where
  "tracking_ops =
     \<lparr>bo_enforce = (\<lambda>b q. (Inr Allowed, insert (cr_resource q) b)),
      bo_revoke = (\<lambda>b r. (Inr Allowed, b - {r}))\<rparr>"

definition leases_enforced :: "lease_state \<Rightarrow> resource_identity set \<Rightarrow> bool" where
  "leases_enforced ls b \<longleftrightarrow> (\<forall>(lid, l)\<in>set (ls_leases ls). lease_resource l \<in> b)"

lemma leases_enforced_prune: "leases_enforced ls b \<Longrightarrow> leases_enforced (prune now ls) b"
  by (auto simp: leases_enforced_def prune_def)

lemma request_keeps_enforced:
  assumes "leases_enforced ls b"
    and "snd (handle_request_lease h tracking_ops now reply_now rq peer (ls, b)) = (ls', b')"
  shows "leases_enforced ls' b'"
proof (cases "authorizable peer")
  case None
  then show ?thesis using assms by (simp add: handle_request_lease_def)
next
  case (Some obs)
  note peer = Some
  note pruned = leases_enforced_prune [OF assms(1), of now]
  show ?thesis
  proof (cases rule: issue_cap_cases [of h now "provenance_for rq obs" ls])
    case (fail f)
    then show ?thesis using assms(2) pruned by (simp add: handle_request_lease_def peer)
  next
    case (issued l)
    then show ?thesis
      using assms(2) pruned set_update_subset [of "cl_id l" l "ls_leases (prune now ls)"]
      by (auto simp: handle_request_lease_def peer tracking_ops_def Let_def split_beta
          finish_request_cases leases_enforced_def lease_resource_def split: if_splits)
  qed
qed

lemma release_keeps_enforced:
  assumes "state_ok ls" and "leases_enforced ls b"
    and "snd (handle_release_lease tracking_ops now rr peer (ls, b)) = (ls', b')"
  shows "leases_enforced ls' b'"
proof -
  obtain lid where rr: "rr = \<lparr>rr_lease_id = lid\<rparr>" by (cases rr) auto
  note pruned = leases_enforced_prune [OF assms(2), of now]
  show ?thesis
  proof (cases "holder_may_release ls now lid peer")
    case False
    then show ?thesis
      using assms pruned by (simp add: rr release_equation [OF assms(1)] split: option.splits)
  next
    case True
    then obtain l where l: "state_get ls lid = Some l"
      by (auto simp: holder_may_release_def split: option.splits)
    have ls': "ls' = removed_and_revoked lid (prune now ls)"
      and b': "b' = (if shared_resource ls now lid then b else b - {lease_resource l})"
      using assms(3) True
      by (auto simp: rr release_equation [OF assms(1)] Let_def split_beta tracking_ops_def l
          split: if_splits)
    have kd: "keys_distinct (ls_leases ls)" using assms(1) by (rule state_ok_keys)
    have "lease_resource l' \<in> b'" if "(lid', l') \<in> set (ls_leases ls')" for lid' l'
    proof -
      from that have "lid' \<noteq> lid" and mem: "(lid', l') \<in> set (ls_leases (prune now ls))"
        by (auto simp: ls' removed_and_revoked_def AList.delete_eq)
      moreover from mem have "state_get ls lid' = Some l'" "now < cl_expires_at l'"
        using kd by (auto simp: prune_def state_get_def map_of_iff_mem)
      moreover have "lease_resource l' \<in> b"
        using mem pruned by (auto simp: leases_enforced_def)
      ultimately show ?thesis
        using l by (auto simp: b' shared_resource_def)
    qed
    then show ?thesis by (auto simp: leases_enforced_def)
  qed
qed

lemma step_keeps_enforced:
  assumes "state_ok (fst st)" and "leases_enforced (fst st) (snd st)"
  shows "leases_enforced (fst (agent_step h tracking_ops c st)) (snd (agent_step h tracking_ops c st))"
proof -
  obtain now reply_now request peer where c: "c = (now, reply_now, request, peer)"
    by (cases c)
  obtain ls b where st: "st = (ls, b)" by (cases st)
  have rq: "leases_enforced (fst (snd (handle_request_lease h tracking_ops now reply_now rq peer st)))
      (snd (snd (handle_request_lease h tracking_ops now reply_now rq peer st)))" for rq
    by (rule request_keeps_enforced [of ls b]) (use assms st in simp_all)
  have rr: "leases_enforced (fst (snd (handle_release_lease tracking_ops now rr peer st)))
      (snd (snd (handle_release_lease tracking_ops now rr peer st)))" for rr
    by (rule release_keeps_enforced [of ls b]) (use assms st in simp_all)
  show ?thesis
    using rq rr assms(2) by (simp add: agent_step_def c handle_state split: client_request.splits)
qed

lemma history_keeps_enforced:
  assumes "state_ok (fst st)" and "counter_room (fst st) (length calls)"
    and "leases_enforced (fst st) (snd st)"
  shows "leases_enforced (fst (fold (agent_step h tracking_ops) calls st))
           (snd (fold (agent_step h tracking_ops) calls st))"
  using assms
proof (induction calls arbitrary: st)
  case (Cons c calls)
  obtain now reply_now request peer where c: "c = (now, reply_now, request, peer)"
    by (cases c)
  have "state_ok (fst (agent_step h tracking_ops c st)) \<and>
      counter_room (fst (agent_step h tracking_ops c st)) (length calls)"
    using handle_ok [OF Cons.prems(1), of "length calls"] Cons.prems(2) by (simp add: agent_step_def c)
  moreover have "leases_enforced (fst (agent_step h tracking_ops c st)) (snd (agent_step h tracking_ops c st))"
    using Cons.prems by (blast intro: step_keeps_enforced)
  ultimately show ?case
    using Cons.IH [of "agent_step h tracking_ops c st"] by simp
qed simp

section \<open>A race between a grant and a release\<close>

definition second_lease :: compute_lease where
  "second_lease = demo_lease\<lparr>cl_id := \<lparr>lid_issuer = ''agent-1'', lid_sequence = 1\<rparr>\<rparr>"

lemma demo_lease_simps:
  "cl_id demo_lease = \<lparr>lid_issuer = ''agent-1'', lid_sequence = 0\<rparr>"
  "cl_expires_at demo_lease = 130" "cl_origin demo_lease = demo_provenance"
  by (simp_all add: demo_lease_def)

lemma second_lease_simps:
  "cl_id second_lease = \<lparr>lid_issuer = ''agent-1'', lid_sequence = 1\<rparr>"
  "cl_expires_at second_lease = 130" "cl_origin second_lease = demo_provenance"
  by (simp_all add: second_lease_def demo_lease_def)

lemma demo_issued_at: "cl_issued_at demo_lease = 100" "cl_issued_at second_lease = 100"
  by (simp_all add: second_lease_def demo_lease_def)

lemma demo_resource [simp]: "cr_resource (prov_request demo_provenance) = demo_gpu"
  by (simp add: demo_provenance_def demo_request_def)

lemma second_issue:
  "issue_reserving_capacity demo_handler 100 demo_provenance demo_granted_state =
     (Inr second_lease,
      reserve (demo_granted_state\<lparr>ls_issuer := (ls_issuer demo_state)\<lparr>li_next_sequence := 2\<rparr>\<rparr>))"
proof -
  have "issue (ls_issuer demo_granted_state) demo_policy demo_provenance 100 30 =
      (Inr second_lease, (ls_issuer demo_state)\<lparr>li_next_sequence := 2\<rparr>)"
    by (simp add: issue_Inr_iff second_lease_def demo_lease_def demo_provenance_def demo_allowed
        demo_granted_state_def demo_state_def state_new_def issuer_new_def time_checked_add_Some)
  moreover have "prune 100 demo_granted_state = demo_granted_state"
    by (simp add: prune_def demo_granted_state_def demo_lease_simps)
  ultimately show ?thesis
    by (simp add: issue_cap_Inr demo_handler_def is_at_capacity_def)
       (simp add: demo_granted_state_def demo_state_def state_new_def)
qed

lemma demo_room [simp]: "counter_room demo_state (Suc 0)" "counter_room demo_granted_state (Suc 0)"
  by (simp_all add: counter_room_def demo_granted_state_def demo_state_def state_new_def issuer_new_def)

text \<open>The store while the second request is in flight, and after the first lease is released.\<close>

definition race_store :: lease_state where
  "race_store = reserve (demo_granted_state\<lparr>ls_issuer := (ls_issuer demo_state)\<lparr>li_next_sequence := 2\<rparr>\<rparr>)"

lemma race_release:
  "snd (handle_release_lease tracking_ops 100 \<lparr>rr_lease_id = cl_id demo_lease\<rparr> demo_peer
     (race_store, {demo_gpu})) =
   (removed_and_revoked (cl_id demo_lease) race_store, {})"
proof -
  have store: "ls_leases race_store = [(cl_id demo_lease, demo_lease)]"
    by (simp add: race_store_def demo_granted_state_def)
  have ok: "state_ok race_store"
    by (simp add: race_store_def demo_granted_state_def demo_state_def state_new_def issuer_new_def
        state_ok_def keys_distinct_def issuer_ok_def lease_stored_ok_def demo_lease_simps)
  have "prune 100 race_store = race_store"
    by (simp add: prune_def store demo_lease_simps)
  moreover have "holder_may_release race_store 100 (cl_id demo_lease) demo_peer"
    by (simp add: holder_may_release_def state_get_def store demo_lease_simps)
       (simp add: demo_provenance_def compare_process_refl compare_executable_refl
          demo_context_def demo_workload_def)
  moreover have "\<not> shared_resource race_store 100 (cl_id demo_lease)"
    by (auto simp: shared_resource_def state_get_def store split: if_splits)
  ultimately show ?thesis
    by (simp add: release_equation [OF ok] Let_def split_beta state_get_def store tracking_ops_def
        lease_resource_def demo_lease_simps)
qed

definition race_start :: "resource_identity set concurrent_agent" where
  "race_start = concurrent_new demo_state {}"

lemma race_to_first_grant:
  "agent_reaches demo_handler tracking_ops race_start
     (race_start\<lparr>ca_now := 100, ca_store := demo_granted_state, ca_backend := {demo_gpu}\<rparr>)"
proof -
  let ?ls1 = "reserve (demo_state\<lparr>ls_issuer := (ls_issuer demo_state)\<lparr>li_next_sequence := 1\<rparr>\<rparr>)"
  let ?c1 = "race_start\<lparr>ca_now := 100, ca_store := ?ls1, ca_issued := [demo_lease]\<rparr>"
  let ?c2 = "?c1\<lparr>ca_issued := [], ca_enforced := [(demo_lease, Inr Allowed)], ca_backend := {demo_gpu}\<rparr>"
  have "agent_steps_to demo_handler tracking_ops NoAnswer race_start ?c1"
    using issue_step [of race_start 100 demo_peer demo_context demo_handler demo_lease_request demo_lease
        ?ls1 tracking_ops]
    by (simp add: race_start_def concurrent_new_def demo_provenance_for demo_issue_reserving)
  then have r1: "agent_reaches demo_handler tracking_ops race_start ?c1"
    by (rule reach_step [OF reach_start])
  have "agent_steps_to demo_handler tracking_ops NoAnswer ?c1 ?c2"
    using enforce_step [of ?c1 "[]" demo_lease "[]" tracking_ops "Inr Allowed" "{demo_gpu}" demo_handler]
    by (simp add: race_start_def concurrent_new_def tracking_ops_def demo_lease_simps)
  with r1 have r2: "agent_reaches demo_handler tracking_ops race_start ?c2"
    by (rule reach_step)
  have fin: "snd (finish_request 100 demo_lease (Inr Allowed) ?ls1) = demo_granted_state"
    by (simp add: finish_request_simps demo_lease_simps state_insert_def release_reservation_def
        reserve_def demo_granted_state_def demo_state_def state_new_def)
  have "agent_steps_to demo_handler tracking_ops
      (RequestAnswered 100 (snd (fst (finish_request 100 demo_lease (Inr Allowed) ?ls1)))) ?c2
      (?c2\<lparr>ca_now := 100, ca_enforced := [] @ [], ca_store := demo_granted_state\<rparr>)"
    by (rule finish_step [where r = "Inr Allowed" and l = demo_lease and
          reply = "fst (finish_request 100 demo_lease (Inr Allowed) ?ls1)"])
       (simp_all add: fin [symmetric] demo_issued_at)
  with r2 have "agent_reaches demo_handler tracking_ops race_start
      (?c2\<lparr>ca_now := 100, ca_enforced := [] @ [], ca_store := demo_granted_state\<rparr>)"
    by (rule reach_step)
  then show ?thesis
    by (simp add: race_start_def concurrent_new_def)
qed

lemma race_to_unenforced_lease:
  "agent_reaches demo_handler tracking_ops race_start
     (race_start\<lparr>ca_now := 100,
        ca_store := state_insert second_lease (removed_and_revoked (cl_id demo_lease) race_store),
        ca_backend := {}\<rparr>)"
proof -
  let ?c0 = "race_start\<lparr>ca_now := 100, ca_store := demo_granted_state, ca_backend := {demo_gpu}\<rparr>"
  let ?c1 = "?c0\<lparr>ca_now := 100, ca_store := race_store, ca_issued := [second_lease]\<rparr>"
  let ?c2 = "?c1\<lparr>ca_issued := [] @ [], ca_enforced := [(second_lease, Inr Allowed)], ca_backend := {demo_gpu}\<rparr>"
  let ?released = "removed_and_revoked (cl_id demo_lease) race_store"
  let ?c3 = "?c2\<lparr>ca_now := 100, ca_store := ?released, ca_backend := {}\<rparr>"
  have idle: "ca_issued race_start = []" "ca_enforced race_start = []"
    by (simp_all add: race_start_def concurrent_new_def)
  have "agent_steps_to demo_handler tracking_ops NoAnswer ?c0
      (?c0\<lparr>ca_now := 100, ca_store := race_store, ca_issued := second_lease # ca_issued ?c0\<rparr>)"
    by (rule issue_step [where peer = demo_peer and obs = demo_context and rq = demo_lease_request])
       (simp_all add: demo_provenance_for second_issue race_store_def)
  with race_to_first_grant have r1: "agent_reaches demo_handler tracking_ops race_start ?c1"
    unfolding idle by (simp add: idle reach_step)
  have "agent_steps_to demo_handler tracking_ops NoAnswer ?c1
      (?c1\<lparr>ca_issued := [] @ [], ca_enforced := (second_lease, Inr Allowed) # ca_enforced ?c1,
           ca_backend := {demo_gpu}\<rparr>)"
    by (rule enforce_step) (simp_all add: tracking_ops_def second_lease_simps)
  with r1 have r2: "agent_reaches demo_handler tracking_ops race_start ?c2"
    by (simp add: idle reach_step)
  have "agent_steps_to demo_handler tracking_ops
      (ReleaseAnswered 100 (rr_lease_id \<lparr>rr_lease_id = cl_id demo_lease\<rparr>) demo_peer
         (snd (fst (handle_release_lease tracking_ops 100 \<lparr>rr_lease_id = cl_id demo_lease\<rparr>
           demo_peer (race_store, {demo_gpu}))))) ?c2 ?c3"
    by (rule release_step [where rr = "\<lparr>rr_lease_id = cl_id demo_lease\<rparr>" and peer = demo_peer
          and reply = "fst (handle_release_lease tracking_ops 100 \<lparr>rr_lease_id = cl_id demo_lease\<rparr>
                         demo_peer (race_store, {demo_gpu}))"])
       (simp_all add: race_release [symmetric])
  with r2 have r3: "agent_reaches demo_handler tracking_ops race_start ?c3"
    by (rule reach_step)
  have fin: "snd (finish_request 100 second_lease (Inr Allowed) ?released) = state_insert second_lease ?released"
    by (simp add: finish_request_simps second_lease_simps)
  have "agent_steps_to demo_handler tracking_ops
      (RequestAnswered 100 (snd (fst (finish_request 100 second_lease (Inr Allowed) ?released)))) ?c3
      (?c3\<lparr>ca_now := 100, ca_enforced := [] @ [], ca_store := state_insert second_lease ?released\<rparr>)"
    by (rule finish_step [where r = "Inr Allowed" and l = second_lease and
          reply = "fst (finish_request 100 second_lease (Inr Allowed) ?released)"])
       (simp_all add: fin [symmetric] demo_issued_at)
  with r3 have "agent_reaches demo_handler tracking_ops race_start
      (?c3\<lparr>ca_now := 100, ca_enforced := [] @ [], ca_store := state_insert second_lease ?released\<rparr>)"
    by (rule reach_step)
  then show ?thesis
    by (simp add: race_start_def concurrent_new_def)
qed

section \<open>Properties\<close>

text \<open>C10. The bookkeeping survives every interleaving: however issues, enforcements, panics, finishes
  and releases of any number of connections interleave, the leases outstanding and in flight never
  exceed the configured bound, the reservations are exactly the requests in flight plus those a
  panic lost, every stored lease is issued by this instance and not revoked, and no two leases
  stored or in flight share an identifier.\<close>

theorem concurrent_bookkeeping:
  assumes "handler_new inst policy config = (h, ls0)"
    and "agent_reaches h ops (concurrent_new ls0 b0) ca"
  shows "length (ls_leases (ca_store ca)) + length (in_flight ca) + ca_leaked ca
      \<le> ac_max_outstanding_leases config \<and>
    ls_reserved (ca_store ca) = length (in_flight ca) + ca_leaked ca \<and>
    (\<forall>(lid, l)\<in>set (ls_leases (ca_store ca)). lease_stored_ok (ls_issuer (ca_store ca)) lid l) \<and>
    distinct (map fst (ls_leases (ca_store ca)) @ map cl_id (in_flight ca))"
proof -
  have new: "state_ok ls0" "ls_reserved ls0 = 0"
    "ls_max_outstanding ls0 = ac_max_outstanding_leases config"
    using handler_new_state [OF assms(1)] by simp_all
  have "concurrent_ok (concurrent_new ls0 b0)"
    using new(1,2) by (rule concurrent_ok_new)
  from agent_reaches_ok [OF assms(2) this] have ok: "concurrent_ok ca" .
  have "ls_max_outstanding (ca_store ca) = ac_max_outstanding_leases config"
    using agent_reaches_leaked [OF assms(2)] new by (simp add: concurrent_new_def)
  moreover have "set (map fst (ls_leases (ca_store ca))) \<inter> set (map cl_id (in_flight ca)) = {}"
  proof -
    have "cl_id l \<notin> fst ` set (ls_leases (ca_store ca))" if "l \<in> set (in_flight ca)" for l
      using ok that by (simp add: concurrent_ok_def state_get_def map_of_eq_None_iff)
    then have "cl_id ` set (in_flight ca) \<subseteq> - fst ` set (ls_leases (ca_store ca))"
      by (intro image_subsetI) simp
    then show ?thesis by (simp only: set_map) (simp only: disjoint_eq_subset_Compl Int_commute [of "fst ` _"])
  qed
  ultimately show ?thesis
    using ok by (auto simp: concurrent_ok_def state_ok_def keys_distinct_def)
qed

lemma concurrent_bookkeeping_witness:
  "length (ls_leases (ca_store race_start)) \<le> 2"
proof -
  have "handler_new ''agent-1'' demo_policy \<lparr>ac_lease_ttl = 30, ac_max_outstanding_leases = 2\<rparr> =
      (demo_handler, demo_state)"
    by (simp add: handler_new_def demo_handler_def demo_state_def)
  from concurrent_bookkeeping [OF this, of tracking_ops "{}" race_start] show ?thesis
    by (simp add: race_start_def reach_start)
qed

text \<open>One request at a time, enforcement is never lost: after any sequence of requests served one
  after the other, every stored lease's resource is still enforced by the backend, although
  releases tear enforcement down.\<close>

theorem sequential_enforcement_kept:
  assumes "handler_new inst policy config = (h, ls0)" and "length calls < 2 ^ 64"
    and "fold (agent_step h tracking_ops) calls (ls0, {}) = (ls, b)"
  shows "\<forall>(lid, l)\<in>set (ls_leases ls). lease_resource l \<in> b"
proof -
  have "state_ok ls0" "counter_room ls0 (length calls)" "leases_enforced ls0 {}"
    using handler_new_state [OF assms(1)] assms(2) by (simp_all add: counter_room_def leases_enforced_def)
  then show ?thesis
    using history_keeps_enforced [of "(ls0, {})" calls h] assms(3) by (simp add: leases_enforced_def)
qed

lemma sequential_enforcement_kept_witness:
  "fold (agent_step demo_handler tracking_ops)
     [(100, 110, RequestLease demo_lease_request, demo_peer)] (demo_state, {}) =
     (demo_granted_state, {demo_gpu}) \<and> lease_resource demo_lease \<in> {demo_gpu}"
proof -
  have new: "handler_new ''agent-1'' demo_policy \<lparr>ac_lease_ttl = 30, ac_max_outstanding_leases = 2\<rparr> =
      (demo_handler, demo_state)"
    by (simp add: handler_new_def demo_handler_def demo_state_def)
  have run: "fold (agent_step demo_handler tracking_ops)
      [(100, 110, RequestLease demo_lease_request, demo_peer)] (demo_state, {}) =
      (demo_granted_state, {demo_gpu})"
    by (simp add: agent_step_def handle_state handle_request_lease_def demo_provenance_for
        demo_issue_reserving tracking_ops_def demo_lease_simps finish_request_simps state_insert_def
        release_reservation_def reserve_def)
       (simp add: demo_granted_state_def demo_state_def state_new_def demo_lease_simps)
  show ?thesis
    using sequential_enforcement_kept [OF new _ run] run by (simp add: demo_granted_state_def)
qed

text \<open>C38. Concurrently, it can be lost: there is an interleaving of two connections after which a lease
  that was granted, is stored, and is unexpired names a resource the backend no longer enforces.
  The second request is between its enforcement and its insertion when the holder of the first
  lease releases it; the release sees no other stored lease for the resource and revokes the
  backend, then the second lease is stored.\<close>

theorem granted_lease_can_lose_enforcement:
  "\<exists>ca lid l. agent_reaches demo_handler tracking_ops race_start ca \<and>
     state_get (ca_store ca) lid = Some l \<and> ca_now ca < cl_expires_at l \<and>
     lease_resource l \<notin> ca_backend ca \<and> in_flight ca = []"
proof -
  let ?ca = "race_start\<lparr>ca_now := 100,
        ca_store := state_insert second_lease (removed_and_revoked (cl_id demo_lease) race_store),
        ca_backend := {}\<rparr>"
  have "state_get (ca_store ?ca) (cl_id second_lease) = Some second_lease"
    "ca_now ?ca < cl_expires_at second_lease" "lease_resource second_lease \<notin> ca_backend ?ca"
    "in_flight ?ca = []"
    by (simp_all add: state_get_def second_lease_simps in_flight_def race_start_def concurrent_new_def)
  then show ?thesis
    using race_to_unenforced_lease by meson
qed

text \<open>A revocation that panics leaves the backend's enforcement in place for a lease that is gone: there is a
  run after which no lease is stored, in flight or lost, and the backend still enforces the resource. No
  later release reaches it, because none finds a lease.\<close>

theorem panicked_revocation_leaves_enforcement:
  "\<exists>ca. agent_reaches demo_handler tracking_ops race_start ca \<and> ls_leases (ca_store ca) = [] \<and>
     in_flight ca = [] \<and> ca_leaked ca = 0 \<and> demo_gpu \<in> ca_backend ca"
proof -
  let ?c0 = "race_start\<lparr>ca_now := 100, ca_store := demo_granted_state, ca_backend := {demo_gpu}\<rparr>"
  let ?rr = "\<lparr>rr_lease_id = cl_id demo_lease\<rparr>"
  let ?gone = "removed_and_revoked (cl_id demo_lease) demo_granted_state"
  have store: "ls_leases demo_granted_state = [(cl_id demo_lease, demo_lease)]"
    by (simp add: demo_granted_state_def)
  have ok: "state_ok demo_granted_state"
    by (simp add: demo_granted_state_def demo_state_def state_new_def issuer_new_def
        state_ok_def keys_distinct_def issuer_ok_def lease_stored_ok_def demo_lease_simps)
  have pruned: "prune 100 demo_granted_state = demo_granted_state"
    by (simp add: prune_def store demo_lease_simps)
  have holder: "holder_may_release demo_granted_state 100 (cl_id demo_lease) demo_peer"
    by (simp add: holder_may_release_def state_get_def store demo_lease_simps)
       (simp add: demo_provenance_def compare_process_refl compare_executable_refl
          demo_context_def demo_workload_def)
  obtain reply b where released: "handle_release_lease tracking_ops 100 ?rr demo_peer
      (demo_granted_state, {demo_gpu}) = (reply, (?gone, b))" "snd reply = LeaseReleased Released"
    using holder by (simp add: release_equation [OF ok] Let_def split_beta pruned)
  have alone: "\<not> any_other_live_lease_for_same_resource (prune 100 demo_granted_state) (rr_lease_id ?rr)"
    by (auto simp: any_other_iff pruned state_get_def store split: if_splits)
  have "agent_steps_to demo_handler tracking_ops (ReleasePanicked 100 (rr_lease_id ?rr) demo_peer) ?c0
      (?c0\<lparr>ca_now := 100, ca_store := ?gone\<rparr>)"
    by (rule release_panic_step [OF _ _ released(2)]) (use released(1) alone in simp_all)
  from reach_step [OF race_to_first_grant this] show ?thesis
    by (intro exI conjI, assumption)
       (simp_all add: removed_and_revoked_def store in_flight_def race_start_def concurrent_new_def)
qed

text \<open>A reservation lost to a panic is lost for good: once as many panics as the capacity have hit
  the backend's enforcement, no lease request is ever admitted again, whatever happens later.\<close>

theorem leaked_reservations_are_permanent:
  assumes "handler_new inst policy config = (h, ls0)"
    and "agent_reaches h ops (concurrent_new ls0 b0) ca"
    and "ac_max_outstanding_leases config \<le> ca_leaked ca"
    and "agent_reaches h ops ca ca'"
  shows "fst (issue_reserving_capacity h now prov (ca_store ca')) =
    Inl (CapacityExhausted (ah_max_outstanding_leases h))"
proof -
  have new: "state_ok ls0" "ls_reserved ls0 = 0"
    "ls_max_outstanding ls0 = ac_max_outstanding_leases config"
    using handler_new_state [OF assms(1)] by simp_all
  have "concurrent_ok (concurrent_new ls0 b0)"
    using new(1,2) by (rule concurrent_ok_new)
  from agent_reaches_ok [OF assms(4) agent_reaches_ok [OF assms(2) this]]
  have "concurrent_ok ca'" .
  then have "ca_leaked ca' \<le> ls_reserved (ca_store ca')"
    by (simp add: concurrent_ok_def)
  moreover have "ca_leaked ca \<le> ca_leaked ca'"
    "ls_max_outstanding (ca_store ca') = ac_max_outstanding_leases config"
    using agent_reaches_leaked [OF assms(4)] agent_reaches_leaked [OF assms(2)] new
    by (simp_all add: concurrent_new_def)
  ultimately show ?thesis
    using assms(3) by (simp add: issue_reserving_capacity_def Let_def is_at_capacity_def)
qed

lemma leaked_reservations_are_permanent_witness:
  "fst (issue_reserving_capacity (demo_handler\<lparr>ah_max_outstanding_leases := 1\<rparr>) 200 demo_provenance
     (reserve (demo_state\<lparr>ls_issuer := (ls_issuer demo_state)\<lparr>li_next_sequence := 1\<rparr>,
                          ls_max_outstanding := 1\<rparr>))) = Inl (CapacityExhausted 1)"
proof -
  let ?h = "demo_handler\<lparr>ah_max_outstanding_leases := 1\<rparr>"
  let ?ls0 = "demo_state\<lparr>ls_max_outstanding := 1\<rparr>"
  let ?ls1 = "reserve (demo_state\<lparr>ls_issuer := (ls_issuer demo_state)\<lparr>li_next_sequence := 1\<rparr>,
                        ls_max_outstanding := 1\<rparr>)"
  let ?c0 = "concurrent_new ?ls0 ({} :: resource_identity set)"
  let ?c1 = "?c0\<lparr>ca_now := 100, ca_store := ?ls1, ca_issued := demo_lease # ca_issued ?c0\<rparr>"
  let ?c2 = "?c1\<lparr>ca_issued := [] @ [], ca_leaked := ca_leaked ?c1 + 1\<rparr>"
  have new: "handler_new ''agent-1'' demo_policy \<lparr>ac_lease_ttl = 30, ac_max_outstanding_leases = 1\<rparr> =
      (?h, ?ls0)"
    by (simp add: handler_new_def demo_handler_def demo_state_def state_new_def)
  have "issue (ls_issuer demo_state) demo_policy demo_provenance 100 30 =
      (Inr demo_lease, (ls_issuer demo_state)\<lparr>li_next_sequence := 1\<rparr>)"
    by (simp add: issue_Inr_iff demo_lease_def demo_provenance_def demo_allowed demo_state_def
        state_new_def issuer_new_def time_checked_add_Some)
  then have "issue_reserving_capacity ?h 100 demo_provenance ?ls0 = (Inr demo_lease, ?ls1)"
    by (simp add: issue_cap_Inr demo_handler_def is_at_capacity_def prune_def)
       (simp add: demo_state_def state_new_def)
  then have "agent_steps_to ?h tracking_ops NoAnswer ?c0 ?c1"
    by (intro issue_step [where peer = demo_peer and obs = demo_context and rq = demo_lease_request])
       (simp_all add: concurrent_new_def demo_provenance_for counter_room_def demo_state_def
          state_new_def issuer_new_def)
  then have r1: "agent_reaches ?h tracking_ops ?c0 ?c1"
    by (rule reach_step [OF reach_start])
  have "agent_steps_to ?h tracking_ops NoAnswer ?c1 ?c2"
    by (rule panic_step) (simp add: concurrent_new_def)
  with r1 have r2: "agent_reaches ?h tracking_ops ?c0 ?c2"
    by (rule reach_step)
  show ?thesis
    using leaked_reservations_are_permanent [OF new r2 _ reach_start, of 200 demo_provenance]
    by (simp add: concurrent_new_def)
qed

end
