(* ===== verification/Eltanin_Ledger.thy ===== *)
theory Eltanin_Ledger
  imports Eltanin_Authz_Concurrent
begin

text \<open>
  What the agent promises its clients, as a ledger: leases are granted once, live until they are
  released by their holder or expire, and never exceed a bound. The ledger knows nothing of
  reservations, sequence numbers, revocations, pruning or locks. The interleaved agent of
  \<open>Eltanin_Authz_Concurrent\<close> refines it: every interleaving is a run of the ledger with the same
  answers, whose live leases are the stored leases that are unexpired by the agent's clock. A
  sequence of requests served one after the other is one of these interleavings.
\<close>

section \<open>The ledger\<close>

definition unexpired ::
  "monotonic_time \<Rightarrow> (lease_id \<Rightarrow> compute_lease option) \<Rightarrow> lease_id \<Rightarrow> compute_lease option" where
  "unexpired now m lid =
     (case m lid of None \<Rightarrow> None | Some l \<Rightarrow> if now < cl_expires_at l then Some l else None)"

record lease_ledger =
  lg_now :: monotonic_time
  lg_live :: "lease_id \<Rightarrow> compute_lease option"
  lg_spent :: "lease_id set"

definition ledger_start :: lease_ledger where
  "ledger_start = \<lparr>lg_now = 0, lg_live = (\<lambda>_. None), lg_spent = {}\<rparr>"

text \<open>The ledger when the clock has reached a later reading.\<close>

definition ledger_at :: "monotonic_time \<Rightarrow> lease_ledger \<Rightarrow> lease_ledger" where
  "ledger_at now g = g\<lparr>lg_now := now, lg_live := unexpired now (lg_live g)\<rparr>"

text \<open>A grant rests on a reading of the clock that may be older than the moment of the grant; what is
  live is judged at that moment.\<close>

datatype ledger_event =
    LedgerIdle
  | LedgerGrant monotonic_time lease_id nat
  | LedgerRelease monotonic_time lease_id peer_context

text \<open>A peer holds a lease when it is the process, running the executable, it was granted to.\<close>

definition holds_lease :: "peer_context \<Rightarrow> compute_lease \<Rightarrow> bool" where
  "holds_lease peer l \<longleftrightarrow>
     (case authorizable peer of
        None \<Rightarrow> False
      | Some obs \<Rightarrow>
          compare_process (ec_workload (prov_context (cl_origin l))) (ec_workload obs) = Same \<and>
          compare_executable (ec_workload (prov_context (cl_origin l))) (ec_workload obs) = Same)"

inductive ledger_moves_to ::
  "authorization_handler \<Rightarrow> ledger_event \<Rightarrow> lease_ledger \<Rightarrow> lease_ledger \<Rightarrow> bool"
  for h :: authorization_handler
where
  ledger_idle:
    "lg_now g \<le> now \<Longrightarrow> ledger_moves_to h LedgerIdle g (ledger_at now g)"
| ledger_grant:
    "\<lbrakk>lg_now g \<le> now; g0 = ledger_at now g; cl_id l \<notin> lg_spent g; lease_justified h l;
      cl_issued_at l \<le> reading; reading \<le> now; reading < cl_expires_at l;
      card (dom (lg_live g0)) < ah_max_outstanding_leases h;
      remaining = unat (cl_expires_at l) - unat reading\<rbrakk> \<Longrightarrow>
     ledger_moves_to h (LedgerGrant reading (cl_id l) remaining) g
       (g0\<lparr>lg_live := unexpired now ((lg_live g0)(cl_id l \<mapsto> l)),
           lg_spent := insert (cl_id l) (lg_spent g0)\<rparr>)"
| ledger_release:
    "\<lbrakk>lg_now g \<le> now; g0 = ledger_at now g; lg_live g0 lid = Some l; holds_lease peer l\<rbrakk> \<Longrightarrow>
     ledger_moves_to h (LedgerRelease now lid peer) g
       (g0\<lparr>lg_live := (lg_live g0)(lid := None)\<rparr>)"

inductive ledger_runs ::
  "authorization_handler \<Rightarrow> lease_ledger \<Rightarrow> ledger_event list \<Rightarrow> lease_ledger \<Rightarrow> bool"
  for h :: authorization_handler and g0 :: lease_ledger
where
  ledger_runs_start: "ledger_runs h g0 [] g0"
| ledger_runs_step:
    "\<lbrakk>ledger_runs h g0 es g; ledger_moves_to h e g g'\<rbrakk> \<Longrightarrow> ledger_runs h g0 (es @ [e]) g'"

section \<open>What the ledger says of its answers\<close>

fun granted_id :: "ledger_event \<Rightarrow> lease_id option" where
  "granted_id (LedgerGrant now lid remaining) = Some lid"
| "granted_id _ = None"

definition granted_ids :: "ledger_event list \<Rightarrow> lease_id list" where
  "granted_ids es = List.map_filter granted_id es"

definition released_ids :: "ledger_event list \<Rightarrow> lease_id set" where
  "released_ids es = {lid. \<exists>now peer. LedgerRelease now lid peer \<in> set es}"

lemma granted_ids_simps [simp]:
  "granted_ids [] = []"
  "granted_ids (es @ [e]) = granted_ids es @ (case granted_id e of None \<Rightarrow> [] | Some lid \<Rightarrow> [lid])"
  by (simp_all add: granted_ids_def map_filter_def split: option.splits)

lemma released_ids_simps [simp]:
  "released_ids [] = {}"
  "released_ids (es @ [LedgerIdle]) = released_ids es"
  "released_ids (es @ [LedgerGrant now lid r]) = released_ids es"
  "released_ids (es @ [LedgerRelease now lid peer]) = insert lid (released_ids es)"
  by (auto simp: released_ids_def)

lemma granted_ids_mem: "lid \<in> set (granted_ids es) \<longleftrightarrow> (\<exists>now r. LedgerGrant now lid r \<in> set es)"
proof -
  have "granted_id e = Some lid \<longleftrightarrow> (\<exists>now r. e = LedgerGrant now lid r)" for e
    by (cases e) auto
  then show ?thesis
    by (force simp: granted_ids_def map_filter_def)
qed

lemma unexpired_Some [simp]:
  "unexpired now m lid = Some l \<longleftrightarrow> m lid = Some l \<and> now < cl_expires_at l"
  by (auto simp: unexpired_def split: option.splits)

lemma unexpired_None: "m lid = None \<Longrightarrow> unexpired now m lid = None"
  by (simp add: unexpired_def)

lemma unexpired_later: "t \<le> now \<Longrightarrow> unexpired now (unexpired t m) = unexpired now m"
  by (rule ext) (auto simp: unexpired_def split: option.splits)

lemma unexpired_upd:
  "now < cl_expires_at l \<Longrightarrow> unexpired now (m(lid \<mapsto> l)) = (unexpired now m)(lid \<mapsto> l)"
  "unexpired now (m(lid := None)) = (unexpired now m)(lid := None)"
  by (auto simp: unexpired_def)

lemma unexpired_upd_eq:
  "unexpired now (m(lid \<mapsto> l)) =
     (if now < cl_expires_at l then (unexpired now m)(lid \<mapsto> l) else (unexpired now m)(lid := None))"
  by (auto simp: unexpired_def)

lemma ledger_at_simps [simp]:
  "lg_now (ledger_at now g) = now" "lg_live (ledger_at now g) = unexpired now (lg_live g)"
  "lg_spent (ledger_at now g) = lg_spent g"
  by (simp_all add: ledger_at_def)

definition live_until :: "(lease_id \<Rightarrow> compute_lease option) \<Rightarrow> lease_id \<Rightarrow> nat \<Rightarrow> bool" where
  "live_until m lid e \<longleftrightarrow> (\<exists>l. m lid = Some l \<and> unat (cl_expires_at l) = e)"

definition granted_until :: "ledger_event list \<Rightarrow> lease_id \<Rightarrow> nat \<Rightarrow> bool" where
  "granted_until es lid e \<longleftrightarrow> (\<exists>now r. LedgerGrant now lid r \<in> set es \<and> unat now + r = e)"

lemma live_until_simps [simp]:
  "live_until (unexpired now m) lid e \<longleftrightarrow> live_until m lid e \<and> unat now < e"
  "live_until (m(lid' := None)) lid e \<longleftrightarrow> live_until m lid e \<and> lid \<noteq> lid'"
  "live_until (m(lid' \<mapsto> l)) lid e \<longleftrightarrow>
     (if lid = lid' then e = unat (cl_expires_at l) else live_until m lid e)"
  by (auto simp: live_until_def word_less_nat_alt)

lemma granted_until_simps [simp]:
  "\<not> granted_until [] lid e"
  "granted_until (es @ [LedgerIdle]) lid e = granted_until es lid e"
  "granted_until (es @ [LedgerRelease now lid' peer]) lid e = granted_until es lid e"
  "granted_until (es @ [LedgerGrant now lid' r]) lid e \<longleftrightarrow>
     granted_until es lid e \<or> lid' = lid \<and> unat now + r = e"
  by (auto simp: granted_until_def)

lemma granted_until_mem: "granted_until es lid e \<Longrightarrow> lid \<in> set (granted_ids es)"
  by (auto simp: granted_until_def granted_ids_mem)

text \<open>What is live is what was granted, not released and not past its expiry; what was ever granted
  is spent; nothing is granted twice, and only what was granted is released.\<close>

definition ledger_accounts :: "ledger_event list \<Rightarrow> lease_ledger \<Rightarrow> bool" where
  "ledger_accounts es g \<longleftrightarrow>
     lg_spent g = set (granted_ids es) \<and> distinct (granted_ids es) \<and>
     released_ids es \<subseteq> set (granted_ids es) \<and>
     (\<forall>lid e. live_until (lg_live g) lid e \<longleftrightarrow>
        granted_until es lid e \<and> lid \<notin> released_ids es \<and> unat (lg_now g) < e)"

lemma ledger_accounts_later:
  assumes "ledger_accounts es g" and "lg_now g \<le> now"
  shows "ledger_accounts es (ledger_at now g)"
proof -
  have "unat (lg_now g) \<le> unat now" using assms(2) by (simp add: word_le_nat_alt)
  then show ?thesis
    using assms(1) by (auto simp: ledger_accounts_def)
qed

lemma ledger_move_accounts:
  assumes "ledger_moves_to h e g g'" and "ledger_accounts es g"
  shows "ledger_accounts (es @ [e]) g'"
  using assms(1)
proof (cases rule: ledger_moves_to.cases)
  case (ledger_idle now)
  with ledger_accounts_later [OF assms(2), of now] show ?thesis
    by (simp add: ledger_accounts_def)
next
  case (ledger_grant now g0 l reading remaining)
  have acc: "ledger_accounts es g0"
    using ledger_accounts_later [OF assms(2) ledger_grant(3)] ledger_grant(4) by simp
  have fresh: "cl_id l \<notin> set (granted_ids es)" "cl_id l \<notin> released_ids es"
    using assms(2) ledger_grant(5) by (auto simp: ledger_accounts_def)
  have "\<not> granted_until es (cl_id l) x" for x
    using fresh(1) granted_until_mem by blast
  moreover have "unat reading < unat (cl_expires_at l)"
    using ledger_grant(9) by (simp add: word_less_nat_alt)
  ultimately show ?thesis
    using acc fresh ledger_grant(4) by (auto simp: ledger_accounts_def ledger_grant(1,2,11))
next
  case (ledger_release now g0 lid l peer)
  have acc: "ledger_accounts es g0"
    using ledger_accounts_later [OF assms(2) ledger_release(3)] ledger_release(4) by simp
  have "live_until (lg_live g0) lid (unat (cl_expires_at l))"
    using ledger_release(5) by (auto simp: live_until_def)
  then have "lid \<in> set (granted_ids es)"
    using acc granted_until_mem by (auto simp: ledger_accounts_def)
  then show ?thesis
    using acc by (auto simp: ledger_accounts_def ledger_release(1,2))
qed

lemma ledger_runs_accounts:
  "ledger_runs h g0 es g \<Longrightarrow> ledger_accounts [] g0 \<Longrightarrow> ledger_accounts es g"
  by (induction rule: ledger_runs.induct) (auto intro: ledger_move_accounts)

lemma ledger_start_accounts: "ledger_accounts [] ledger_start"
  by (simp add: ledger_accounts_def ledger_start_def live_until_def)

section \<open>The agent as a run of the ledger\<close>

inductive agent_traces ::
  "authorization_handler \<Rightarrow> 'b backend_ops \<Rightarrow> 'b concurrent_agent \<Rightarrow> agent_answer list \<Rightarrow>
     'b concurrent_agent \<Rightarrow> bool"
  for h :: authorization_handler and ops :: "'b backend_ops" and ca0 :: "'b concurrent_agent"
where
  trace_start: "agent_traces h ops ca0 [] ca0"
| trace_step:
    "\<lbrakk>agent_traces h ops ca0 tr ca; agent_steps_to h ops ans ca ca'\<rbrakk> \<Longrightarrow>
     agent_traces h ops ca0 (tr @ [ans]) ca'"

lemma agent_traces_reaches: "agent_traces h ops ca0 tr ca \<Longrightarrow> agent_reaches h ops ca0 ca"
  by (induction rule: agent_traces.induct) (auto intro: agent_reaches.intros)

lemma agent_reaches_traces: "agent_reaches h ops ca0 ca \<Longrightarrow> \<exists>tr. agent_traces h ops ca0 tr ca"
  by (induction rule: agent_reaches.induct) (blast intro: agent_traces.intros)+

text \<open>The ledger's event in an answer: a granted lease and a release, also one whose revocation panicked;
  every other answer is idle.\<close>

fun ledger_event_of :: "agent_answer \<Rightarrow> ledger_event" where
  "ledger_event_of (RequestAnswered now (LeaseGranted v)) =
     LedgerGrant now (lv_lease_id v) (lv_remaining v)"
| "ledger_event_of (ReleaseAnswered now lid peer (LeaseReleased Released)) =
     LedgerRelease now lid peer"
| "ledger_event_of (ReleasePanicked now lid peer) = LedgerRelease now lid peer"
| "ledger_event_of _ = LedgerIdle"

definition live_leases :: "'b concurrent_agent \<Rightarrow> lease_id \<Rightarrow> compute_lease option" where
  "live_leases ca = unexpired (ca_now ca) (state_get (ca_store ca))"

text \<open>The simulation: the same clock and live leases, and every spent identifier is one the issuer
  has passed and no request in flight carries. With it, what the agent keeps besides its
  bookkeeping invariant.\<close>

definition refines_ledger :: "authorization_handler \<Rightarrow> 'b concurrent_agent \<Rightarrow> lease_ledger \<Rightarrow> bool" where
  "refines_ledger h ca g \<longleftrightarrow>
     lg_now g = ca_now ca \<and> lg_live g = live_leases ca \<and>
     (\<forall>lid\<in>lg_spent g.
        lid_sequence lid < li_next_sequence (ls_issuer (ca_store ca)) \<and>
        lid \<notin> cl_id ` set (in_flight ca))"

definition flights_justified :: "authorization_handler \<Rightarrow> 'b concurrent_agent \<Rightarrow> bool" where
  "flights_justified h ca \<longleftrightarrow>
     concurrent_ok ca \<and> ls_max_outstanding (ca_store ca) = ah_max_outstanding_leases h \<and>
     (\<forall>l\<in>set (in_flight ca). lease_justified h l \<and> cl_issued_at l \<le> ca_now ca)"

lemma flights_justified_new:
  assumes "handler_new inst policy config = (h, ls0)"
  shows "flights_justified h (concurrent_new ls0 b0)"
proof -
  have "ls_max_outstanding ls0 = ah_max_outstanding_leases h"
    using assms by (auto simp: handler_new_def state_new_def)
  moreover have "concurrent_ok (concurrent_new ls0 b0)"
    using handler_new_state [OF assms] by (simp add: concurrent_ok_new)
  ultimately show ?thesis
    by (simp add: flights_justified_def concurrent_new_def in_flight_def)
qed

lemma refines_ledger_new:
  "handler_new inst policy config = (h, ls0) \<Longrightarrow> refines_ledger h (concurrent_new ls0 b0) ledger_start"
  by (drule handler_new_state)
     (auto simp: refines_ledger_def concurrent_new_def ledger_start_def live_leases_def
        unexpired_def state_get_def)

lemma live_prune:
  assumes "keys_distinct (ls_leases ls)" and "t \<le> now"
  shows "unexpired now (state_get (prune now ls)) = unexpired now (unexpired t (state_get ls))"
proof -
  have "unexpired now (state_get (prune now ls)) lid = Some l \<longleftrightarrow> unexpired now (state_get ls) lid = Some l"
    for lid l by (auto simp: state_get_prune [OF assms(1)])
  then have "unexpired now (state_get (prune now ls)) lid = unexpired now (state_get ls) lid" for lid
    by (metis option.exhaust)
  then have "unexpired now (state_get (prune now ls)) = unexpired now (state_get ls)"
    by (rule ext)
  then show ?thesis
    by (simp add: unexpired_later [OF assms(2)])
qed

lemma state_get_insert: "state_get (state_insert l ls) = (state_get ls)(cl_id l \<mapsto> l)"
  by (rule ext) (simp add: state_get_def update_conv')

lemma state_get_compensate [simp]: "state_get (compensate lid ls) = state_get ls"
  by (rule ext) (simp add: state_get_def)

lemma state_get_removed: "state_get (removed_and_revoked lid ls) = (state_get ls)(lid := None)"
  by (rule ext) (simp add: state_get_def removed_and_revoked_def delete_conv')

lemma state_get_cong: "ls_leases ls' = ls_leases ls \<Longrightarrow> state_get ls' = state_get ls"
  by (rule ext) (simp add: state_get_def)

lemma card_live_le:
  "card (dom (unexpired now (state_get ls))) \<le> length (ls_leases ls)"
proof -
  have "dom (unexpired now (state_get ls)) \<subseteq> fst ` set (ls_leases ls)"
    by (force simp: state_get_def dest: map_of_SomeD)
  then have "card (dom (unexpired now (state_get ls))) \<le> card (fst ` set (ls_leases ls))"
    by (intro card_mono) simp_all
  also have "\<dots> \<le> card (set (ls_leases ls))" by (rule card_image_le) simp
  also have "\<dots> \<le> length (ls_leases ls)" by (rule card_length)
  finally show ?thesis .
qed

text \<open>Each kind of step, against the ledger.\<close>

lemma refines_idle:
  assumes "refines_ledger h ca g" and "ca_now ca \<le> ca_now ca'"
    and "live_leases ca' = unexpired (ca_now ca') (live_leases ca)"
    and "li_next_sequence (ls_issuer (ca_store ca)) \<le> li_next_sequence (ls_issuer (ca_store ca'))"
    and "\<forall>l\<in>set (in_flight ca'). l \<in> set (in_flight ca) \<or>
           li_next_sequence (ls_issuer (ca_store ca)) \<le> lid_sequence (cl_id l)"
  shows "\<exists>g'. ledger_moves_to h LedgerIdle g g' \<and> refines_ledger h ca' g'"
proof (intro exI conjI)
  show "ledger_moves_to h LedgerIdle g (ledger_at (ca_now ca') g)"
    using assms(1,2) by (intro ledger_idle) (simp add: refines_ledger_def)
  show "refines_ledger h ca' (ledger_at (ca_now ca') g)"
    using assms by (force simp: refines_ledger_def)
qed

lemma issue_refines:
  assumes inv: "flights_justified h ca" and rel: "refines_ledger h ca g" and le: "ca_now ca \<le> now"
    and room: "counter_room (ca_store ca) 1"
    and issued: "issue_reserving_capacity h now prov (ca_store ca) = (Inr l, ls)"
  shows "\<exists>g'. ledger_moves_to h LedgerIdle g g' \<and>
    refines_ledger h (ca\<lparr>ca_now := now, ca_store := ls, ca_issued := l # ca_issued ca\<rparr>) g'"
proof -
  let ?ca = "ca\<lparr>ca_now := now, ca_store := ls, ca_issued := l # ca_issued ca\<rparr>"
  have ok: "state_ok (ca_store ca)"
    using inv by (simp add: flights_justified_def concurrent_ok_def)
  have leases: "ls_leases ls = ls_leases (prune now (ca_store ca))"
    using issue_cap_pending [OF ok room issued] by blast
  from issued have seq: "lid_sequence (cl_id l) = li_next_sequence (ls_issuer (ca_store ca))"
    and iss: "ls_issuer ls = (ls_issuer (ca_store ca))\<lparr>li_next_sequence :=
      li_next_sequence (ls_issuer (ca_store ca)) + 1\<rparr>"
    by (auto simp: issue_cap_Inr issue_Inr_iff)
  have later: "li_next_sequence (ls_issuer (ca_store ca)) \<le> li_next_sequence (ls_issuer ls)"
    using room by (simp add: iss counter_room_def word_le_nat_alt unat_u64_Suc)
  show ?thesis
    by (rule refines_idle [OF rel])
       (use le later seq in \<open>auto simp: live_leases_def state_get_cong [OF leases]
          live_prune [OF state_ok_keys [OF ok]] in_flight_def\<close>)
qed

lemma refuse_refines:
  assumes inv: "flights_justified h ca" and rel: "refines_ledger h ca g" and le: "ca_now ca \<le> now"
    and refused: "issue_reserving_capacity h now prov (ca_store ca) = (Inl f, ls)"
  shows "\<exists>g'. ledger_moves_to h LedgerIdle g g' \<and>
    refines_ledger h (ca\<lparr>ca_now := now, ca_store := ls\<rparr>) g'"
proof -
  have ok: "state_ok (ca_store ca)"
    using inv by (simp add: flights_justified_def concurrent_ok_def)
  have ls: "ls = prune now (ca_store ca)" by (rule issue_cap_Inl_state [OF refused])
  show ?thesis
    by (rule refines_idle [OF rel])
       (use le in \<open>simp_all add: ls live_leases_def live_prune [OF state_ok_keys [OF ok]]
          in_flight_def\<close>)
qed

lemma finish_refines:
  assumes inv: "flights_justified h ca" and rel: "refines_ledger h ca g" and le: "ca_now ca \<le> now"
    and read: "cl_issued_at l \<le> reading" "reading \<le> now"
    and enforced: "ca_enforced ca = xs @ (l, r) # ys"
    and fin: "finish_request reading l r (ca_store ca) = (reply, ls)"
  shows "\<exists>g'. ledger_moves_to h (ledger_event_of (RequestAnswered reading (snd reply))) g g' \<and>
    refines_ledger h (ca\<lparr>ca_now := now, ca_enforced := xs @ ys, ca_store := ls\<rparr>) g'"
proof (cases "r = Inr Allowed \<and> reading < cl_expires_at l")
  case False
  have "snd reply = RespError Internal \<and> ls = compensate (cl_id l) (ca_store ca)"
    using fin False finish_request_simps(2) [of r reading l "ca_store ca"]
    by (cases "r = Inr Allowed") (auto simp: finish_request_simps(1))
  then have "ledger_event_of (RequestAnswered reading (snd reply)) = LedgerIdle"
    and ls: "ls = compensate (cl_id l) (ca_store ca)" by simp_all
  moreover have "\<exists>g'. ledger_moves_to h LedgerIdle g g' \<and>
      refines_ledger h (ca\<lparr>ca_now := now, ca_enforced := xs @ ys, ca_store := ls\<rparr>) g'"
    by (rule refines_idle [OF rel])
       (use le in \<open>auto simp: ls live_leases_def unexpired_later in_flight_def enforced\<close>)
  ultimately show ?thesis by simp
next
  case True
  then have ls: "ls = state_insert l (ca_store ca)" and reply: "ledger_event_of (RequestAnswered reading (snd reply)) =
      LedgerGrant reading (cl_id l) (unat (cl_expires_at l) - unat reading)"
    using fin by (auto simp: finish_request_simps)
  have flight: "l \<in> set (in_flight ca)" by (simp add: in_flight_def enforced)
  have cok: "concurrent_ok ca" using inv by (simp add: flights_justified_def)
  have pending: "lease_stored_ok (ls_issuer (ca_store ca)) (cl_id l) l" "cl_id l \<notin> lg_spent g"
    using cok rel flight by (auto simp: concurrent_ok_def refines_ledger_def)
  have room: "length (ls_leases (ca_store ca)) < ah_max_outstanding_leases h"
  proof -
    have "0 < ls_reserved (ca_store ca)"
      using cok flight by (auto simp: concurrent_ok_def)
    moreover have "length (ls_leases (ca_store ca)) + ls_reserved (ca_store ca) \<le> ah_max_outstanding_leases h"
      using inv by (simp add: flights_justified_def concurrent_ok_def state_ok_def)
    ultimately show ?thesis by simp
  qed
  have live: "unexpired now (lg_live g) = unexpired now (state_get (ca_store ca))"
    using rel le by (simp add: refines_ledger_def live_leases_def unexpired_later)
  let ?g0 = "ledger_at now g"
  let ?g = "?g0\<lparr>lg_live := unexpired now ((lg_live ?g0)(cl_id l \<mapsto> l)),
      lg_spent := insert (cl_id l) (lg_spent ?g0)\<rparr>"
  have "ledger_moves_to h (LedgerGrant reading (cl_id l) (unat (cl_expires_at l) - unat reading)) g ?g"
  proof (rule ledger_grant [OF _ refl])
    show "card (dom (lg_live (ledger_at now g))) < ah_max_outstanding_leases h"
      using room card_live_le [of now "ca_store ca"] by (simp add: live)
    show "lg_now g \<le> now" using rel le by (simp add: refines_ledger_def)
    show "lease_justified h l"
      using inv flight by (auto simp: flights_justified_def)
  qed (use True pending read in simp_all)
  moreover have "refines_ledger h (ca\<lparr>ca_now := now, ca_enforced := xs @ ys, ca_store := ls\<rparr>) ?g"
  proof -
    have "cl_id l \<notin> cl_id ` set (ca_issued ca @ map fst xs @ map fst ys)"
      using cok by (auto simp: concurrent_ok_def in_flight_def enforced image_iff)
    then show ?thesis
      using rel pending(1) True le
      by (auto simp: refines_ledger_def ls live_leases_def state_get_insert unexpired_upd_eq unexpired_later
          in_flight_def enforced lease_stored_ok_def)
  qed
  ultimately show ?thesis
    unfolding reply by blast
qed

lemma release_refines:
  assumes inv: "flights_justified h ca" and rel: "refines_ledger h ca g" and le: "ca_now ca \<le> now"
    and released: "handle_release_lease ops now rr peer (ca_store ca, ca_backend ca) = (reply, (ls, b))"
  shows "\<exists>g'. ledger_moves_to h
      (ledger_event_of (ReleaseAnswered now (rr_lease_id rr) peer (snd reply))) g g' \<and>
    refines_ledger h (ca\<lparr>ca_now := now, ca_store := ls, ca_backend := b\<rparr>) g'"
proof -
  obtain lid where rr: "rr = \<lparr>rr_lease_id = lid\<rparr>" by (cases rr) auto
  have ok: "state_ok (ca_store ca)"
    using inv by (simp add: flights_justified_def concurrent_ok_def)
  note live = live_prune [OF state_ok_keys [OF ok] le]
  note eqn = released [unfolded rr release_equation [OF ok]]
  show ?thesis
  proof (cases "holder_may_release (ca_store ca) now lid peer")
    case False
    then have "snd reply = LeaseReleased Refused \<and> (ls = ca_store ca \<or> ls = prune now (ca_store ca))"
      using eqn by (auto split: option.splits)
    then have idle: "ledger_event_of (ReleaseAnswered now lid peer (snd reply)) = LedgerIdle"
      and ls: "ls = ca_store ca \<or> ls = prune now (ca_store ca)" by simp_all
    have "\<exists>g'. ledger_moves_to h LedgerIdle g g' \<and>
        refines_ledger h (ca\<lparr>ca_now := now, ca_store := ls, ca_backend := b\<rparr>) g'"
      by (rule refines_idle [OF rel])
         (use le ls in \<open>auto simp: live_leases_def live unexpired_later in_flight_def\<close>)
    then show ?thesis by (simp add: rr idle)
  next
    case True
    then obtain l where l: "state_get (ca_store ca) lid = Some l" "now < cl_expires_at l"
      and holds: "holds_lease peer l"
      by (auto simp: holder_may_release_def holds_lease_def split: option.splits)
    have released: "ledger_event_of (ReleaseAnswered now lid peer (snd reply)) = LedgerRelease now lid peer"
      and ls: "ls = removed_and_revoked lid (prune now (ca_store ca))"
      using eqn True by (auto simp: Let_def split_beta)
    let ?g0 = "ledger_at now g"
    have now: "lg_now g \<le> now" "lg_live ?g0 = unexpired now (state_get (ca_store ca))"
      using rel le by (simp_all add: refines_ledger_def live_leases_def unexpired_later)
    have "ledger_moves_to h (LedgerRelease now lid peer) g (?g0\<lparr>lg_live := (lg_live ?g0)(lid := None)\<rparr>)"
      by (rule ledger_release) (use now l holds in simp_all)
    moreover have "refines_ledger h (ca\<lparr>ca_now := now, ca_store := ls, ca_backend := b\<rparr>)
        (?g0\<lparr>lg_live := (lg_live ?g0)(lid := None)\<rparr>)"
      using rel now le
      by (auto simp: refines_ledger_def ls live_leases_def state_get_removed unexpired_upd live
          unexpired_later in_flight_def) (simp_all add: removed_and_revoked_def)
    ultimately show ?thesis
      unfolding rr by (auto simp: released)
  qed
qed

lemma agent_step_refines:
  assumes "agent_steps_to h ops ans ca ca'" and "flights_justified h ca" and "refines_ledger h ca g"
  shows "\<exists>g'. ledger_moves_to h (ledger_event_of ans) g g' \<and> refines_ledger h ca' g'"
  using assms(1)
proof (cases rule: agent_steps_to.cases)
  case (issue_step now peer obs rq l ls)
  then show ?thesis using issue_refines [OF assms(2,3)] by simp
next
  case (refuse_step now peer obs rq f ls)
  have "ledger_event_of ans = LedgerIdle"
    by (cases f) (simp_all add: refuse_step(1))
  then show ?thesis using refuse_refines [OF assms(2,3) refuse_step(3,5)] refuse_step(2) by simp
next
  case (enforce_step xs l ys r b)
  have "\<exists>g'. ledger_moves_to h LedgerIdle g g' \<and> refines_ledger h ca' g'"
    by (rule refines_idle [OF assms(3)])
       (auto simp: enforce_step live_leases_def unexpired_later in_flight_def)
  then show ?thesis by (simp add: enforce_step(1))
next
  case (panic_step xs l ys)
  have "\<exists>g'. ledger_moves_to h LedgerIdle g g' \<and> refines_ledger h ca' g'"
    by (rule refines_idle [OF assms(3)])
       (auto simp: panic_step live_leases_def unexpired_later in_flight_def)
  then show ?thesis by (simp add: panic_step(1))
next
  case (finish_step xs l r ys reading now reply ls)
  then show ?thesis using finish_refines [OF assms(2,3)] by simp
next
  case (release_step now rr peer reply ls b)
  then show ?thesis using release_refines [OF assms(2,3)] by simp
next
  case (release_panic_step now rr peer reply ls b)
  obtain g' where g': "ledger_moves_to h (LedgerRelease now (rr_lease_id rr) peer) g g'"
    "refines_ledger h (ca\<lparr>ca_now := now, ca_store := ls, ca_backend := b\<rparr>) g'"
    using release_refines [OF assms(2,3) release_panic_step(3,4)] by (auto simp: release_panic_step(5))
  then have "refines_ledger h ca' g'"
    by (simp add: release_panic_step(2) refines_ledger_def live_leases_def in_flight_def)
  with g'(1) show ?thesis by (auto simp: release_panic_step(1))
qed

lemma agent_step_flights:
  assumes "agent_steps_to h ops ans ca ca'" and "flights_justified h ca"
  shows "flights_justified h ca'"
proof -
  have before: "\<forall>l\<in>set (in_flight ca). lease_justified h l \<and> cl_issued_at l \<le> now"
    if "ca_now ca \<le> now" for now
    using assms(2) that by (auto simp: flights_justified_def intro: order_trans)
  have "concurrent_ok ca'"
    using assms by (auto simp: flights_justified_def intro: agent_step_concurrent_ok)
  moreover have "ls_max_outstanding (ca_store ca') = ah_max_outstanding_leases h"
    using assms agent_step_leaked [OF assms(1)] by (simp add: flights_justified_def)
  moreover have "\<forall>l\<in>set (in_flight ca'). lease_justified h l \<and> cl_issued_at l \<le> ca_now ca'"
    using assms(1)
  proof (cases rule: agent_steps_to.cases)
    case (issue_step now peer obs rq l ls)
    then have "lease_justified h l" by (blast dest: issue_cap_justified)
    moreover have "cl_issued_at l = now"
      using issue_step by (auto simp: issue_cap_Inr issue_Inr_iff)
    ultimately have "lease_justified h l \<and> cl_issued_at l = now" by simp
    then show ?thesis
      using before issue_step by (auto simp: in_flight_def)
  qed (use before in \<open>auto simp: in_flight_def\<close>)
  ultimately show ?thesis by (simp add: flights_justified_def)
qed

lemma agent_traces_refine:
  assumes "agent_traces h ops ca0 tr ca" and "flights_justified h ca0" and "refines_ledger h ca0 g0"
  shows "flights_justified h ca \<and>
    (\<exists>g. ledger_runs h g0 (map ledger_event_of tr) g \<and> refines_ledger h ca g)"
  using assms(1)
proof (induction rule: agent_traces.induct)
  case trace_start
  show ?case using assms(2,3) by (auto intro: ledger_runs_start)
next
  case (trace_step tr ca ans ca')
  then obtain g where g: "flights_justified h ca" "ledger_runs h g0 (map ledger_event_of tr) g"
      "refines_ledger h ca g" by blast
  then show ?case
    using agent_step_refines [OF trace_step.hyps(2) g(1,3)] agent_step_flights [OF trace_step.hyps(2) g(1)]
    by (auto intro: ledger_runs_step)
qed

section \<open>Requests served one after the other\<close>

text \<open>The clock readings of a sequence of calls never go back.\<close>

fun clock_ordered :: "monotonic_time \<Rightarrow> agent_call list \<Rightarrow> bool" where
  "clock_ordered t [] \<longleftrightarrow> True"
| "clock_ordered t ((now, reply_now, request, peer) # calls) \<longleftrightarrow>
     t \<le> now \<and> now \<le> reply_now \<and> clock_ordered reply_now calls"

text \<open>An agent no request of which is in flight.\<close>

definition agent_idle :: "monotonic_time \<Rightarrow> lease_state \<times> 'b \<Rightarrow> 'b concurrent_agent \<Rightarrow> bool" where
  "agent_idle t st ca \<longleftrightarrow>
     ca_now ca \<le> t \<and> ca_store ca = fst st \<and> ca_backend ca = snd st \<and> in_flight ca = [] \<and>
     ca_leaked ca = 0"

lemma agent_idleI [simp]:
  "agent_idle t (ls, b) \<lparr>ca_now = t', ca_store = ls', ca_backend = b', ca_issued = [], ca_enforced = [],
     ca_leaked = 0\<rparr> \<longleftrightarrow> t' \<le> t \<and> ls' = ls \<and> b' = b"
  by (auto simp: agent_idle_def in_flight_def)

lemma agent_idle_cases:
  assumes "agent_idle t st ca"
  obtains t' where "t' \<le> t" and "ca = \<lparr>ca_now = t', ca_store = fst st, ca_backend = snd st,
    ca_issued = [], ca_enforced = [], ca_leaked = 0\<rparr>"
  using assms that by (cases ca) (auto simp: agent_idle_def in_flight_def)

lemma request_is_interleaving:
  assumes idle: "agent_idle now (ls, b) ca" and le: "now \<le> reply_now" and room: "counter_room ls 1"
    and run: "snd (handle_request_lease h ops now reply_now rq peer (ls, b)) = st'"
    and reach: "agent_reaches h ops ca0 ca"
  shows "\<exists>ca'. agent_reaches h ops ca0 ca' \<and> agent_idle reply_now st' ca'"
proof (cases "authorizable peer")
  case None
  then have "st' = (ls, b)" using run by (simp add: handle_request_lease_def)
  then show ?thesis using reach idle le by (auto simp: agent_idle_def)
next
  case (Some obs)
  obtain t where t: "t \<le> now" and ca: "ca = \<lparr>ca_now = t, ca_store = ls, ca_backend = b,
      ca_issued = [], ca_enforced = [], ca_leaked = 0\<rparr>"
    using idle by (auto elim: agent_idle_cases)
  obtain r ls1 where iss: "issue_reserving_capacity h now (provenance_for rq obs) ls = (r, ls1)"
    by (cases "issue_reserving_capacity h now (provenance_for rq obs) ls")
  show ?thesis
  proof (cases r)
    case (Inl f)
    have "st' = (ls1, b)"
      using run iss Inl by (auto simp: handle_request_lease_def Some)
    moreover have "agent_reaches h ops ca0 (ca\<lparr>ca_now := now, ca_store := ls1\<rparr>)"
      by (rule reach_step [OF reach refuse_step]) (use t Some iss Inl in \<open>simp_all add: ca\<close>)
    ultimately show ?thesis using le by (force simp: ca)
  next
    case (Inr l)
    obtain a b1 where enf: "bo_enforce ops b (prov_request (cl_origin l)) = (a, b1)"
      by fastforce
    obtain reply ls2 where fin: "finish_request reply_now l a ls1 = (reply, ls2)"
      by fastforce
    have st': "st' = (ls2, b1)"
      using run iss Inr enf fin by (auto simp: handle_request_lease_def Some)
    let ?c1 = "ca\<lparr>ca_now := now, ca_store := ls1, ca_issued := l # ca_issued ca\<rparr>"
    let ?c2 = "?c1\<lparr>ca_issued := [] @ [], ca_enforced := (l, a) # ca_enforced ?c1, ca_backend := b1\<rparr>"
    let ?c3 = "?c2\<lparr>ca_now := reply_now, ca_enforced := [] @ [], ca_store := ls2\<rparr>"
    have r1: "agent_reaches h ops ca0 ?c1"
      by (rule reach_step [OF reach issue_step]) (use t Some iss Inr room in \<open>simp_all add: ca\<close>)
    have r2: "agent_reaches h ops ca0 ?c2"
      by (rule reach_step [OF r1 enforce_step]) (use enf in \<open>simp_all add: ca\<close>)
    have "cl_issued_at l = now"
      using iss Inr by (auto simp: issue_cap_Inr issue_Inr_iff)
    then have "agent_reaches h ops ca0 ?c3"
      by (intro reach_step [OF r2 finish_step]) (use fin le in \<open>simp_all add: ca\<close>)
    then show ?thesis by (force simp: ca st')
  qed
qed

lemma release_is_interleaving:
  assumes idle: "agent_idle now (ls, b) ca" and le: "now \<le> reply_now"
    and run: "snd (handle_release_lease ops now rr peer (ls, b)) = st'"
    and reach: "agent_reaches h ops ca0 ca"
  shows "\<exists>ca'. agent_reaches h ops ca0 ca' \<and> agent_idle reply_now st' ca'"
proof -
  obtain t where t: "t \<le> now" and ca: "ca = \<lparr>ca_now = t, ca_store = ls, ca_backend = b,
      ca_issued = [], ca_enforced = [], ca_leaked = 0\<rparr>"
    using idle by (auto elim: agent_idle_cases)
  obtain reply ls1 b1 where rel: "handle_release_lease ops now rr peer (ls, b) = (reply, (ls1, b1))"
    by (cases "handle_release_lease ops now rr peer (ls, b)") auto
  have "agent_reaches h ops ca0 (ca\<lparr>ca_now := now, ca_store := ls1, ca_backend := b1\<rparr>)"
    by (rule reach_step [OF reach release_step]) (use t rel in \<open>simp_all add: ca\<close>)
  then show ?thesis using run rel le by (force simp: ca)
qed

lemma call_is_interleaving:
  assumes "agent_idle now st ca" and "now \<le> reply_now" and "counter_room (fst st) 1"
    and "agent_reaches h ops ca0 ca"
  shows "\<exists>ca'. agent_reaches h ops ca0 ca' \<and>
    agent_idle reply_now (agent_step h ops (now, reply_now, request, peer) st) ca'"
proof -
  obtain ls b where st: "st = (ls, b)" by (cases st)
  show ?thesis
  proof (cases request)
    case (RequestLease rq)
    then show ?thesis
      using request_is_interleaving [of now ls b ca reply_now h ops rq peer _ ca0] assms
      by (simp add: st agent_step_def handle_state)
  next
    case (ReleaseLease rr)
    then show ?thesis
      using release_is_interleaving [of now ls b ca reply_now ops rr peer _ h ca0] assms
      by (simp add: st agent_step_def handle_state)
  next
    case AgentStatus
    then show ?thesis
      using assms by (auto simp: st agent_step_def handle_state agent_idle_def)
  qed
qed

lemma history_is_interleaving:
  assumes "agent_idle t st ca" and "clock_ordered t calls" and "state_ok (fst st)"
    and "counter_room (fst st) (length calls)" and "agent_reaches h ops ca0 ca"
  shows "\<exists>ca' t'. agent_reaches h ops ca0 ca' \<and> agent_idle t' (fold (agent_step h ops) calls st) ca'"
  using assms
proof (induction calls arbitrary: t st ca)
  case Nil
  then show ?case by auto
next
  case (Cons c calls)
  obtain now reply_now request peer where c: "c = (now, reply_now, request, peer)"
    by (cases c)
  have "agent_idle now st ca" "now \<le> reply_now" "clock_ordered reply_now calls" "counter_room (fst st) 1"
    using Cons.prems by (auto simp: c agent_idle_def counter_room_def)
  then obtain ca' where ca': "agent_reaches h ops ca0 ca'" "agent_idle reply_now (agent_step h ops c st) ca'"
    using call_is_interleaving Cons.prems(5) unfolding c by blast
  have "state_ok (fst (agent_step h ops c st)) \<and> counter_room (fst (agent_step h ops c st)) (length calls)"
    using handle_ok [OF Cons.prems(3), of "length calls"] Cons.prems(4) by (simp add: agent_step_def c)
  then show ?case
    using Cons.IH [OF ca'(2) \<open>clock_ordered reply_now calls\<close>] ca'(1) by simp
qed

section \<open>Properties\<close>

lemma granted_event_iff:
  "LedgerGrant t lid r \<in> ledger_event_of ` set tr \<longleftrightarrow>
     RequestAnswered t (LeaseGranted \<lparr>lv_lease_id = lid, lv_remaining = r\<rparr>) \<in> set tr"
proof -
  have "LedgerGrant t lid r = ledger_event_of a \<longleftrightarrow>
      a = RequestAnswered t (LeaseGranted \<lparr>lv_lease_id = lid, lv_remaining = r\<rparr>)" for a
    by (cases a rule: ledger_event_of.cases) auto
  then show ?thesis by (simp add: image_iff)
qed

lemma released_event_iff:
  "LedgerRelease t lid peer \<in> ledger_event_of ` set tr \<longleftrightarrow>
     ReleaseAnswered t lid peer (LeaseReleased Released) \<in> set tr \<or> ReleasePanicked t lid peer \<in> set tr"
proof -
  have "LedgerRelease t lid peer = ledger_event_of a \<longleftrightarrow>
      a = ReleaseAnswered t lid peer (LeaseReleased Released) \<or> a = ReleasePanicked t lid peer" for a
    by (cases a rule: ledger_event_of.cases) auto
  then show ?thesis by (auto simp: image_iff)
qed

lemma ledger_of_agent:
  assumes "handler_new inst policy config = (h, ls0)"
    and "agent_traces h ops (concurrent_new ls0 b0) tr ca"
  shows "\<exists>g. ledger_runs h ledger_start (map ledger_event_of tr) g \<and>
    ledger_accounts (map ledger_event_of tr) g \<and> refines_ledger h ca g"
  using agent_traces_refine [OF assms(2) flights_justified_new [OF assms(1)] refines_ledger_new [OF assms(1)]]
    ledger_runs_accounts [OF _ ledger_start_accounts] by blast

lemma demo_handler_new:
  "handler_new ''agent-1'' demo_policy \<lparr>ac_lease_ttl = 30, ac_max_outstanding_leases = 2\<rparr> =
     (demo_handler, demo_state)"
  by (simp add: handler_new_def demo_handler_def demo_state_def)

lemma demo_live [simp]: "state_get demo_granted_state (cl_id demo_lease) = Some demo_lease"
  by (simp add: state_get_def demo_granted_state_def)

text \<open>The concurrent agent refines the ledger: whatever the connections' steps and however they
  interleave, the answers they get are those of a run of the ledger, in which a lease is granted
  once, under its policy, below the bound and on a clock reading before its expiry, and is released
  only while it lives and by its holder (a request that waits for the lock after its reading may get a
  lease that is no longer live); and the leases the agent stores that are unexpired by its clock are the
  ledger's live leases.\<close>

theorem agent_refines_ledger:
  assumes "handler_new inst policy config = (h, ls0)"
    and "agent_traces h ops (concurrent_new ls0 b0) tr ca"
  shows "\<exists>g. ledger_runs h ledger_start (map ledger_event_of tr) g \<and>
    lg_now g = ca_now ca \<and> lg_live g = unexpired (ca_now ca) (state_get (ca_store ca))"
  using ledger_of_agent [OF assms] by (auto simp: refines_ledger_def live_leases_def)

lemma agent_refines_ledger_witness:
  "\<exists>tr g. ledger_runs demo_handler ledger_start (map ledger_event_of tr) g \<and>
     lg_live g (cl_id demo_lease) = Some demo_lease"
proof -
  let ?ca = "race_start\<lparr>ca_now := 100, ca_store := demo_granted_state, ca_backend := {demo_gpu}\<rparr>"
  obtain tr where "agent_traces demo_handler tracking_ops (concurrent_new demo_state {}) tr ?ca"
    using agent_reaches_traces [OF race_to_first_grant] by (auto simp: race_start_def)
  from agent_refines_ledger [OF demo_handler_new this] show ?thesis
    by (fastforce simp: demo_lease_simps(2))
qed

text \<open>C8. The answers account for the store: at any moment of any interleaving, the leases the agent
  holds unexpired are exactly those it answered as granted, within the time it told the client
  would remain, and has not released, whether it answered so or its backend panicked on the revocation
  that follows. No lease is answered as granted twice, and none
  as released that was not granted.\<close>

theorem answers_account_for_leases:
  assumes "handler_new inst policy config = (h, ls0)"
    and "agent_traces h ops (concurrent_new ls0 b0) tr ca"
  shows "((\<exists>l. state_get (ca_store ca) lid = Some l \<and> ca_now ca < cl_expires_at l) \<longleftrightarrow>
      (\<exists>t remaining.
         RequestAnswered t (LeaseGranted \<lparr>lv_lease_id = lid, lv_remaining = remaining\<rparr>) \<in> set tr \<and>
         unat (ca_now ca) < unat t + remaining) \<and>
      (\<forall>t peer. ReleaseAnswered t lid peer (LeaseReleased Released) \<notin> set tr \<and>
         ReleasePanicked t lid peer \<notin> set tr)) \<and>
    distinct (granted_ids (map ledger_event_of tr)) \<and>
    released_ids (map ledger_event_of tr) \<subseteq> set (granted_ids (map ledger_event_of tr))"
proof -
  obtain g where acc: "ledger_accounts (map ledger_event_of tr) g" and g: "refines_ledger h ca g"
    using ledger_of_agent [OF assms] by blast
  have "(\<exists>l. state_get (ca_store ca) lid = Some l \<and> ca_now ca < cl_expires_at l) \<longleftrightarrow>
      (\<exists>e. live_until (lg_live g) lid e)"
    using g by (auto simp: refines_ledger_def live_leases_def live_until_def word_less_nat_alt)
  also have "\<dots> \<longleftrightarrow> (\<exists>e. granted_until (map ledger_event_of tr) lid e \<and>
      lid \<notin> released_ids (map ledger_event_of tr) \<and> unat (ca_now ca) < e)"
    using acc g by (simp add: ledger_accounts_def refines_ledger_def)
  finally show ?thesis
    using acc
    by (simp add: ledger_accounts_def granted_until_def released_ids_def granted_event_iff
        released_event_iff) blast
qed

lemma answers_account_for_leases_witness:
  "\<exists>tr t remaining.
     agent_traces demo_handler tracking_ops (concurrent_new demo_state {}) tr
       (race_start\<lparr>ca_now := 100, ca_store := demo_granted_state, ca_backend := {demo_gpu}\<rparr>) \<and>
     RequestAnswered t (LeaseGranted \<lparr>lv_lease_id = cl_id demo_lease, lv_remaining = remaining\<rparr>) \<in> set tr"
proof -
  let ?ca = "race_start\<lparr>ca_now := 100, ca_store := demo_granted_state, ca_backend := {demo_gpu}\<rparr>"
  obtain tr where tr: "agent_traces demo_handler tracking_ops (concurrent_new demo_state {}) tr ?ca"
    using agent_reaches_traces [OF race_to_first_grant] by (auto simp: race_start_def)
  have "\<exists>l. state_get (ca_store ?ca) (cl_id demo_lease) = Some l \<and> ca_now ?ca < cl_expires_at l"
    by (simp add: demo_lease_simps(2))
  with answers_account_for_leases [OF demo_handler_new tr, of "cl_id demo_lease"]
  have "\<exists>t remaining. RequestAnswered t
      (LeaseGranted \<lparr>lv_lease_id = cl_id demo_lease, lv_remaining = remaining\<rparr>) \<in> set tr"
    by blast
  with tr show ?thesis by blast
qed

text \<open>Serving requests one at a time is a special case: any sequence of requests handled whole,
  with clock readings that do not go back, ends in the store and backend state of an interleaving
  of the concurrent agent with nothing in flight and no reservation lost. What holds of every
  interleaving holds of it.\<close>

theorem sequence_is_an_interleaving:
  assumes "handler_new inst policy config = (h, ls0)" and "clock_ordered 0 calls"
    and "length calls < 2 ^ 64" and "fold (agent_step h ops) calls (ls0, b0) = (ls, b)"
  shows "\<exists>ca. agent_reaches h ops (concurrent_new ls0 b0) ca \<and> ca_store ca = ls \<and>
    ca_backend ca = b \<and> in_flight ca = [] \<and> ca_leaked ca = 0"
proof -
  have "agent_idle 0 (ls0, b0) (concurrent_new ls0 b0)"
    by (simp add: agent_idle_def concurrent_new_def in_flight_def)
  moreover have "state_ok ls0" "counter_room ls0 (length calls)"
    using handler_new_state [OF assms(1)] assms(3) by (simp_all add: counter_room_def)
  ultimately show ?thesis
    using history_is_interleaving [of 0 "(ls0, b0)" _ calls h ops, OF _ assms(2) _ _ reach_start]
      assms(4) by (fastforce simp: agent_idle_def)
qed

lemma sequence_is_an_interleaving_witness:
  "\<exists>ca. agent_reaches demo_handler fake_ops (concurrent_new demo_state demo_backend) ca \<and>
     ca_store ca = demo_granted_state \<and> in_flight ca = []"
proof -
  have run: "fold (agent_step demo_handler fake_ops)
      [(100, 110, RequestLease demo_lease_request, demo_peer)] (demo_state, demo_backend) =
      (demo_granted_state, demo_backend)"
    by (simp add: agent_step_def handle_state demo_grant)
  show ?thesis
    using sequence_is_an_interleaving [OF demo_handler_new _ _ run] by (auto simp: word_le_nat_alt)
qed

end
