(* ===== verification/Eltanin_Lines.thy ===== *)
theory Eltanin_Lines
  imports Eltanin_Text
begin

text \<open>
  Lines and words of text as the standard library splits them (\<open>str::lines\<close>, \<open>split_whitespace\<close>,
  \<open>splitn\<close>). A text is its UTF-8 bytes. White space is that of Unicode.
\<close>

section \<open>Splitting into lines\<close>

definition newline :: char where "newline = CHR 0x0A"

text \<open>\<open>str::lines\<close>: the pieces between newlines, without a final empty one, each without a trailing
  carriage return.\<close>

fun split_lines :: "string \<Rightarrow> string \<Rightarrow> string list" where
  "split_lines acc [] = (if acc = [] then [] else [rev acc])"
| "split_lines acc (c # cs) =
     (if c = newline then rev acc # split_lines [] cs else split_lines (c # acc) cs)"

definition strip_cr :: "string \<Rightarrow> string" where
  "strip_cr line =
     (case rev line of c # rest \<Rightarrow> if c = CHR 0x0D then rev rest else line | [] \<Rightarrow> line)"

definition text_lines :: "string \<Rightarrow> string list" where
  "text_lines contents =
     (let pieces = split_lines [] contents
      in if contents \<noteq> [] \<and> last contents \<noteq> newline
         then map strip_cr (butlast pieces) @ [last pieces] else map strip_cr pieces)"

section \<open>Splitting into words\<close>

text \<open>The number of bytes of the white space character a text begins with, or zero: the characters with the
  property \<open>White_Space\<close>, U+0009 to U+000D, U+0020, U+0085, U+00A0, U+1680, U+2000 to U+200A, U+2028,
  U+2029, U+202F, U+205F and U+3000.\<close>

definition space_length :: "string \<Rightarrow> nat" where
  "space_length s =
     (let bytes = map (of_char :: char \<Rightarrow> nat) (take 3 s)
      in if bytes \<noteq> [] \<and> hd bytes \<in> {9, 10, 11, 12, 13, 32} then 1
         else if take 2 bytes \<in> {[0xC2, 0x85], [0xC2, 0xA0]} then 2
         else if bytes \<in> {[0xE1, 0x9A, 0x80], [0xE2, 0x80, 0xA8], [0xE2, 0x80, 0xA9], [0xE2, 0x80, 0xAF],
             [0xE2, 0x81, 0x9F], [0xE3, 0x80, 0x80]} \<or>
           length bytes = 3 \<and> take 2 bytes = [0xE2, 0x80] \<and> 0x80 \<le> bytes ! 2 \<and> bytes ! 2 \<le> 0x8A then 3
         else 0)"

function split_words :: "string \<Rightarrow> string \<Rightarrow> string list" where
  "split_words acc [] = (if acc = [] then [] else [rev acc])"
| "split_words acc (c # cs) =
     (if space_length (c # cs) \<noteq> 0
      then (if acc = [] then [] else [rev acc]) @ split_words [] (drop (space_length (c # cs) - 1) cs)
      else split_words (c # acc) cs)"
  by pat_completeness auto
termination
  by (relation "measure (\<lambda>(acc, s). length s)") auto

definition split_whitespace :: "string \<Rightarrow> string list" where
  "split_whitespace s = split_words [] s"

text \<open>A line that is empty once it is trimmed.\<close>

definition blank_line :: "string \<Rightarrow> bool" where
  "blank_line line \<longleftrightarrow> split_whitespace line = []"

text \<open>At most \<open>n\<close> pieces between occurrences of a separator, the last one with the rest.\<close>

fun splitn :: "nat \<Rightarrow> char \<Rightarrow> string \<Rightarrow> string list" where
  "splitn 0 sep s = []"
| "splitn (Suc 0) sep s = [s]"
| "splitn (Suc (Suc n)) sep s =
     (case split_once sep s of None \<Rightarrow> [s] | Some (a, b) \<Rightarrow> a # splitn (Suc n) sep b)"

definition starts_with :: "string \<Rightarrow> string \<Rightarrow> bool" where
  "starts_with p s \<longleftrightarrow> take (length p) s = p"

definition nth_option :: "'a list \<Rightarrow> nat \<Rightarrow> 'a option" where
  "nth_option xs i = (if i < length xs then Some (xs ! i) else None)"

section \<open>Facts about words\<close>

definition ascii_space :: "char \<Rightarrow> bool" where
  "ascii_space c \<longleftrightarrow> (of_char c :: nat) \<in> {9, 10, 11, 12, 13, 32}"

lemma space_length_ascii:
  assumes "(of_char c :: nat) < 128"
  shows "space_length (c # cs) = (if ascii_space c then 1 else 0)"
  using assms by (cases cs; cases "tl cs") (auto simp: space_length_def ascii_space_def Let_def)

lemma split_words_ascii [simp]:
  "(of_char c :: nat) < 128 \<Longrightarrow> split_words acc (c # cs) =
     (if ascii_space c then (if acc = [] then [] else [rev acc]) @ split_words [] cs
      else split_words (c # acc) cs)"
  by (simp add: space_length_ascii)

declare split_words.simps(2) [simp del]

text \<open>A line with a visible character of ASCII is not blank.\<close>

lemma space_bytes:
  assumes "c \<in> set (take (space_length s) s)" and "(of_char c :: nat) < 128"
  shows "ascii_space c"
proof -
  consider "s = []" | a where "s = [a]" | a b where "s = [a, b]" | a b d s' where "s = a # b # d # s'"
    by (metis neq_Nil_conv)
  then show ?thesis
    using assms by cases (auto simp: space_length_def ascii_space_def Let_def split: if_splits)
qed

lemma split_words_visible:
  "acc \<noteq> [] \<or> (\<exists>c\<in>set s. (of_char c :: nat) < 128 \<and> \<not> ascii_space c) \<Longrightarrow> split_words acc s \<noteq> []"
proof (induction acc s rule: split_words.induct)
  case (2 acc c cs)
  show ?case
  proof (cases "space_length (c # cs) \<noteq> 0 \<and> acc = []")
    case True
    then obtain d where d: "d \<in> set (c # cs)" "(of_char d :: nat) < 128" "\<not> ascii_space d"
      using 2(3) by blast
    have "c # cs = take (space_length (c # cs)) (c # cs) @ drop (space_length (c # cs) - 1) cs"
      using True by (metis append_take_drop_id drop_Cons')
    then have "d \<in> set (drop (space_length (c # cs) - 1) cs)"
      using d space_bytes by (metis Un_iff set_append)
    then show ?thesis using True 2(1) d by (auto simp: split_words.simps(2))
  qed (use 2(2) in \<open>auto simp: split_words.simps(2)\<close>)
qed simp

lemma visible_line: "\<exists>c\<in>set line. (of_char c :: nat) < 128 \<and> \<not> ascii_space c \<Longrightarrow> \<not> blank_line line"
  using split_words_visible by (simp add: blank_line_def split_whitespace_def)

section \<open>Facts about lines\<close>

lemma split_lines_append:
  "split_lines acc (xs @ newline # ys) = split_lines acc (xs @ [newline]) @ split_lines [] ys"
  by (induction acc xs rule: split_lines.induct) auto

lemma split_lines_one: "newline \<notin> set m \<Longrightarrow> split_lines acc (m @ [newline]) = [rev acc @ m]"
  by (induction m arbitrary: acc) auto

lemma strip_cr_id: "m = [] \<or> last m \<noteq> CHR 0x0D \<Longrightarrow> strip_cr m = m"
  by (cases m rule: rev_cases) (simp_all add: strip_cr_def)

definition whole_lines :: "string \<Rightarrow> bool" where
  "whole_lines file \<longleftrightarrow> file = [] \<or> last file = newline"

definition plain_line :: "string \<Rightarrow> bool" where
  "plain_line m \<longleftrightarrow> newline \<notin> set m \<and> m \<noteq> [] \<and> last m \<noteq> CHR 0x0D"

lemma whole_lines_Nil [simp]: "whole_lines []"
  by (simp add: whole_lines_def)

lemma whole_lines_line [simp]: "whole_lines (file @ m @ [newline])"
  by (simp add: whole_lines_def)

lemma text_lines_whole: "whole_lines file \<Longrightarrow> text_lines file = map strip_cr (split_lines [] file)"
  by (auto simp: text_lines_def Let_def whole_lines_def)

lemma text_lines_Nil [simp]: "text_lines [] = []"
  by (simp add: text_lines_def)

lemma text_lines_snoc:
  assumes "whole_lines file" and "plain_line m"
  shows "text_lines (file @ m @ [newline]) = text_lines file @ [m]"
proof -
  have m: "strip_cr m = m" "newline \<notin> set m"
    using assms(2) by (auto simp: plain_line_def strip_cr_id)
  have "split_lines [] (file @ m @ [newline]) = split_lines [] file @ [m]"
  proof (cases "file" rule: rev_cases)
    case Nil
    then show ?thesis using split_lines_one [OF m(2), of "[]"] by simp
  next
    case (snoc xs c)
    then have "file = xs @ [newline]" using assms(1) by (simp add: whole_lines_def)
    then show ?thesis
      using split_lines_append [of "[]" xs "m @ [newline]"] split_lines_one [OF m(2), of "[]"] by simp
  qed
  then show ?thesis
    using assms(1) m(1) by (simp add: text_lines_whole)
qed

end
