(* ===== verification/Eltanin_Audit.thy ===== *)
theory Eltanin_Audit
  imports Eltanin_Authz Eltanin_Lines
begin

text \<open>
  Models the crate \<open>crates/eltanin-audit\<close> (the record schema of \<open>record.rs\<close>, the append-only
  sink of \<open>sink.rs\<close>, the reader and the selectors of \<open>explain.rs\<close>, the argument loop of
  \<open>bin/eltanin-explain.rs\<close>) and the agent's side of it,
  \<open>crates/eltanin-agent/src/authz/audit.rs\<close>. The JSON library is the parameter \<open>audit_json\<close>. The
  file is its text; what one write leaves behind is an argument, so that failed and torn writes
  can be told apart. The derived debug formatting of the
  parts of a record is an argument of its rendering.
\<close>

section \<open>Records\<close>

record audit_event_id =
  aei_instance :: issuer_instance_id
  aei_sequence :: u64

definition event_id_display :: "audit_event_id \<Rightarrow> string" where
  "event_id_display e = aei_instance e @ ''#'' @ u64_to_string (aei_sequence e)"

record wall_clock_time =
  wc_unix_secs :: int
  wc_nanos :: u32

text \<open>\<open>SystemWallClock::now\<close> on the time since the Unix epoch, if it is not before it.\<close>

definition system_wall_clock :: "duration option \<Rightarrow> wall_clock_time" where
  "system_wall_clock since_epoch =
     (let now = (case since_epoch of Some d \<Rightarrow> d | None \<Rightarrow> 0); secs = now div 10 ^ 9
      in \<lparr>wc_unix_secs = (if secs < 2 ^ 63 then int secs else 2 ^ 63 - 1),
          wc_nanos = of_nat (now mod 10 ^ 9)\<rparr>)"

datatype recorded_operation = RecOpRequestLease | RecOpReleaseLease | RecOpAgentStatus

datatype recorded_request =
    RecRequestLease resource_identity action
  | RecReleaseLease lease_id
  | RecAgentStatus

record recorded_peer_credential =
  rpc_pid :: u32
  rpc_effective_uid :: u32
  rpc_effective_gid :: u32

datatype recorded_peer_consistency =
    RecConsistent
  | RecCredentialDivergence u32 "u32 evidence" "u32 evidence"
  | RecPeerUnmapped
  | RecIndeterminate string

record recorded_peer =
  rp_credential :: recorded_peer_credential
  rp_consistency :: recorded_peer_consistency
  rp_observed :: execution_context

record recorded_policy_provenance =
  rpp_policy_id :: policy_id
  rpp_policy_revision :: u32
  rpp_schema_version :: u16

datatype recorded_decision_reason =
    RecNoMatchingRule
  | RecExplicitAllow "rule_id set"
  | RecExplicitDeny "rule_id set" "rule_id set"
  | RecIndeterminateEvidence "rule_id set"

record recorded_policy_decision =
  rpd_effect :: effect
  rpd_reason :: recorded_decision_reason
  rpd_policy :: recorded_policy_provenance

datatype recorded_lease_error =
    RecDenied recorded_policy_decision
  | RecNonPositiveTtl
  | RecTtlExceedsMaximum duration duration
  | RecExpiryOverflow

datatype recorded_lease_validity =
    RecValid duration
  | RecForeignIssuer issuer_instance_id
  | RecRevoked
  | RecResourceMismatch
  | RecActionMismatch
  | RecWorkloadMismatch
  | RecWorkloadIndeterminate
  | RecExecutableMismatch
  | RecExpired monotonic_time

datatype recorded_outcome =
    RecGranted lease_id monotonic_time
  | RecPolicyDenied recorded_policy_decision
  | RecPeerNotAuthorizable
  | RecLeaseIssueFailed recorded_lease_error
  | RecEnforcementRefused enforcement_result
  | RecBackendFailed backend_error
  | RecCapacityExhausted nat
  | RecReleased revocation_outcome "enforcement_result option"
  | RecReleaseRefused recorded_lease_validity
  | RecReleaseUnknownLease
  | RecStatusReported

record audit_entry =
  ae_operation :: recorded_operation
  ae_requested :: recorded_request
  ae_peer :: recorded_peer
  ae_outcome :: recorded_outcome
  ae_response :: agent_response

record audit_record =
  ar_event_id :: audit_event_id
  ar_recorded_at :: wall_clock_time
  ar_operation :: recorded_operation
  ar_requested :: recorded_request
  ar_peer :: recorded_peer
  ar_outcome :: recorded_outcome
  ar_response :: agent_response

definition record_lease_id :: "audit_record \<Rightarrow> lease_id option" where
  "record_lease_id r =
     (case (ar_outcome r, ar_requested r) of
        (RecGranted lid _, _) \<Rightarrow> Some lid
      | (_, RecReleaseLease lid) \<Rightarrow> Some lid
      | _ \<Rightarrow> None)"

section \<open>The agent's recording of an event\<close>

fun recorded_operation_of :: "operation \<Rightarrow> recorded_operation" where
  "recorded_operation_of OpRequestLease = RecOpRequestLease"
| "recorded_operation_of OpReleaseLease = RecOpReleaseLease"
| "recorded_operation_of OpAgentStatus = RecOpAgentStatus"

fun recorded_request_of :: "client_request \<Rightarrow> recorded_request" where
  "recorded_request_of (RequestLease r) = RecRequestLease (lr_resource r) (lr_action r)"
| "recorded_request_of (ReleaseLease r) = RecReleaseLease (rr_lease_id r)"
| "recorded_request_of AgentStatus = RecAgentStatus"

definition recorded_peer_credential_of :: "peer_credential \<Rightarrow> recorded_peer_credential" where
  "recorded_peer_credential_of c =
     \<lparr>rpc_pid = cred_pid c, rpc_effective_uid = cred_effective_uid c,
      rpc_effective_gid = cred_effective_gid c\<rparr>"

fun recorded_peer_consistency_of :: "peer_consistency \<Rightarrow> recorded_peer_consistency" where
  "recorded_peer_consistency_of Consistent = RecConsistent"
| "recorded_peer_consistency_of (CredentialDivergence u r e) = RecCredentialDivergence u r e"
| "recorded_peer_consistency_of PeerUnmapped = RecPeerUnmapped"
| "recorded_peer_consistency_of (PeerIndeterminate reason) = RecIndeterminate reason"

definition recorded_peer_of :: "peer_context \<Rightarrow> recorded_peer" where
  "recorded_peer_of p =
     \<lparr>rp_credential = recorded_peer_credential_of (pc_credential p),
      rp_consistency = recorded_peer_consistency_of (pc_consistency p),
      rp_observed = pc_observed p\<rparr>"

definition recorded_policy_provenance_of :: "policy_provenance \<Rightarrow> recorded_policy_provenance" where
  "recorded_policy_provenance_of p =
     \<lparr>rpp_policy_id = pp_policy_id p, rpp_policy_revision = pp_policy_revision p,
      rpp_schema_version = pp_schema_version p\<rparr>"

fun recorded_decision_reason_of :: "decision_reason \<Rightarrow> recorded_decision_reason" where
  "recorded_decision_reason_of NoMatchingRule = RecNoMatchingRule"
| "recorded_decision_reason_of (ExplicitAllow a) = RecExplicitAllow a"
| "recorded_decision_reason_of (ExplicitDeny d a) = RecExplicitDeny d a"
| "recorded_decision_reason_of (IndeterminateEvidence i) = RecIndeterminateEvidence i"

definition recorded_policy_decision_of :: "policy_decision \<Rightarrow> recorded_policy_decision" where
  "recorded_policy_decision_of d =
     \<lparr>rpd_effect = pd_effect d, rpd_reason = recorded_decision_reason_of (pd_reason d),
      rpd_policy = recorded_policy_provenance_of (pd_policy d)\<rparr>"

fun recorded_lease_error_of :: "lease_error \<Rightarrow> recorded_lease_error" where
  "recorded_lease_error_of (LeaseDenied d) = RecDenied (recorded_policy_decision_of d)"
| "recorded_lease_error_of NonPositiveTtl = RecNonPositiveTtl"
| "recorded_lease_error_of (TtlExceedsMaximum r m) = RecTtlExceedsMaximum r m"
| "recorded_lease_error_of ExpiryOverflow = RecExpiryOverflow"

fun recorded_lease_validity_of :: "lease_validity \<Rightarrow> recorded_lease_validity" where
  "recorded_lease_validity_of (Valid d) = RecValid d"
| "recorded_lease_validity_of (ValForeignIssuer i) = RecForeignIssuer i"
| "recorded_lease_validity_of ValRevoked = RecRevoked"
| "recorded_lease_validity_of ResourceMismatch = RecResourceMismatch"
| "recorded_lease_validity_of ActionMismatch = RecActionMismatch"
| "recorded_lease_validity_of WorkloadMismatch = RecWorkloadMismatch"
| "recorded_lease_validity_of WorkloadIndeterminate = RecWorkloadIndeterminate"
| "recorded_lease_validity_of ExecutableMismatch = RecExecutableMismatch"
| "recorded_lease_validity_of (Expired t) = RecExpired t"

fun recorded_outcome_of :: "authorization_outcome \<Rightarrow> recorded_outcome" where
  "recorded_outcome_of (Granted lid e) = RecGranted lid e"
| "recorded_outcome_of (PolicyDenied d) = RecPolicyDenied (recorded_policy_decision_of d)"
| "recorded_outcome_of PeerNotAuthorizable = RecPeerNotAuthorizable"
| "recorded_outcome_of (LeaseIssueFailed e) = RecLeaseIssueFailed (recorded_lease_error_of e)"
| "recorded_outcome_of (EnforcementRefused r) = RecEnforcementRefused r"
| "recorded_outcome_of (BackendFailed e) = RecBackendFailed e"
| "recorded_outcome_of (OutCapacityExhausted n) = RecCapacityExhausted n"
| "recorded_outcome_of (OutReleased rv b) = RecReleased rv b"
| "recorded_outcome_of (ReleaseRefused v) = RecReleaseRefused (recorded_lease_validity_of v)"
| "recorded_outcome_of ReleaseUnknownLease = RecReleaseUnknownLease"
| "recorded_outcome_of StatusReported = RecStatusReported"

definition recorded_entry :: "authorization_event \<Rightarrow> audit_entry" where
  "recorded_entry e =
     \<lparr>ae_operation = recorded_operation_of (ev_operation e),
      ae_requested = recorded_request_of (ev_request e),
      ae_peer = recorded_peer_of (ev_peer e),
      ae_outcome = recorded_outcome_of (ev_outcome e),
      ae_response = ev_response e\<rparr>"

section \<open>The JSON library\<close>

text \<open>\<open>to_string\<close> of an enveloped record, \<open>from_str\<close> of an envelope around an untyped value and of
  an enveloped record, and the accessors of an untyped value.\<close>

record 'v audit_json =
  aj_to_string :: "audit_record versioned \<Rightarrow> (string, string) result"
  aj_envelope :: "string \<Rightarrow> (string, 'v versioned) result"
  aj_record :: "string \<Rightarrow> (string, audit_record versioned) result"
  aj_get :: "'v \<Rightarrow> string \<Rightarrow> 'v option"
  aj_as_str :: "'v \<Rightarrow> string option"
  aj_as_u64 :: "'v \<Rightarrow> u64 option"

section \<open>The sink\<close>

datatype audit_sink_error = SinkIo string | SinkSerialize string

text \<open>What became of one write and flush: all bytes are in the file, or an error after a number of
  them.\<close>

datatype write_outcome = Written | WriteFailed nat string

record audit_sink =
  as_instance :: issuer_instance_id
  as_next_sequence :: u64
  as_failed_writes :: u64
  as_file :: string

definition sink_from_writer :: "string \<Rightarrow> issuer_instance_id \<Rightarrow> audit_sink" where
  "sink_from_writer file inst =
     \<lparr>as_instance = inst, as_next_sequence = 0, as_failed_writes = 0, as_file = file\<rparr>"

definition write_line ::
  "'v audit_json \<Rightarrow> write_outcome \<Rightarrow> audit_record \<Rightarrow> string \<Rightarrow> (audit_sink_error, unit) result \<times> string"
where
  "write_line j outcome r file =
     (case aj_to_string j (versioned_current r) of
        Inl e \<Rightarrow> (Inl (SinkSerialize e), file)
      | Inr text \<Rightarrow>
          (let line = text @ [newline]
           in case outcome of
                Written \<Rightarrow> (Inr (), file @ line)
              | WriteFailed n e \<Rightarrow> (Inl (SinkIo e), file @ take n line)))"

definition audit_append ::
  "'v audit_json \<Rightarrow> wall_clock_time \<Rightarrow> write_outcome \<Rightarrow> audit_entry \<Rightarrow> audit_sink \<Rightarrow>
     (audit_sink_error, audit_event_id) result \<times> audit_sink" where
  "audit_append j recorded_at outcome entry sink =
     (let event_id = \<lparr>aei_instance = as_instance sink, aei_sequence = as_next_sequence sink\<rparr>;
          r = \<lparr>ar_event_id = event_id, ar_recorded_at = recorded_at,
               ar_operation = ae_operation entry, ar_requested = ae_requested entry,
               ar_peer = ae_peer entry, ar_outcome = ae_outcome entry,
               ar_response = ae_response entry\<rparr>;
          (result, file) = write_line j outcome r (as_file sink);
          sink' = sink\<lparr>as_next_sequence := as_next_sequence sink + 1, as_file := file\<rparr>
      in case result of
           Inl e \<Rightarrow> (Inl e, sink'\<lparr>as_failed_writes := as_failed_writes sink + 1\<rparr>)
         | Inr _ \<Rightarrow> (Inr event_id, sink'))"

definition record_event ::
  "'v audit_json \<Rightarrow> wall_clock_time \<Rightarrow> write_outcome \<Rightarrow> authorization_event \<Rightarrow> audit_sink \<Rightarrow> audit_sink"
where
  "record_event j recorded_at outcome event sink =
     snd (audit_append j recorded_at outcome (recorded_entry event) sink)"

section \<open>Reading the log\<close>

datatype unreadable_reason = UnreadVersion u16 u16 | UnreadMalformed string

record unreadable_line =
  ul_line_number :: u64
  ul_reason :: unreadable_reason
  ul_event_id :: "audit_event_id option"

record log_scan =
  sc_records :: "audit_record list"
  sc_unreadable :: "unreadable_line list"
  sc_gaps :: "audit_event_id list"

definition recover_event_id :: "'v audit_json \<Rightarrow> 'v \<Rightarrow> audit_event_id option" where
  "recover_event_id j payload =
     (case aj_get j payload ''event_id'' of
        None \<Rightarrow> None
      | Some event_id \<Rightarrow>
          (case Option.bind (aj_get j event_id ''instance'') (aj_as_str j) of
             None \<Rightarrow> None
           | Some inst \<Rightarrow>
               (case Option.bind (aj_get j event_id ''sequence'') (aj_as_u64 j) of
                  None \<Rightarrow> None
                | Some seq \<Rightarrow> Some \<lparr>aei_instance = inst, aei_sequence = seq\<rparr>)))"

text \<open>One line of the log: a record, or why it is not one.\<close>

definition read_line ::
  "'v audit_json \<Rightarrow> u64 \<Rightarrow> string \<Rightarrow> (unreadable_line, audit_record) result" where
  "read_line j line_number line =
     (case aj_envelope j line of
        Inl e \<Rightarrow> Inl \<lparr>ul_line_number = line_number, ul_reason = UnreadMalformed e, ul_event_id = None\<rparr>
      | Inr envelope \<Rightarrow>
          if v_version envelope \<noteq> DOMAIN_SCHEMA_VERSION
          then Inl \<lparr>ul_line_number = line_number,
                    ul_reason = UnreadVersion (v_version envelope) DOMAIN_SCHEMA_VERSION,
                    ul_event_id = recover_event_id j (v_payload envelope)\<rparr>
          else case aj_record j line of
            Inr r \<Rightarrow> Inr (v_payload r)
          | Inl e \<Rightarrow>
              Inl \<lparr>ul_line_number = line_number, ul_reason = UnreadMalformed e,
                   ul_event_id = recover_event_id j (v_payload envelope)\<rparr>)"

fun read_lines ::
  "'v audit_json \<Rightarrow> nat \<Rightarrow> string list \<Rightarrow> audit_record list \<times> unreadable_line list \<Rightarrow>
     audit_record list \<times> unreadable_line list" where
  "read_lines j index [] acc = acc"
| "read_lines j index (line # rest) (records, unreadable) =
     (if blank_line line then read_lines j (index + 1) rest (records, unreadable)
      else case read_line j ((case u64_try_from index of Some n \<Rightarrow> n | None \<Rightarrow> - 1) + 1) line of
        Inr r \<Rightarrow> read_lines j (index + 1) rest (records @ [r], unreadable)
      | Inl u \<Rightarrow> read_lines j (index + 1) rest (records, unreadable @ [u]))"

text \<open>The map from instances to the sequence numbers seen, then its walk in key order.\<close>

definition note_event ::
  "audit_event_id \<Rightarrow> (issuer_instance_id \<times> u64 set) list \<Rightarrow> (issuer_instance_id \<times> u64 set) list" where
  "note_event e m =
     AList.update (aei_instance e)
       (insert (aei_sequence e) (case map_of m (aei_instance e) of Some s \<Rightarrow> s | None \<Rightarrow> {})) m"

definition instance_gaps :: "issuer_instance_id \<Rightarrow> u64 set \<Rightarrow> audit_event_id list" where
  "instance_gaps inst present =
     (if present = {} then []
      else map (\<lambda>s. \<lparr>aei_instance = inst, aei_sequence = s\<rparr>)
             (filter (\<lambda>s. s \<notin> present) (map of_nat [0 ..< unat (Max present) + 1])))"

definition detect_gaps :: "audit_record list \<Rightarrow> unreadable_line list \<Rightarrow> audit_event_id list" where
  "detect_gaps records unreadable =
     (let by_instance =
            fold note_event (List.map_filter ul_event_id unreadable)
              (fold note_event (map ar_event_id records) [])
      in concat (map (\<lambda>inst. instance_gaps inst
                   (case map_of by_instance inst of Some s \<Rightarrow> s | None \<Rightarrow> {}))
           (sort (map fst by_instance))))"

definition read_log :: "'v audit_json \<Rightarrow> (string, string) result \<Rightarrow> (string, log_scan) result" where
  "read_log j contents =
     (case contents of
        Inl e \<Rightarrow> Inl e
      | Inr text \<Rightarrow>
          (let (records, unreadable) = read_lines j 0 (text_lines text) ([], [])
           in Inr \<lparr>sc_records = records, sc_unreadable = unreadable,
                   sc_gaps = detect_gaps records unreadable\<rparr>))"

section \<open>Selectors\<close>

datatype selector = SelEvent audit_event_id | SelLease lease_id | SelPid u32

datatype selection_result = Found "audit_record list" | NotFound | PossiblyLost

definition found_or_not :: "audit_record list \<Rightarrow> selection_result" where
  "found_or_not matches = (if matches = [] then NotFound else Found matches)"

fun select :: "log_scan \<Rightarrow> selector \<Rightarrow> selection_result" where
  "select scan (SelEvent e) =
     (case find (\<lambda>r. ar_event_id r = e) (sc_records scan) of
        Some r \<Rightarrow> Found [r]
      | None \<Rightarrow> if e \<in> set (sc_gaps scan) then PossiblyLost else NotFound)"
| "select scan (SelLease lid) =
     found_or_not (filter (\<lambda>r. record_lease_id r = Some lid) (sc_records scan))"
| "select scan (SelPid pid) =
     found_or_not (filter (\<lambda>r. rpc_pid (rp_credential (ar_peer r)) = pid) (sc_records scan))"

section \<open>The explain command\<close>

datatype explain_error =
    RequiresValue string
  | NotAnEventId string
  | InvalidSequence string
  | InvalidPid string
  | UnrecognizedArgument string
  | NoLogPath
  | NoSelector
  | CannotRead string

definition parse_event_id :: "string \<Rightarrow> (explain_error, audit_event_id) result" where
  "parse_event_id text =
     (case rsplit_once CHR ''#'' text of
        None \<Rightarrow> Inl (NotAnEventId text)
      | Some (inst, seq) \<Rightarrow>
          (case parse_u64 seq of
             None \<Rightarrow> Inl (InvalidSequence text)
           | Some n \<Rightarrow> Inr \<lparr>aei_instance = inst, aei_sequence = n\<rparr>))"

fun explain_args ::
  "string list \<Rightarrow> string option \<times> selector option \<Rightarrow>
     (explain_error, string option \<times> selector option) result" where
  "explain_args [] st = Inr st"
| "explain_args (arg # args) (log_path, sel) =
     (if arg = ''--log'' then
        (case args of
           [] \<Rightarrow> Inl (RequiresValue arg)
         | v # rest \<Rightarrow> explain_args rest (Some v, sel))
      else if arg = ''--event'' then
        (case args of
           [] \<Rightarrow> Inl (RequiresValue arg)
         | v # rest \<Rightarrow>
             (case parse_event_id v of
                Inl e \<Rightarrow> Inl e
              | Inr e \<Rightarrow> explain_args rest (log_path, Some (SelEvent e))))
      else if arg = ''--lease'' then
        (case args of
           [] \<Rightarrow> Inl (RequiresValue arg)
         | v # rest \<Rightarrow>
             (case parse_event_id v of
                Inl e \<Rightarrow> Inl e
              | Inr e \<Rightarrow>
                  explain_args rest
                    (log_path, Some (SelLease \<lparr>lid_issuer = aei_instance e, lid_sequence = aei_sequence e\<rparr>))))
      else if arg = ''--pid'' then
        (case args of
           [] \<Rightarrow> Inl (RequiresValue arg)
         | v # rest \<Rightarrow>
             (case parse_u32 v of
                None \<Rightarrow> Inl (InvalidPid v)
              | Some pid \<Rightarrow> explain_args rest (log_path, Some (SelPid pid))))
      else Inl (UnrecognizedArgument arg))"

definition explain_run ::
  "'v audit_json \<Rightarrow> string option \<Rightarrow> string list \<Rightarrow> (string \<Rightarrow> (string, string) result) \<Rightarrow>
     (explain_error, selection_result) result" where
  "explain_run j env_log args read_to_string =
     (case explain_args args (env_log, None) of
        Inl e \<Rightarrow> Inl e
      | Inr (None, _) \<Rightarrow> Inl NoLogPath
      | Inr (Some _, None) \<Rightarrow> Inl NoSelector
      | Inr (Some path, Some sel) \<Rightarrow>
          (case read_log j (read_to_string path) of
             Inl e \<Rightarrow> Inl (CannotRead e)
           | Inr scan \<Rightarrow> Inr (select scan sel)))"

text \<open>The exit code of the command.\<close>

definition explain_exit :: "(explain_error, selection_result) result \<Rightarrow> nat" where
  "explain_exit r = (case r of Inl _ \<Rightarrow> 1 | Inr (Found _) \<Rightarrow> 0 | Inr _ \<Rightarrow> 2)"

text \<open>\<open>render\<close>: one line for each part of the record. How the derived debug formatting prints a part is a
  field of \<open>debug_formats\<close>; the dash of the note is its three bytes.\<close>

record debug_formats =
  df_operation :: "recorded_operation \<Rightarrow> string"
  df_request :: "recorded_request \<Rightarrow> string"
  df_consistency :: "recorded_peer_consistency \<Rightarrow> string"
  df_id :: "u32 evidence \<Rightarrow> string"
  df_text :: "string evidence \<Rightarrow> string"
  df_outcome :: "recorded_outcome \<Rightarrow> string"
  df_response :: "agent_response \<Rightarrow> string"

definition int_to_string :: "int \<Rightarrow> string" where
  "int_to_string k = (if k < 0 then ''-'' @ dec_of_nat (nat (- k)) else dec_of_nat (nat k))"

definition nine_digits :: "nat \<Rightarrow> string" where
  "nine_digits n = replicate (9 - length (dec_of_nat n)) (CHR ''0'') @ dec_of_nat n"

definition release_note :: string where
  "release_note =
     ''note: a release record does not name a resource '' @ [CHR 0xE2, CHR 0x80, CHR 0x94] @
     '' correlate to the grant record for the same lease id to recover it.''"

definition render_lines :: "debug_formats \<Rightarrow> audit_record \<Rightarrow> string list" where
  "render_lines df r =
     (let observed = rp_observed (ar_peer r); workload = ec_workload observed in
      [''event: '' @ event_id_display (ar_event_id r),
       ''recorded_at: unix '' @ int_to_string (wc_unix_secs (ar_recorded_at r)) @ ''s.'' @
         nine_digits (unat (wc_nanos (ar_recorded_at r))) @ ''n'',
       ''operation: '' @ df_operation df (ar_operation r),
       ''requested: '' @ df_request df (ar_requested r),
       ''peer: pid='' @ u32_to_string (rpc_pid (rp_credential (ar_peer r))) @ '' consistency='' @
         df_consistency df (rp_consistency (ar_peer r)),
       ''workload: uid='' @ df_id df (wi_uid workload) @ '' executable_path='' @
         df_text df (wi_executable_path workload) @ '' executable_hash='' @
         df_text df (wi_executable_hash workload) @ '' cgroup='' @ df_text df (ec_cgroup_path observed),
       ''outcome: '' @ df_outcome df (ar_outcome r),
       ''response: '' @ df_response df (ar_response r)] @
      (case ar_requested r of RecReleaseLease _ \<Rightarrow> [release_note] | _ \<Rightarrow> []))"

definition render :: "debug_formats \<Rightarrow> audit_record \<Rightarrow> string" where
  "render df r = concat (map (\<lambda>line. line @ [newline]) (render_lines df r))"

text \<open>What \<open>run\<close> prints for a selection.\<close>

fun explain_output :: "debug_formats \<Rightarrow> selection_result \<Rightarrow> string" where
  "explain_output df (Found records) = concat (map (\<lambda>r. render df r @ [newline]) records)"
| "explain_output df PossiblyLost =
     ''no record found for that event id, but it falls inside an observed sequence gap for its agent instance ''
     @ [CHR 0xE2, CHR 0x80, CHR 0x94] @
     '' it may exist and have failed to persist (audit persistence is best-effort; see docs/product/SECURITY_MODEL.md).''
     @ [newline]"
| "explain_output df NotFound = ''no matching record found.'' @ [newline]"

section \<open>Recording loses nothing\<close>

lemma recorded_operation_inject [simp]:
  "recorded_operation_of a = recorded_operation_of b \<longleftrightarrow> a = b"
  by (cases a; cases b) simp_all

lemma recorded_request_inject [simp]: "recorded_request_of a = recorded_request_of b \<longleftrightarrow> a = b"
  by (cases a; cases b) auto

lemma recorded_peer_consistency_inject [simp]:
  "recorded_peer_consistency_of a = recorded_peer_consistency_of b \<longleftrightarrow> a = b"
  by (cases a; cases b) simp_all

lemma recorded_peer_inject [simp]: "recorded_peer_of a = recorded_peer_of b \<longleftrightarrow> a = b"
  by (cases a; cases b; cases "pc_credential a"; cases "pc_credential b")
     (auto simp: recorded_peer_of_def recorded_peer_credential_of_def)

lemma recorded_decision_reason_inject [simp]:
  "recorded_decision_reason_of a = recorded_decision_reason_of b \<longleftrightarrow> a = b"
  by (cases a; cases b) simp_all

lemma recorded_policy_decision_inject [simp]:
  "recorded_policy_decision_of a = recorded_policy_decision_of b \<longleftrightarrow> a = b"
  by (cases a; cases b; cases "pd_policy a"; cases "pd_policy b")
     (auto simp: recorded_policy_decision_of_def recorded_policy_provenance_of_def)

lemma recorded_lease_error_inject [simp]:
  "recorded_lease_error_of a = recorded_lease_error_of b \<longleftrightarrow> a = b"
  by (cases a; cases b) simp_all

lemma recorded_lease_validity_inject [simp]:
  "recorded_lease_validity_of a = recorded_lease_validity_of b \<longleftrightarrow> a = b"
  by (cases a; cases b) simp_all

lemma recorded_outcome_inject [simp]: "recorded_outcome_of a = recorded_outcome_of b \<longleftrightarrow> a = b"
  by (cases a; cases b) simp_all

section \<open>Reading line by line\<close>

lemma read_lines_append:
  "read_lines j i (xs @ ys) acc = read_lines j (i + length xs) ys (read_lines j i xs acc)"
proof (induction xs arbitrary: i acc)
  case (Cons x xs)
  then show ?case
    by (cases acc) (auto split: sum.splits)
qed simp

section \<open>Gaps\<close>

lemma map_of_note_event:
  "map_of (note_event e m) inst =
     (if inst = aei_instance e
      then Some (insert (aei_sequence e) (case map_of m inst of Some s \<Rightarrow> s | None \<Rightarrow> {}))
      else map_of m inst)"
  by (simp add: note_event_def)

definition seen_sequences :: "(issuer_instance_id \<times> u64 set) list \<Rightarrow> issuer_instance_id \<Rightarrow> u64 set" where
  "seen_sequences m inst = (case map_of m inst of Some s \<Rightarrow> s | None \<Rightarrow> {})"

lemma seen_fold_note:
  "seen_sequences (fold note_event es m) inst =
     seen_sequences m inst \<union> {s. \<lparr>aei_instance = inst, aei_sequence = s\<rparr> \<in> set es}"
proof (induction es arbitrary: m)
  case (Cons e es)
  have "seen_sequences (note_event e m) inst =
      seen_sequences m inst \<union> {s. \<lparr>aei_instance = inst, aei_sequence = s\<rparr> = e}"
    by (cases e) (auto simp: seen_sequences_def map_of_note_event)
  then show ?case by (auto simp: Cons.IH)
qed simp

lemma seen_Nil [simp]: "seen_sequences [] inst = {}"
  by (simp add: seen_sequences_def)

lemma seen_key: "s \<in> seen_sequences m inst \<Longrightarrow> inst \<in> set (map fst m)"
  by (auto simp: seen_sequences_def split: option.splits dest: map_of_SomeD intro: rev_image_eqI)

lemma set_instance_gaps:
  "e \<in> set (instance_gaps inst present) \<longleftrightarrow>
     aei_instance e = inst \<and> aei_sequence e \<notin> present \<and> (\<exists>s\<in>present. aei_sequence e \<le> s)"
proof (cases "present = {}")
  case False
  have "of_nat ` {0 ..< unat (Max present) + 1} = {s :: u64. s \<le> Max present}"
  proof
    show "of_nat ` {0 ..< unat (Max present) + 1} \<subseteq> {s. s \<le> Max present}"
    proof safe
      fix n assume "n \<in> {0 ..< unat (Max present) + 1}"
      then have n: "n \<le> unat (Max present)" by simp
      moreover have "unat (Max present) < 2 ^ LENGTH(64)" by (rule unsigned_less)
      ultimately have "unat (of_nat n :: u64) = n" by (simp add: unat_of_nat_u64)
      with n show "(of_nat n :: u64) \<le> Max present" by (simp add: word_le_nat_alt)
    qed
    show "{s. s \<le> Max present} \<subseteq> of_nat ` {0 ..< unat (Max present) + 1}"
    proof
      fix s assume "s \<in> {s. s \<le> Max present}"
      then have "unat s \<in> {0 ..< unat (Max present) + 1}" by (simp add: word_le_nat_alt)
      then show "s \<in> of_nat ` {0 ..< unat (Max present) + 1}"
        by (rule rev_image_eqI) simp
    qed
  qed
  moreover have "s \<le> Max present \<longleftrightarrow> (\<exists>s'\<in>present. s \<le> s')" for s
    using False by (simp add: Max_ge_iff)
  ultimately have "aei_sequence e \<in> set (filter (\<lambda>s. s \<notin> present)
        (map of_nat [0 ..< unat (Max present) + 1])) \<longleftrightarrow>
      aei_sequence e \<notin> present \<and> (\<exists>s'\<in>present. aei_sequence e \<le> s')"
    by (auto simp del: upt_Suc)
  moreover have "e \<in> (\<lambda>s. \<lparr>aei_instance = inst, aei_sequence = s\<rparr>) ` S \<longleftrightarrow>
      aei_instance e = inst \<and> aei_sequence e \<in> S" for S
    by (cases e) auto
  ultimately show ?thesis
    using False by (simp add: instance_gaps_def del: set_filter upt_Suc)
qed (simp add: instance_gaps_def)

definition observed_ids :: "audit_record list \<Rightarrow> unreadable_line list \<Rightarrow> audit_event_id set" where
  "observed_ids records unreadable =
     set (map ar_event_id records) \<union> {e. \<exists>u\<in>set unreadable. ul_event_id u = Some e}"

lemma set_map_filter_event: "set (List.map_filter ul_event_id us) = {e. \<exists>u\<in>set us. ul_event_id u = Some e}"
  by (force simp: map_filter_def)

lemma set_detect_gaps:
  "e \<in> set (detect_gaps records unreadable) \<longleftrightarrow>
     e \<notin> observed_ids records unreadable \<and>
     (\<exists>e'\<in>observed_ids records unreadable.
        aei_instance e' = aei_instance e \<and> aei_sequence e \<le> aei_sequence e')"
proof -
  let ?m = "fold note_event (List.map_filter ul_event_id unreadable)
              (fold note_event (map ar_event_id records) [])"
  have seen: "seen_sequences ?m inst = {s. \<lparr>aei_instance = inst, aei_sequence = s\<rparr> \<in> observed_ids records unreadable}"
    for inst
    by (auto simp: seen_fold_note observed_ids_def set_map_filter_event)
  have "e \<in> set (detect_gaps records unreadable) \<longleftrightarrow>
      (\<exists>inst\<in>set (map fst ?m). e \<in> set (instance_gaps inst (seen_sequences ?m inst)))"
    by (simp add: detect_gaps_def Let_def seen_sequences_def)
  also have "\<dots> \<longleftrightarrow> e \<in> set (instance_gaps (aei_instance e) (seen_sequences ?m (aei_instance e)))"
    using seen_key [of _ ?m] by (auto simp: set_instance_gaps simp del: set_map)
  also have "\<dots> \<longleftrightarrow> e \<notin> observed_ids records unreadable \<and>
      (\<exists>e'\<in>observed_ids records unreadable.
         aei_instance e' = aei_instance e \<and> aei_sequence e \<le> aei_sequence e')"
  proof -
    have "\<lparr>aei_instance = aei_instance e, aei_sequence = aei_sequence e\<rparr> = e" by simp
    moreover have "(\<exists>s. \<lparr>aei_instance = aei_instance e, aei_sequence = s\<rparr> \<in> O' \<and> aei_sequence e \<le> s) \<longleftrightarrow>
        (\<exists>e'\<in>O'. aei_instance e' = aei_instance e \<and> aei_sequence e \<le> aei_sequence e')" for O'
      by (metis audit_event_id.select_convs audit_event_id.surjective old.unit.exhaust)
    ultimately show ?thesis
      by (simp only: set_instance_gaps seen mem_Collect_eq Bex_def simp_thms)
  qed
  finally show ?thesis .
qed

section \<open>Histories of the sink\<close>

type_synonym append_call = "wall_clock_time \<times> write_outcome \<times> audit_entry"

definition minted_record ::
  "issuer_instance_id \<Rightarrow> u64 \<Rightarrow> wall_clock_time \<Rightarrow> audit_entry \<Rightarrow> audit_record" where
  "minted_record inst seq recorded_at entry =
     \<lparr>ar_event_id = \<lparr>aei_instance = inst, aei_sequence = seq\<rparr>, ar_recorded_at = recorded_at,
      ar_operation = ae_operation entry, ar_requested = ae_requested entry,
      ar_peer = ae_peer entry, ar_outcome = ae_outcome entry, ar_response = ae_response entry\<rparr>"

definition sink_run :: "'v audit_json \<Rightarrow> append_call list \<Rightarrow> audit_sink \<Rightarrow> audit_sink" where
  "sink_run j calls sink = fold (\<lambda>(t, w, e) s. snd (audit_append j t w e s)) calls sink"

lemma sink_run_snoc:
  "sink_run j (calls @ [(t, w, e)]) sink = snd (audit_append j t w e (sink_run j calls sink))"
  by (simp add: sink_run_def)

text \<open>The records of the calls whose write went through, in order.\<close>

definition written_records :: "issuer_instance_id \<Rightarrow> append_call list \<Rightarrow> audit_record list" where
  "written_records inst calls =
     map (\<lambda>(i, t, w, e). minted_record inst (of_nat i) t e)
       (filter (\<lambda>(i, t, w, e). w = Written) (enumerate 0 calls))"

lemma written_records_snoc:
  "written_records inst (calls @ [(t, w, e)]) =
     written_records inst calls @
       (if w = Written then [minted_record inst (of_nat (length calls)) t e] else [])"
  by (simp add: written_records_def enumerate_append_eq)

text \<open>What the library does with a record it wrote: one plain line, read back as the record.\<close>

definition record_faithful :: "'v audit_json \<Rightarrow> audit_record \<Rightarrow> bool" where
  "record_faithful j r \<longleftrightarrow>
     (\<exists>text env. aj_to_string j (versioned_current r) = Inr text \<and> plain_line text \<and>
        \<not> blank_line text \<and> aj_envelope j text = Inr env \<and> v_version env = DOMAIN_SCHEMA_VERSION \<and>
        aj_record j text = Inr (versioned_current r))"

lemma read_line_faithful:
  assumes "aj_envelope j text = Inr env" and "v_version env = DOMAIN_SCHEMA_VERSION"
    and "aj_record j text = Inr (versioned_current r)"
  shows "read_line j n text = Inr r"
  using assms by (simp add: read_line_def versioned_current_def)

definition clean_call :: "append_call \<Rightarrow> bool" where
  "clean_call c = (case c of (t, w, e) \<Rightarrow> (case w of Written \<Rightarrow> True | WriteFailed n _ \<Rightarrow> n = 0))"

lemma audit_append_simps:
  "as_instance (snd (audit_append j t w e s)) = as_instance s"
  "as_next_sequence (snd (audit_append j t w e s)) = as_next_sequence s + 1"
  "as_file (snd (audit_append j t w e s)) =
     snd (write_line j w (minted_record (as_instance s) (as_next_sequence s) t e) (as_file s))"
  "fst (audit_append j t w e s) =
     (case fst (write_line j w (minted_record (as_instance s) (as_next_sequence s) t e) (as_file s)) of
        Inl err \<Rightarrow> Inl err
      | Inr _ \<Rightarrow> Inr \<lparr>aei_instance = as_instance s, aei_sequence = as_next_sequence s\<rparr>)"
  by (simp_all add: audit_append_def minted_record_def Let_def split_beta split: sum.splits)

lemma sink_run_state:
  "as_instance (sink_run j calls sink) = as_instance sink \<and>
   as_next_sequence (sink_run j calls sink) = as_next_sequence sink + of_nat (length calls)"
proof (induction calls rule: rev_induct)
  case (snoc c calls)
  then show ?case
    by (cases c) (simp add: sink_run_snoc audit_append_simps)
qed (simp add: sink_run_def)

text \<open>After a clean history the file is the written records, line by line.\<close>

lemma clean_history_file:
  assumes "\<forall>c\<in>set calls. clean_call c"
    and "\<forall>r\<in>set (written_records inst calls). record_faithful j r"
  shows "whole_lines (as_file (sink_run j calls (sink_from_writer [] inst))) \<and>
    read_lines j 0 (text_lines (as_file (sink_run j calls (sink_from_writer [] inst)))) ([], []) =
      (written_records inst calls, [])"
  using assms
proof (induction calls rule: rev_induct)
  case Nil
  then show ?case
    by (simp add: sink_run_def sink_from_writer_def written_records_def)
next
  case (snoc c calls)
  obtain t w e where c: "c = (t, w, e)" by (cases c)
  let ?s = "sink_run j calls (sink_from_writer [] inst)"
  let ?r = "minted_record inst (of_nat (length calls)) t e"
  have IH: "whole_lines (as_file ?s)"
    "read_lines j 0 (text_lines (as_file ?s)) ([], []) = (written_records inst calls, [])"
    using snoc by (simp_all add: c written_records_snoc)
  have state: "as_instance ?s = inst" "as_next_sequence ?s = of_nat (length calls)"
    using sink_run_state [of j calls "sink_from_writer [] inst"] by (simp_all add: sink_from_writer_def)
  show ?case
  proof (cases w)
    case Written
    then have "record_faithful j ?r"
      using snoc.prems(2) by (simp add: c written_records_snoc)
    then obtain ln env where ln: "aj_to_string j (versioned_current ?r) = Inr ln" "plain_line ln"
      "\<not> blank_line ln" and parsed: "aj_envelope j ln = Inr env" "v_version env = DOMAIN_SCHEMA_VERSION"
      "aj_record j ln = Inr (versioned_current ?r)"
      by (auto simp: record_faithful_def)
    have "as_file (sink_run j (calls @ [c]) (sink_from_writer [] inst)) = as_file ?s @ ln @ [newline]"
      by (simp add: c sink_run_snoc audit_append_simps state Written write_line_def ln(1))
    then show ?thesis
      using IH ln(3) read_line_faithful [OF parsed]
      by (simp add: text_lines_snoc [OF IH(1) ln(2)] read_lines_append c written_records_snoc Written)
  next
    case (WriteFailed n err)
    then have "n = 0" using snoc.prems(1) by (simp add: c clean_call_def)
    then have "as_file (sink_run j (calls @ [c]) (sink_from_writer [] inst)) = as_file ?s"
      by (simp add: c sink_run_snoc audit_append_simps WriteFailed write_line_def split: sum.splits)
    then show ?thesis
      using IH by (simp add: c written_records_snoc WriteFailed)
  qed
qed

lemma of_nat_u64_inject:
  "i < 2 ^ 64 \<Longrightarrow> k < 2 ^ 64 \<Longrightarrow> (of_nat i :: u64) = of_nat k \<longleftrightarrow> i = k"
  by (metis unat_of_nat_u64)

lemma of_nat_u64_le:
  "i < 2 ^ 64 \<Longrightarrow> k < 2 ^ 64 \<Longrightarrow> (of_nat i :: u64) \<le> of_nat k \<longleftrightarrow> i \<le> k"
  by (simp add: word_le_nat_alt unat_of_nat_u64)

lemma set_written_records:
  "r \<in> set (written_records inst calls) \<longleftrightarrow>
     (\<exists>i<length calls. fst (snd (calls ! i)) = Written \<and>
        r = minted_record inst (of_nat i) (fst (calls ! i)) (snd (snd (calls ! i))))"
  by (auto simp: written_records_def in_set_enumerate_eq image_iff Bex_def split_beta)

lemma minted_record_id [simp]:
  "ar_event_id (minted_record inst seq t e) = \<lparr>aei_instance = inst, aei_sequence = seq\<rparr>"
  by (simp add: minted_record_def)

lemma find_unique:
  assumes "x \<in> set xs" and "P x" and "\<And>y. y \<in> set xs \<Longrightarrow> P y \<Longrightarrow> y = x"
  shows "find P xs = Some x"
  using assms
proof (induction xs)
  case (Cons a xs)
  show ?case
  proof (cases "P a")
    case True
    then show ?thesis using Cons.prems(3) [of a] by simp
  next
    case False
    then have "x \<in> set xs" using Cons.prems(1,2) by auto
    moreover have "find P xs = Some x"
      using \<open>x \<in> set xs\<close> Cons.prems(2) Cons.prems(3) by (intro Cons.IH) (blast intro: list.set_intros)+
    ultimately show ?thesis using False by simp
  qed
qed simp

text \<open>What the selection of an event gives, on the scan of a clean history.\<close>

lemma select_written:
  assumes len: "length calls < 2 ^ 64" and i: "i < length calls"
    and scan: "sc_records scan = written_records inst calls" "sc_unreadable scan = []"
      "sc_gaps scan = detect_gaps (sc_records scan) (sc_unreadable scan)"
  shows "select scan (SelEvent \<lparr>aei_instance = inst, aei_sequence = of_nat i\<rparr>) =
    (case calls ! i of (t, w, e) \<Rightarrow>
       if w = Written then Found [minted_record inst (of_nat i) t e]
       else if \<exists>k>i. k < length calls \<and> fst (snd (calls ! k)) = Written then PossiblyLost
       else NotFound)"
proof -
  let ?id = "\<lparr>aei_instance = inst, aei_sequence = of_nat i :: u64\<rparr>"
  obtain t w e where c: "calls ! i = (t, w, e)" by (cases "calls ! i")
  have idx: "k < length calls \<Longrightarrow> (of_nat k :: u64) = of_nat i \<longleftrightarrow> k = i" for k
    using of_nat_u64_inject [of k i] len i by simp
  show ?thesis
  proof (cases "w = Written")
    case True
    have "find (\<lambda>r. ar_event_id r = ?id) (written_records inst calls) =
        Some (minted_record inst (of_nat i) t e)"
    proof (rule find_unique)
      show "minted_record inst (of_nat i) t e \<in> set (written_records inst calls)"
        unfolding set_written_records using i c True by (intro exI [of _ i]) simp
    qed (use c idx in \<open>auto simp: set_written_records\<close>)
    then show ?thesis by (simp add: scan(1) c True)
  next
    case False
    have none: "find (\<lambda>r. ar_event_id r = ?id) (written_records inst calls) = None"
      using False c idx by (auto simp: find_None_iff set_written_records)
    have ids: "observed_ids (written_records inst calls) [] =
        {\<lparr>aei_instance = inst, aei_sequence = of_nat k\<rparr> | k. k < length calls \<and> fst (snd (calls ! k)) = Written}"
      by (force simp: observed_ids_def set_written_records)
    have not_seen: "?id \<notin> {\<lparr>aei_instance = inst, aei_sequence = of_nat k\<rparr> | k.
        k < length calls \<and> fst (snd (calls ! k)) = Written}"
    proof
      assume "?id \<in> {\<lparr>aei_instance = inst, aei_sequence = of_nat k\<rparr> | k.
          k < length calls \<and> fst (snd (calls ! k)) = Written}"
      then obtain k where k: "k < length calls" "fst (snd (calls ! k)) = Written"
        and "(of_nat i :: u64) = of_nat k" by auto
      then have "k = i" using idx [of k] by simp
      then show False using k(2) False c by simp
    qed
    have "?id \<in> set (sc_gaps scan) \<longleftrightarrow> (\<exists>k>i. k < length calls \<and> fst (snd (calls ! k)) = Written)"
    proof -
      have "?id \<in> set (sc_gaps scan) \<longleftrightarrow>
          (\<exists>k. k < length calls \<and> fst (snd (calls ! k)) = Written \<and> (of_nat i :: u64) \<le> of_nat k)"
        unfolding scan set_detect_gaps ids using not_seen
        by (auto 0 3 simp del: not_less) (metis audit_event_id.select_convs(2))
      also have "\<dots> \<longleftrightarrow> (\<exists>k. k < length calls \<and> fst (snd (calls ! k)) = Written \<and> i \<le> k)"
        using len i of_nat_u64_le [of i] by (metis (no_types, lifting) less_trans)
      also have "\<dots> \<longleftrightarrow> (\<exists>k>i. k < length calls \<and> fst (snd (calls ! k)) = Written)"
        using False c by (metis fst_conv le_neq_implies_less less_imp_le_nat snd_conv)
      finally show ?thesis .
    qed
    then show ?thesis
      using False by (simp add: scan(1) c none)
  qed
qed

section \<open>What the log tells of the events\<close>


text \<open>A log of three appends.\<close>

definition demo_entry :: audit_entry where
  "demo_entry = recorded_entry
     \<lparr>ev_operation = OpAgentStatus, ev_request = AgentStatus, ev_peer = demo_peer,
      ev_outcome = StatusReported, ev_response = RespStatus \<lparr>asv_protocol_version = 1\<rparr>\<rparr>"

definition demo_time :: wall_clock_time where
  "demo_time = \<lparr>wc_unix_secs = 1700000000, wc_nanos = 0\<rparr>"

definition demo_log_json :: "unit audit_json" where
  "demo_log_json =
     \<lparr>aj_to_string = (\<lambda>v. Inr
        (if aei_sequence (ar_event_id (v_payload v)) = 0 then ''{0}''
         else if aei_sequence (ar_event_id (v_payload v)) = 1 then ''{1}'' else ''{2}'')),
      aj_envelope = (\<lambda>l. if l \<in> {''{0}'', ''{1}'', ''{2}''} then Inr (versioned_current ()) else Inl ''syntax''),
      aj_record = (\<lambda>l. Inr (versioned_current (minted_record ''agent'' 
        (if l = ''{0}'' then 0 else if l = ''{1}'' then 1 else 2) demo_time demo_entry))),
      aj_get = (\<lambda>_ _. None), aj_as_str = (\<lambda>_. None), aj_as_u64 = (\<lambda>_. None)\<rparr>"

lemma demo_log_faithful:
  "n \<in> {0, 1, 2} \<Longrightarrow> record_faithful demo_log_json (minted_record ''agent'' n demo_time demo_entry)"
  by (auto simp: record_faithful_def demo_log_json_def plain_line_def blank_line_def split_whitespace_def ascii_space_def
      newline_def versioned_current_def DOMAIN_SCHEMA_VERSION_def)


text \<open>A write that failed after part of its line puts the next record on the same line.\<close>

lemma plain_line_append: "newline \<notin> set a \<Longrightarrow> plain_line b \<Longrightarrow> plain_line (a @ b)"
  by (auto simp: plain_line_def)

lemma unobserved_id_not_found:
  assumes "\<forall>e\<in>observed_ids (sc_records scan) (sc_unreadable scan).
      aei_instance e = aei_instance event \<longrightarrow> aei_sequence e < aei_sequence event"
    and "sc_gaps scan = detect_gaps (sc_records scan) (sc_unreadable scan)"
  shows "select scan (SelEvent event) = NotFound"
proof -
  have "find (\<lambda>r. ar_event_id r = event) (sc_records scan) = None"
    using assms(1) by (force simp: find_None_iff observed_ids_def)
  moreover have "event \<notin> set (sc_gaps scan)"
    using assms by (force simp: set_detect_gaps)
  ultimately show ?thesis by simp
qed

lemma written_ids_before:
  assumes "length calls < 2 ^ 64" and "m < 2 ^ 64" and "length calls \<le> m"
    and "e \<in> observed_ids (written_records inst calls) us" and "\<forall>u\<in>set us. ul_event_id u = None"
  shows "aei_sequence e < of_nat m"
proof -
  obtain i where "i < length calls" and e: "aei_sequence e = of_nat i"
    using assms(4,5) by (auto simp: observed_ids_def set_written_records)
  then show ?thesis
    using assms(1-3) of_nat_u64_le [of m i] by (auto simp: not_le [symmetric])
qed

text \<open>If a write fails after part of its line and the next append writes its whole line, that
  append, of a line with a visible character, returns its event id as recorded, yet, when the merged line is not an envelope, the log
  has one malformed line in its place and selecting the returned id finds nothing and reports no
  possible loss.\<close>

theorem torn_write_hides_the_next_record:
  fixes calls inst j
  defines "s0 \<equiv> sink_run j calls (sink_from_writer [] inst)"
  assumes "\<forall>c\<in>set calls. clean_call c"
    and "\<forall>r\<in>set (written_records inst calls). record_faithful j r"
    and "length calls + 1 < 2 ^ 64"
    and "aj_to_string j (versioned_current (minted_record inst (of_nat (length calls)) t1 e1)) = Inr l1"
    and "aj_to_string j (versioned_current (minted_record inst (of_nat (length calls + 1)) t2 e2)) = Inr l2"
    and "newline \<notin> set l1" and "plain_line l2"
    and "\<exists>c\<in>set l2. (of_char c :: nat) < 128 \<and> \<not> ascii_space c" and "n \<le> length l1"
    and "aj_envelope j (take n l1 @ l2) = Inl err"
  shows "let s1 = snd (audit_append j t1 (WriteFailed n io) e1 s0);
             (result, s2) = audit_append j t2 Written e2 s1;
             event = \<lparr>aei_instance = inst, aei_sequence = of_nat (length calls + 1)\<rparr>
         in result = Inr event \<and>
            (\<exists>scan. read_log j (Inr (as_file s2)) = Inr scan \<and>
               sc_records scan = written_records inst calls \<and> length (sc_unreadable scan) = 1 \<and>
               select scan (SelEvent event) = NotFound)"
proof -
  define s1 where "s1 = snd (audit_append j t1 (WriteFailed n io) e1 s0)"
  let ?line = "take n l1 @ l2"
  let ?event = "\<lparr>aei_instance = inst, aei_sequence = of_nat (length calls + 1)\<rparr>"
  have s0: "as_instance s0 = inst" "as_next_sequence s0 = of_nat (length calls)"
    unfolding s0_def using sink_run_state [of j calls "sink_from_writer [] inst"]
    by (simp_all add: sink_from_writer_def)
  have s1: "as_instance s1 = inst" "as_next_sequence s1 = of_nat (length calls + 1)"
    "as_file s1 = as_file s0 @ take n l1"
    by (simp_all add: s1_def audit_append_simps s0 write_line_def assms(5,10))
  note append2 = assms(6) [simplified]
  have result: "fst (audit_append j t2 Written e2 s1) = Inr ?event"
    and "as_file (snd (audit_append j t2 Written e2 s1)) = as_file s0 @ ?line @ [newline]"
    by (simp_all add: audit_append_simps s1 write_line_def append2)
  moreover have whole: "whole_lines (as_file s0)"
    and lines: "read_lines j 0 (text_lines (as_file s0)) ([], []) = (written_records inst calls, [])"
    using clean_history_file [OF assms(2,3)] by (simp_all add: s0_def)
  have "plain_line ?line"
    using assms(7,8) by (intro plain_line_append) (auto dest: in_set_takeD)
  ultimately have merged: "text_lines (as_file (snd (audit_append j t2 Written e2 s1))) =
      text_lines (as_file s0) @ [?line]"
    by (simp add: text_lines_snoc [OF whole, of ?line, simplified])
  have "\<exists>u. ul_event_id u = None \<and>
      read_lines j 0 (text_lines (as_file s0) @ [?line]) ([], []) = (written_records inst calls, [u])"
    using assms(9,11) visible_line [of ?line] by (auto simp: read_lines_append lines read_line_def)
  then obtain u where u: "ul_event_id u = None"
    and "read_lines j 0 (text_lines (as_file s0) @ [?line]) ([], []) = (written_records inst calls, [u])"
    by blast
  then have "read_log j (Inr (as_file (snd (audit_append j t2 Written e2 s1)))) =
      Inr \<lparr>sc_records = written_records inst calls, sc_unreadable = [u],
           sc_gaps = detect_gaps (written_records inst calls) [u]\<rparr>" (is "_ = Inr ?scan")
    by (simp add: read_log_def merged)
  moreover have "select ?scan (SelEvent ?event) = NotFound"
    using written_ids_before [of calls "length calls + 1" _ inst "[u]"] assms(4) u
    by (intro unobserved_id_not_found) auto
  ultimately show ?thesis
    using result by (simp add: s1_def [symmetric] Let_def split_beta del: select.simps)
qed

lemma torn_write_hides_the_next_record_witness:
  "let s0 = sink_run demo_log_json [(demo_time, Written, demo_entry)] (sink_from_writer [] ''agent'');
       s1 = snd (audit_append demo_log_json demo_time (WriteFailed 1 ''disk full'') demo_entry s0);
       (result, s2) = audit_append demo_log_json demo_time Written demo_entry s1;
       event = \<lparr>aei_instance = ''agent'', aei_sequence = of_nat 2\<rparr>
   in result = Inr event \<and>
      (\<exists>scan. read_log demo_log_json (Inr (as_file s2)) = Inr scan \<and>
         length (sc_unreadable scan) = 1 \<and> select scan (SelEvent event) = NotFound)"
proof -
  let ?calls = "[(demo_time, Written, demo_entry)]"
  have clean: "\<forall>c\<in>set ?calls. clean_call c"
    by (simp add: clean_call_def)
  have faithful: "\<forall>r\<in>set (written_records ''agent'' ?calls). record_faithful demo_log_json r"
    by (simp add: written_records_def demo_log_faithful)
  have "length ?calls + 1 < 2 ^ 64"
    and "aj_to_string demo_log_json
      (versioned_current (minted_record ''agent'' (of_nat (length ?calls)) demo_time demo_entry)) = Inr ''{1}''"
    and "aj_to_string demo_log_json
      (versioned_current (minted_record ''agent'' (of_nat (length ?calls + 1)) demo_time demo_entry)) = Inr ''{2}''"
    and "newline \<notin> set ''{1}''" and "plain_line ''{2}''" and "\<exists>c\<in>set ''{2}''. (of_char c :: nat) < 128 \<and> \<not> ascii_space c"
    and "1 \<le> length ''{1}''"
    and "aj_envelope demo_log_json (take 1 ''{1}'' @ ''{2}'') = Inl ''syntax''"
    by (simp_all add: plain_line_def newline_def
        blank_line_def split_whitespace_def ascii_space_def versioned_current_def demo_log_json_def)
  from torn_write_hides_the_next_record [OF clean faithful this, of "''disk full''"] show ?thesis
    by (auto simp: Let_def split_beta numeral_2_eq_2 simp del: select.simps)
qed

text \<open>In any log, whatever its lines, the reported gaps are exactly the event ids that were not
  read, from a record or from an unreadable line, although an id of the same instance with a
  sequence number at least as large was.\<close>

theorem gaps_are_exact:
  assumes "read_log j contents = Inr scan"
  shows "e \<in> set (sc_gaps scan) \<longleftrightarrow>
    e \<notin> observed_ids (sc_records scan) (sc_unreadable scan) \<and>
    (\<exists>e'\<in>observed_ids (sc_records scan) (sc_unreadable scan).
       aei_instance e' = aei_instance e \<and> aei_sequence e \<le> aei_sequence e')"
proof -
  have "sc_gaps scan = detect_gaps (sc_records scan) (sc_unreadable scan)"
    using assms by (auto simp: read_log_def split_beta split: sum.splits)
  then show ?thesis by (simp only: set_detect_gaps)
qed

lemma gaps_are_exact_witness:
  "\<lparr>aei_instance = ''agent'', aei_sequence = 1\<rparr> \<in> set (detect_gaps
     [minted_record ''agent'' 0 demo_time demo_entry, minted_record ''agent'' 2 demo_time demo_entry] [])"
proof -
  have "read_log demo_log_json (Inr (''{0}'' @ [newline] @ ''{2}'' @ [newline])) = Inr
      \<lparr>sc_records = [minted_record ''agent'' 0 demo_time demo_entry, minted_record ''agent'' 2 demo_time demo_entry],
       sc_unreadable = [], sc_gaps = detect_gaps
         [minted_record ''agent'' 0 demo_time demo_entry, minted_record ''agent'' 2 demo_time demo_entry] []\<rparr>"
    by (simp add: read_log_def text_lines_def newline_def strip_cr_def blank_line_def split_whitespace_def ascii_space_def
        read_line_def demo_log_json_def versioned_current_def DOMAIN_SCHEMA_VERSION_def)
  from gaps_are_exact [OF this, of "\<lparr>aei_instance = ''agent'', aei_sequence = 1\<rparr>"] show ?thesis
    by (simp add: observed_ids_def)
qed

text \<open>The record of an event determines it: no two different authorization events are recorded
  alike.\<close>

theorem recording_is_injective: "recorded_entry a = recorded_entry b \<longleftrightarrow> a = b"
  by (cases a; cases b) (auto simp: recorded_entry_def)

section \<open>The identifiers on the command line\<close>

lemma hash_not_in_u64: "CHR ''#'' \<notin> set (u64_to_string w)"
proof
  assume "CHR ''#'' \<in> set (u64_to_string w)"
  then have "digit_val (CHR ''#'') \<noteq> None"
    unfolding u64_to_string_def by (rule digit_val_dec_of_nat)
  then show False by (simp add: digit_val_def)
qed

lemma parse_event_id_display: "parse_event_id (event_id_display e) = Inr e"
  using rsplit_once_Some [of "CHR ''#''" "event_id_display e" "aei_instance e" "u64_to_string (aei_sequence e)"]
  by (simp add: parse_event_id_def event_id_display_def hash_not_in_u64)

text \<open>The explain command finds what the log holds: given a log path and the printed form of an
  event id, it runs the selection of exactly that event over the log it read, and its exit code is
  0 when the record is found, 2 when it is lost or unknown and 1 when the log cannot be read.\<close>

theorem explain_selects_the_printed_event:
  "explain_run j env_log [''--log'', path, ''--event'', event_id_display e] read_to_string =
     (case read_log j (read_to_string path) of
        Inl err \<Rightarrow> Inl (CannotRead err)
      | Inr scan \<Rightarrow> Inr (select scan (SelEvent e))) \<and>
   explain_exit (explain_run j env_log [''--log'', path, ''--event'', event_id_display e] read_to_string) =
     (case read_log j (read_to_string path) of
        Inl _ \<Rightarrow> 1
      | Inr scan \<Rightarrow> if \<exists>r\<in>set (sc_records scan). ar_event_id r = e then 0 else 2)"
proof -
  have "explain_exit (Inr (select scan (SelEvent e))) =
      (if \<exists>r\<in>set (sc_records scan). ar_event_id r = e then 0 else 2)" for scan
  proof (cases "find (\<lambda>r. ar_event_id r = e) (sc_records scan)")
    case None
    then have "\<not> (\<exists>r\<in>set (sc_records scan). ar_event_id r = e)"
      unfolding find_None_iff by blast
    with None show ?thesis by (simp add: explain_exit_def)
  next
    case (Some r)
    then have "find (\<lambda>r. ar_event_id r = e) (sc_records scan) \<noteq> None" by simp
    then have "\<exists>r\<in>set (sc_records scan). ar_event_id r = e"
      unfolding find_None_iff by blast
    with Some show ?thesis by (simp add: explain_exit_def)
  qed
  then show ?thesis
    by (simp add: explain_run_def parse_event_id_display explain_exit_def del: select.simps split: sum.split)
qed

text \<open>A rendered record begins with its event, as the command takes it back, and the nanoseconds are
  always nine digits; it is followed by the note exactly for a release.\<close>

lemma length_dec_of_nat: "n < 10 ^ Suc k \<Longrightarrow> length (dec_of_nat n) \<le> Suc k"
proof (induction k arbitrary: n)
  case (Suc k)
  then show ?case
    by (cases "n < 10") (simp_all add: dec_of_nat.simps [of n] less_mult_imp_div_less)
qed (simp add: dec_of_nat.simps)

lemma length_nine_digits: "n < 10 ^ 9 \<Longrightarrow> length (nine_digits n) = 9"
  using length_dec_of_nat [of n 8] by (simp add: nine_digits_def)

lemma rendered_event:
  "take 7 (hd (render_lines df r)) = ''event: '' \<and>
   parse_event_id (drop 7 (hd (render_lines df r))) = Inr (ar_event_id r) \<and>
   (release_note \<in> set (drop 8 (render_lines df r)) \<longleftrightarrow> (\<exists>lid. ar_requested r = RecReleaseLease lid))"
  by (cases "ar_requested r") (simp_all add: render_lines_def Let_def parse_event_id_display)

end
