(* ===== verification/Eltanin_Audit_Log.thy ===== *)
theory Eltanin_Audit_Log
  imports Eltanin_Audit
begin

unbundle bit_operations_syntax

text \<open>
  Models the file under the audit sink: \<open>AuditFileSink::open\<close> and the appending of
  \<open>crates/eltanin-audit/src/sink.rs\<close> on a file that several sinks share, one after the other (an agent
  that is restarted with the same log) or at the same time (two agents with one log), and the sinks of
  \<open>crates/eltanin-agent/src/authz/event.rs\<close> and \<open>authz/audit.rs\<close> with what they print.

  A trace interleaves the openings and the appends of any number of sinks; the file is opened with
  \<open>O_APPEND\<close>, so that every write goes to the end the file has at that moment. The lemmas show that a
  write never disturbs what was in the log, and the properties what a reader of the shared log finds.
\<close>

section \<open>The file\<close>

record log_file =
  lf_mode :: u32
  lf_contents :: string

text \<open>\<open>open\<close> creates a missing file with the mode \<open>0600\<close>, less the bits of the process's umask, and
  leaves an existing one as it is; \<open>refused\<close> is the error the operating system answers with, if it
  does.\<close>

definition audit_open ::
  "u32 \<Rightarrow> string option \<Rightarrow> issuer_instance_id \<Rightarrow> log_file option \<Rightarrow>
     (audit_sink_error, audit_sink) result \<times> log_file option" where
  "audit_open umask refused inst file =
     (case refused of
        Some reason \<Rightarrow> (Inl (SinkIo reason), file)
      | None \<Rightarrow>
          (let opened =
             (case file of
                Some f \<Rightarrow> f
              | None \<Rightarrow> \<lparr>lf_mode = 384 AND NOT umask, lf_contents = []\<rparr>)
           in (Inr (sink_from_writer (lf_contents opened) inst), Some opened)))"

text \<open>One append of a sink to the end of the shared file.\<close>

definition append_shared ::
  "'v audit_json \<Rightarrow> wall_clock_time \<Rightarrow> write_outcome \<Rightarrow> audit_entry \<Rightarrow> audit_sink \<Rightarrow> log_file \<Rightarrow>
     ((audit_sink_error, audit_event_id) result \<times> audit_sink) \<times> log_file" where
  "append_shared j recorded_at outcome entry sink file =
     (let (result, sink') = audit_append j recorded_at outcome entry (sink\<lparr>as_file := lf_contents file\<rparr>)
      in ((result, sink'), file\<lparr>lf_contents := as_file sink'\<rparr>))"

section \<open>The sinks of the agent\<close>

definition audit_sink_error_text :: "audit_sink_error \<Rightarrow> string" where
  "audit_sink_error_text e =
     (case e of
        SinkIo reason \<Rightarrow> ''audit log I/O error: '' @ reason
      | SinkSerialize reason \<Rightarrow> ''failed to serialize audit record: '' @ reason)"

record event_formats =
  ef_operation :: "operation \<Rightarrow> string"
  ef_request :: "client_request \<Rightarrow> string"
  ef_outcome :: "authorization_outcome \<Rightarrow> string"
  ef_response :: "agent_response \<Rightarrow> string"

definition stderr_event_line :: "event_formats \<Rightarrow> authorization_event \<Rightarrow> string" where
  "stderr_event_line fmt event =
     ''eltanin-agent authz event: operation='' @ ef_operation fmt (ev_operation event) @
     '' request='' @ ef_request fmt (ev_request event) @
     '' peer_pid='' @ u32_to_string (cred_pid (pc_credential (ev_peer event))) @
     '' outcome='' @ ef_outcome fmt (ev_outcome event) @
     '' response='' @ ef_response fmt (ev_response event)"

datatype live_sink = LiveNull | LiveStderr | LiveAudit audit_sink

text \<open>\<open>EventSink::record\<close> of the three sinks: the lines it prints on standard error, and the sink and
  the log after it.\<close>

definition live_record ::
  "'v audit_json \<Rightarrow> event_formats \<Rightarrow> wall_clock_time \<Rightarrow> write_outcome \<Rightarrow> authorization_event \<Rightarrow>
     live_sink \<times> log_file \<Rightarrow> string list \<times> (live_sink \<times> log_file)" where
  "live_record j fmt recorded_at outcome event state =
     (case state of (sink, file) \<Rightarrow>
       (case sink of
          LiveNull \<Rightarrow> ([], (LiveNull, file))
        | LiveStderr \<Rightarrow> ([stderr_event_line fmt event], (LiveStderr, file))
        | LiveAudit s \<Rightarrow>
            (let ((result, s'), file') = append_shared j recorded_at outcome (recorded_entry event) s file
             in (case result of
                   Inr _ \<Rightarrow> ([], (LiveAudit s', file'))
                 | Inl e \<Rightarrow>
                     ([''eltanin-agent: audit write failed (failed_writes='' @
                       u64_to_string (as_failed_writes s') @ ''): '' @ audit_sink_error_text e],
                      (LiveAudit s', file'))))))"

section \<open>Traces over one log\<close>

datatype log_step = OpenLog issuer_instance_id | AppendLog issuer_instance_id append_call

type_synonym log_world = "(issuer_instance_id \<rightharpoonup> audit_sink) \<times> log_file option"

text \<open>A sink that was opened holds the file; an instance without a sink appends nothing.\<close>

fun log_step_to :: "'v audit_json \<Rightarrow> u32 \<Rightarrow> log_step \<Rightarrow> log_world \<Rightarrow> log_world" where
  "log_step_to j umask (OpenLog inst) (sinks, file) =
     (case audit_open umask None inst file of
        (Inl _, file') \<Rightarrow> (sinks, file')
      | (Inr sink, file') \<Rightarrow> (sinks(inst \<mapsto> sink), file'))"
| "log_step_to j umask (AppendLog inst (t, w, e)) (sinks, file) =
     (case (sinks inst, file) of
        (Some sink, Some f) \<Rightarrow>
          (let ((_, sink'), f') = append_shared j t w e sink f in (sinks(inst \<mapsto> sink'), Some f'))
      | _ \<Rightarrow> (sinks, file))"

definition log_trace :: "'v audit_json \<Rightarrow> u32 \<Rightarrow> log_step list \<Rightarrow> log_world \<Rightarrow> log_world" where
  "log_trace j umask steps = fold (log_step_to j umask) steps"

lemma log_trace_simps [simp]:
  "log_trace j umask [] world = world"
  "log_trace j umask (s # steps) world = log_trace j umask steps (log_step_to j umask s world)"
  by (simp_all add: log_trace_def)

text \<open>The specification: the number of appends of each open sink, and the records that were written,
  in the order of their writes.\<close>

fun log_counts :: "log_step \<Rightarrow> (issuer_instance_id \<rightharpoonup> nat) \<Rightarrow> issuer_instance_id \<rightharpoonup> nat" where
  "log_counts (OpenLog inst) n = n(inst \<mapsto> 0)"
| "log_counts (AppendLog inst _) n = n(inst := map_option Suc (n inst))"

fun log_records :: "(issuer_instance_id \<rightharpoonup> nat) \<Rightarrow> log_step list \<Rightarrow> audit_record list" where
  "log_records n [] = []"
| "log_records n (OpenLog inst # steps) = log_records (log_counts (OpenLog inst) n) steps"
| "log_records n (AppendLog inst (t, w, e) # steps) =
     (case n inst of
        Some i \<Rightarrow> if w = Written then [minted_record inst (of_nat i) t e] else []
      | None \<Rightarrow> []) @ log_records (log_counts (AppendLog inst (t, w, e)) n) steps"

definition log_calls :: "issuer_instance_id \<Rightarrow> log_step list \<Rightarrow> append_call list" where
  "log_calls inst steps =
     List.map_filter (\<lambda>s. case s of AppendLog i c \<Rightarrow> if i = inst then Some c else None | OpenLog _ \<Rightarrow> None) steps"

section \<open>One write\<close>

lemma clean_write_reads:
  assumes "whole_lines file" and "read_lines j 0 (text_lines file) ([], []) = (records, unreadable)"
    and "clean_call (t, w, e)" and "w = Written \<Longrightarrow> record_faithful j r"
  shows "whole_lines (snd (write_line j w r file)) \<and>
    read_lines j 0 (text_lines (snd (write_line j w r file))) ([], []) =
      (records @ (if w = Written then [r] else []), unreadable)"
proof (cases w)
  case Written
  then obtain ln env where ln: "aj_to_string j (versioned_current r) = Inr ln" "plain_line ln" "\<not> blank_line ln"
    and parsed: "aj_envelope j ln = Inr env" "v_version env = DOMAIN_SCHEMA_VERSION"
      "aj_record j ln = Inr (versioned_current r)"
    using assms(4) by (auto simp: record_faithful_def)
  then show ?thesis
    using Written assms(2) read_line_faithful [OF parsed]
    by (simp add: write_line_def text_lines_snoc [OF assms(1) ln(2)] read_lines_append)
next
  case (WriteFailed n err)
  then have "snd (write_line j w r file) = file"
    using assms(3) by (simp add: clean_call_def write_line_def split: sum.splits)
  then show ?thesis using assms(1,2) WriteFailed by simp
qed

lemma append_shared_simps:
  "snd (append_shared j t w e s f) = f\<lparr>lf_contents :=
     snd (write_line j w (minted_record (as_instance s) (as_next_sequence s) t e) (lf_contents f))\<rparr>"
  "as_instance (snd (fst (append_shared j t w e s f))) = as_instance s"
  "as_next_sequence (snd (fst (append_shared j t w e s f))) = as_next_sequence s + 1"
  by (simp_all add: append_shared_def Let_def split_beta audit_append_simps)

text \<open>The audit sink of the agent appends the event, and prints exactly when that failed.\<close>

lemma live_record_audit:
  "snd (live_record j fmt t w event (LiveAudit s, file)) =
     (LiveAudit (record_event j t w event (s\<lparr>as_file := lf_contents file\<rparr>)),
      snd (append_shared j t w (recorded_entry event) s file))"
  "fst (live_record j fmt t w event (LiveAudit s, file)) = [] \<longleftrightarrow>
     (\<exists>id. fst (fst (append_shared j t w (recorded_entry event) s file)) = Inr id)"
  by (simp_all add: live_record_def record_event_def append_shared_def Let_def split_beta split: sum.split)

section \<open>The trace writes the records of its specification\<close>

definition counts_agree :: "(issuer_instance_id \<rightharpoonup> audit_sink) \<Rightarrow> (issuer_instance_id \<rightharpoonup> nat) \<Rightarrow> bool" where
  "counts_agree sinks n \<longleftrightarrow>
     (\<forall>inst. map_option as_next_sequence (sinks inst) = map_option of_nat (n inst) \<and>
        (\<forall>s. sinks inst = Some s \<longrightarrow> as_instance s = inst))"

text \<open>What a reader of the file finds; no file reads as an empty one here.\<close>

definition log_text :: "log_file option \<Rightarrow> string" where
  "log_text file = (case file of Some f \<Rightarrow> lf_contents f | None \<Rightarrow> [])"

definition file_reads ::
  "'v audit_json \<Rightarrow> log_file option \<Rightarrow> audit_record list \<Rightarrow> unreadable_line list \<Rightarrow> bool" where
  "file_reads j file records unreadable \<longleftrightarrow>
     whole_lines (log_text file) \<and>
     read_lines j 0 (text_lines (log_text file)) ([], []) = (records, unreadable)"

definition clean_step :: "log_step \<Rightarrow> bool" where
  "clean_step s = (case s of OpenLog _ \<Rightarrow> True | AppendLog _ c \<Rightarrow> clean_call c)"

lemma log_step_opened:
  "log_step_to j umask (OpenLog inst) (sinks, file) =
     (let f = (case file of Some f \<Rightarrow> f | None \<Rightarrow> \<lparr>lf_mode = 384 AND NOT umask, lf_contents = []\<rparr>)
      in (sinks(inst \<mapsto> sink_from_writer (lf_contents f) inst), Some f))"
  by (simp add: audit_open_def Let_def)

lemma trace_reads:
  assumes "counts_agree sinks n" and "file_reads j file records unreadable"
    and "file = None \<Longrightarrow> sinks = Map.empty"
    and "\<forall>s\<in>set steps. clean_step s" and "\<forall>r\<in>set (log_records n steps). record_faithful j r"
  shows "file_reads j (snd (log_trace j umask steps (sinks, file))) (records @ log_records n steps) unreadable"
  using assms
proof (induction steps arbitrary: sinks "file" n records)
  case Nil
  then show ?case by simp
next
  case (Cons s steps)
  show ?case
  proof (cases s)
    case (OpenLog inst)
    obtain f where step: "log_step_to j umask s (sinks, file) =
        (sinks(inst \<mapsto> sink_from_writer (lf_contents f) inst), Some f)"
      and f: "lf_contents f = log_text file"
      unfolding OpenLog log_step_opened Let_def log_text_def by (cases "file") auto
    have "counts_agree (sinks(inst \<mapsto> sink_from_writer (lf_contents f) inst)) (n(inst \<mapsto> 0))"
      using Cons.prems(1) by (simp add: counts_agree_def sink_from_writer_def)
    moreover have "file_reads j (Some f) records unreadable"
      using Cons.prems(2) by (simp add: file_reads_def f log_text_def)
    ultimately have "file_reads j (snd (log_trace j umask steps
        (sinks(inst \<mapsto> sink_from_writer (lf_contents f) inst), Some f)))
        (records @ log_records (n(inst \<mapsto> 0)) steps) unreadable"
      by (rule Cons.IH) (use Cons.prems(4,5) OpenLog in \<open>simp_all del: fun_upd_apply\<close>)
    then show ?thesis
      unfolding log_trace_simps step by (simp add: OpenLog)
  next
    case (AppendLog inst c)
    obtain t w e where c: "c = (t, w, e)" by (cases c)
    show ?thesis
    proof (cases "sinks inst")
      case None
      then have "n inst = None" and "log_step_to j umask s (sinks, file) = (sinks, file)"
        using Cons.prems(1) [unfolded counts_agree_def, rule_format, of inst]
        by (simp_all add: AppendLog c)
      then have "n(inst := None) = n" by (simp add: fun_upd_idem)
      then show ?thesis
        using Cons.IH [of sinks n "file" records] Cons.prems \<open>n inst = None\<close>
          \<open>log_step_to j umask s (sinks, file) = (sinks, file)\<close>
        by (simp add: AppendLog c)
    next
      case (Some sink)
      then obtain f where f: "file = Some f" using Cons.prems(3) by (cases "file") auto
      obtain i where i: "n inst = Some i" "as_next_sequence sink = of_nat i" "as_instance sink = inst"
        using Cons.prems(1) [unfolded counts_agree_def, rule_format, of inst] Some by (cases "n inst") auto
      let ?r = "minted_record inst (of_nat i) t e"
      let ?sink = "snd (fst (append_shared j t w e sink f))"
      let ?f = "snd (append_shared j t w e sink f)"
      have step: "log_step_to j umask s (sinks, file) = (sinks(inst \<mapsto> ?sink), Some ?f)"
        by (simp add: AppendLog c Some f split_beta Let_def)
      have counts: "counts_agree (sinks(inst \<mapsto> ?sink)) (n(inst \<mapsto> Suc i))"
        using Cons.prems(1) by (simp add: counts_agree_def append_shared_simps i)
      have reads: "file_reads j (Some ?f) (records @ (if w = Written then [?r] else [])) unreadable"
        using clean_write_reads [of "lf_contents f" j records unreadable t w e ?r] Cons.prems(2,4,5)
        by (simp add: file_reads_def f log_text_def append_shared_simps i AppendLog c clean_step_def)
      have "file_reads j (snd (log_trace j umask steps (sinks(inst \<mapsto> ?sink), Some ?f)))
          ((records @ (if w = Written then [?r] else [])) @ log_records (n(inst \<mapsto> Suc i)) steps) unreadable"
        using counts reads by (rule Cons.IH) (use Cons.prems(4,5) i(1) in \<open>auto simp: AppendLog c simp del: fun_upd_apply\<close>)
      then show ?thesis
        unfolding log_trace_simps step by (simp add: AppendLog c i(1))
    qed
  qed
qed

section \<open>The file keeps its mode\<close>

lemma log_step_mode:
  "log_step_to j umask s (sinks, file) = (sinks', file') \<Longrightarrow> file = Some f \<Longrightarrow>
     \<exists>f'. file' = Some f' \<and> lf_mode f' = lf_mode f"
  by (cases s) (auto simp: audit_open_def append_shared_def Let_def split_beta split: option.splits)

lemma trace_mode_kept:
  "snd (log_trace j umask steps (sinks, Some f)) = Some f' \<Longrightarrow> lf_mode f' = lf_mode f"
proof (induction steps arbitrary: sinks f)
  case (Cons s steps)
  obtain sinks1 file1 where step: "log_step_to j umask s (sinks, Some f) = (sinks1, file1)"
    by (cases "log_step_to j umask s (sinks, Some f)")
  obtain f1 where "file1 = Some f1" "lf_mode f1 = lf_mode f"
    using log_step_mode [OF step] by blast
  then show ?case using Cons step by simp
qed simp

lemma trace_mode_created:
  "snd (log_trace j umask steps (Map.empty, None)) = Some f \<Longrightarrow> lf_mode f = 384 AND NOT umask"
proof (induction steps)
  case (Cons s steps)
  show ?case
  proof (cases s)
    case (OpenLog inst)
    then show ?thesis
      using Cons.prems trace_mode_kept by (fastforce simp: audit_open_def)
  next
    case (AppendLog inst c)
    then show ?thesis using Cons by (cases c) simp
  qed
qed simp

lemma private_mode: "(384 AND NOT umask) AND 63 = (0 :: u32)"
proof -
  have "(384 AND NOT umask) AND 63 = (384 AND 63) AND NOT umask"
    by (simp only: and.assoc and.commute and.left_commute)
  then show ?thesis by simp
qed

section \<open>The records of one instance\<close>

lemma log_calls_simps [simp]:
  "log_calls inst [] = []"
  "log_calls inst (OpenLog i # steps) = log_calls inst steps"
  "log_calls inst (AppendLog i c # steps) = (if i = inst then [c] else []) @ log_calls inst steps"
  by (simp_all add: log_calls_def)

lemma log_step_cases:
  obtains (opened) inst where "s = OpenLog inst"
    | (appended) inst t w e where "s = AppendLog inst (t, w, e)"
  by (cases s) auto

lemma log_records_append:
  "log_records n (xs @ ys) = log_records n xs @ log_records (fold log_counts xs n) ys"
proof (induction xs arbitrary: n)
  case (Cons s xs)
  then show ?case by (cases s rule: log_step_cases) (simp_all del: fun_upd_apply)
qed simp

abbreviation of_instance :: "issuer_instance_id \<Rightarrow> audit_record list \<Rightarrow> audit_record list" where
  "of_instance inst \<equiv> filter (\<lambda>r. aei_instance (ar_event_id r) = inst)"

lemma unopened_records:
  "n inst = None \<Longrightarrow> OpenLog inst \<notin> set steps \<Longrightarrow>
     of_instance inst (log_records n steps) = [] \<and> fold log_counts steps n inst = None"
proof (induction steps arbitrary: n)
  case (Cons s steps)
  then show ?case by (cases s rule: log_step_cases) (auto simp: fun_upd_other fun_upd_idem simp del: fun_upd_apply split: option.splits)
qed simp

lemma opened_records:
  "n inst = Some m \<Longrightarrow> OpenLog inst \<notin> set steps \<Longrightarrow>
     of_instance inst (log_records n steps) =
       map (\<lambda>(i, t, w, e). minted_record inst (of_nat i) t e)
         (filter (\<lambda>(i, t, w, e). w = Written) (enumerate m (log_calls inst steps)))"
proof (induction steps arbitrary: n m)
  case (Cons s steps)
  have own: "(n(inst \<mapsto> Suc m)) inst = Some (Suc m)" by simp
  show ?case
    using Cons Cons.IH [of "n(inst \<mapsto> Suc m)", OF own]
    by (cases s rule: log_step_cases) (auto simp: fun_upd_other fun_upd_idem simp del: fun_upd_apply split: option.splits)
qed simp

lemma opened_once_records:
  assumes "OpenLog inst \<notin> set pre" and "OpenLog inst \<notin> set post"
  shows "of_instance inst (log_records Map.empty (pre @ OpenLog inst # post)) =
    written_records inst (log_calls inst post)"
  using unopened_records [of Map.empty inst pre] assms
    opened_records [of "(fold log_counts pre Map.empty)(inst \<mapsto> 0)" inst 0 post]
  by (simp add: log_records_append written_records_def)

section \<open>Selecting an event of one instance\<close>

text \<open>What the log should tell of the \<open>i\<close>-th event of an instance with these appends.\<close>

definition event_told :: "issuer_instance_id \<Rightarrow> append_call list \<Rightarrow> nat \<Rightarrow> selection_result" where
  "event_told inst calls i =
     (if i < length calls then
        (case calls ! i of (t, w, e) \<Rightarrow>
           if w = Written then Found [minted_record inst (of_nat i) t e]
           else if \<exists>k\<in>{i<..<length calls}. fst (snd (calls ! k)) = Written then PossiblyLost
           else NotFound)
      else NotFound)"

lemma find_filter: "(\<And>x. P x \<Longrightarrow> Q x) \<Longrightarrow> find P (filter Q xs) = find P xs"
  by (induction xs) auto

lemma select_of_instance:
  assumes "of_instance inst (sc_records scan) = written_records inst calls"
    and "\<forall>u\<in>set (sc_unreadable scan). \<forall>e. ul_event_id u = Some e \<longrightarrow> aei_instance e \<noteq> inst"
    and gaps: "sc_gaps scan = detect_gaps (sc_records scan) (sc_unreadable scan)"
    and "length calls < 2 ^ 64" and "i < 2 ^ 64"
  shows "select scan (SelEvent \<lparr>aei_instance = inst, aei_sequence = of_nat i\<rparr>) = event_told inst calls i"
proof -
  let ?own = "\<lparr>sc_records = written_records inst calls, sc_unreadable = [],
    sc_gaps = detect_gaps (written_records inst calls) []\<rparr>"
  let ?id = "\<lparr>aei_instance = inst, aei_sequence = of_nat i :: u64\<rparr>"
  have "find (\<lambda>r. ar_event_id r = ?id) (sc_records scan) =
      find (\<lambda>r. ar_event_id r = ?id) (of_instance inst (sc_records scan))"
    by (rule find_filter [symmetric]) simp
  moreover have "e \<in> observed_ids (sc_records scan) (sc_unreadable scan) \<longleftrightarrow>
      e \<in> observed_ids (written_records inst calls) []" if "aei_instance e = inst" for e
    using that assms(2) by (auto simp: observed_ids_def assms(1) [symmetric])
  then have "?id \<in> set (sc_gaps scan) \<longleftrightarrow> ?id \<in> set (sc_gaps ?own)"
    by (auto simp: gaps set_detect_gaps)
  ultimately have own: "select scan (SelEvent ?id) = select ?own (SelEvent ?id)"
    by (simp only: select.simps assms(1) log_scan.select_convs)
  show ?thesis
  proof (cases "i < length calls")
    case True
    then show ?thesis
      unfolding own using select_written [OF assms(4), of i ?own inst]
      by (auto simp: event_told_def simp del: select.simps split: prod.split)
  next
    case False
    then have "select ?own (SelEvent ?id) = NotFound"
      using written_ids_before [OF assms(4,5), of _ inst "[]"]
      by (intro unobserved_id_not_found) (auto simp del: select.simps)
    then show ?thesis unfolding own using False by (simp add: event_told_def)
  qed
qed

lemma read_log_file_reads:
  "file_reads j file records unreadable \<Longrightarrow>
     read_log j (Inr (log_text file)) =
       Inr \<lparr>sc_records = records, sc_unreadable = unreadable, sc_gaps = detect_gaps records unreadable\<rparr>"
  by (simp add: file_reads_def read_log_def)

lemma file_reads_log:
  assumes "whole_lines (log_text file)" and "read_log j (Inr (log_text file)) = Inr scan"
  shows "file_reads j file (sc_records scan) (sc_unreadable scan)"
  using assms by (auto simp: file_reads_def read_log_def split_beta)

lemma counts_agree_empty: "counts_agree Map.empty Map.empty"
  by (simp add: counts_agree_def)

section \<open>Properties\<close>

text \<open>C20. One audit log under many sinks: agents that are restarted with the log of their predecessors,
  or that run at the same time. Whatever whole lines the log held before, and in whatever order the
  openings and the appends come, as long as a failed write leaves nothing behind, a reader finds what
  was there before, then every record that was written, in the order of the writes, and no new
  unreadable line; a file the sinks created gives no permission to anyone but its owner, and one that
  existed keeps its mode. The events of an instance that opened the log once and is not in the older
  lines can be told apart however the others interleave: one that was written is found, one whose
  write failed is reported as possibly lost exactly when a later one of the same instance was written,
  and one that was never issued is not found.\<close>

theorem shared_log_tells_every_append:
  assumes "whole_lines (log_text f0)" and "read_log j (Inr (log_text f0)) = Inr prior"
    and "\<forall>s\<in>set steps. clean_step s"
    and "\<forall>r\<in>set (log_records Map.empty steps). record_faithful j r"
    and "log_trace j umask steps (Map.empty, f0) = (sinks, Some f)"
  shows "\<exists>scan. read_log j (Inr (lf_contents f)) = Inr scan \<and>
    sc_records scan = sc_records prior @ log_records Map.empty steps \<and>
    sc_unreadable scan = sc_unreadable prior \<and>
    (case f0 of None \<Rightarrow> lf_mode f AND 63 = 0 | Some old \<Rightarrow> lf_mode f = lf_mode old) \<and>
    (\<forall>inst pre post i.
       steps = pre @ OpenLog inst # post \<and> OpenLog inst \<notin> set pre \<union> set post \<and>
       (\<forall>e\<in>observed_ids (sc_records prior) (sc_unreadable prior). aei_instance e \<noteq> inst) \<and>
       length (log_calls inst post) < 2 ^ 64 \<and> i < 2 ^ 64 \<longrightarrow>
       select scan (SelEvent \<lparr>aei_instance = inst, aei_sequence = of_nat i\<rparr>) =
         event_told inst (log_calls inst post) i)"
proof -
  let ?records = "sc_records prior @ log_records Map.empty steps"
  let ?scan = "\<lparr>sc_records = ?records, sc_unreadable = sc_unreadable prior,
    sc_gaps = detect_gaps ?records (sc_unreadable prior)\<rparr>"
  have "file_reads j (Some f) ?records (sc_unreadable prior)"
    using trace_reads [OF counts_agree_empty file_reads_log [OF assms(1,2)] _ assms(3,4), of umask] assms(5)
    by simp
  from read_log_file_reads [OF this]
  have scan: "read_log j (Inr (lf_contents f)) = Inr ?scan" by (simp add: log_text_def)
  have mode: "case f0 of None \<Rightarrow> lf_mode f AND 63 = 0 | Some old \<Rightarrow> lf_mode f = lf_mode old"
    using trace_mode_created [of j umask steps f] trace_mode_kept [of j umask steps Map.empty _ f] assms(5)
    by (auto simp: private_mode split: option.split)
  have "select ?scan (SelEvent \<lparr>aei_instance = inst, aei_sequence = of_nat i\<rparr>) =
         event_told inst (log_calls inst post) i"
    if steps: "steps = pre @ OpenLog inst # post" and once: "OpenLog inst \<notin> set pre \<union> set post"
      and new: "\<forall>e\<in>observed_ids (sc_records prior) (sc_unreadable prior). aei_instance e \<noteq> inst"
      and len: "length (log_calls inst post) < 2 ^ 64" "i < 2 ^ 64" for inst pre post i
  proof (rule select_of_instance [OF _ _ _ len])
    have "of_instance inst (sc_records prior) = []"
      using new by (auto simp: observed_ids_def filter_empty_conv)
    then show "of_instance inst (sc_records ?scan) = written_records inst (log_calls inst post)"
      using opened_once_records [of inst pre post] once by (simp add: steps)
    show "\<forall>u\<in>set (sc_unreadable ?scan). \<forall>e. ul_event_id u = Some e \<longrightarrow> aei_instance e \<noteq> inst"
      using new by (auto simp: observed_ids_def)
  qed simp
  then show ?thesis
    using scan mode by (intro exI [of _ ?scan]) (simp del: select.simps)
qed

text \<open>Two agents that share a log no one made before: the first appends a record, fails to append one and
  appends another; the second appends one between them.\<close>

definition shared_demo_json :: "unit audit_json" where
  "shared_demo_json =
     \<lparr>aj_to_string = (\<lambda>v. Inr
        (if aei_instance (ar_event_id (v_payload v)) = ''b'' then ''{b}''
         else if aei_sequence (ar_event_id (v_payload v)) = 0 then ''{0}'' else ''{2}'')),
      aj_envelope = (\<lambda>l. Inr (versioned_current ())),
      aj_record = (\<lambda>l. Inr (versioned_current (minted_record (if l = ''{b}'' then ''b'' else ''a'')
        (if l = ''{2}'' then 2 else 0) demo_time demo_entry))),
      aj_get = (\<lambda>_ _. None), aj_as_str = (\<lambda>_. None), aj_as_u64 = (\<lambda>_. None)\<rparr>"

definition shared_demo_steps :: "log_step list" where
  "shared_demo_steps =
     [OpenLog ''a'', AppendLog ''a'' (demo_time, Written, demo_entry), OpenLog ''b'',
      AppendLog ''a'' (demo_time, WriteFailed 0 ''disk full'', demo_entry),
      AppendLog ''b'' (demo_time, Written, demo_entry), AppendLog ''a'' (demo_time, Written, demo_entry)]"

lemma shared_demo_faithful:
  "(inst, n) \<in> {(''a'', 0), (''a'', 2), (''b'', 0)} \<Longrightarrow>
     record_faithful shared_demo_json (minted_record inst n demo_time demo_entry)"
  by (auto simp: record_faithful_def shared_demo_json_def plain_line_def blank_line_def split_whitespace_def ascii_space_def
      newline_def versioned_current_def DOMAIN_SCHEMA_VERSION_def)

lemma shared_log_tells_every_append_witness:
  "\<exists>sinks f scan. log_trace shared_demo_json 18 shared_demo_steps (Map.empty, None) = (sinks, Some f) \<and>
    read_log shared_demo_json (Inr (lf_contents f)) = Inr scan \<and> lf_mode f AND 63 = 0 \<and>
    select scan (SelEvent \<lparr>aei_instance = ''a'', aei_sequence = of_nat 1\<rparr>) = PossiblyLost \<and>
    select scan (SelEvent \<lparr>aei_instance = ''b'', aei_sequence = of_nat 0\<rparr>) =
      Found [minted_record ''b'' 0 demo_time demo_entry]"
proof -
  let ?trace = "log_trace shared_demo_json 18 shared_demo_steps (Map.empty, None)"
  have "\<exists>f. snd ?trace = Some f"
    by (simp add: shared_demo_steps_def audit_open_def append_shared_def Let_def split_beta)
  then obtain sinks f where trace: "?trace = (sinks, Some f)" by (metis prod.collapse)
  have prior: "whole_lines (log_text None)"
    "read_log shared_demo_json (Inr (log_text None)) =
       Inr \<lparr>sc_records = [], sc_unreadable = [], sc_gaps = []\<rparr>"
    by (simp_all add: log_text_def read_log_def detect_gaps_def)
  have clean: "\<forall>s\<in>set shared_demo_steps. clean_step s"
    by (simp add: shared_demo_steps_def clean_step_def clean_call_def)
  have faithful: "\<forall>r\<in>set (log_records Map.empty shared_demo_steps). record_faithful shared_demo_json r"
    by (simp add: shared_demo_steps_def shared_demo_faithful)
  obtain scan where read: "read_log shared_demo_json (Inr (lf_contents f)) = Inr scan" "lf_mode f AND 63 = 0"
    and sel: "\<And>inst pre post i. shared_demo_steps = pre @ OpenLog inst # post \<Longrightarrow>
       OpenLog inst \<notin> set pre \<union> set post \<Longrightarrow> length (log_calls inst post) < 2 ^ 64 \<Longrightarrow> i < 2 ^ 64 \<Longrightarrow>
       select scan (SelEvent \<lparr>aei_instance = inst, aei_sequence = of_nat i\<rparr>) =
         event_told inst (log_calls inst post) i"
    using shared_log_tells_every_append [OF prior clean faithful trace]
    by (auto simp: observed_ids_def simp del: select.simps of_nat_numeral) blast
  have a: "shared_demo_steps = [] @ OpenLog ''a'' # tl shared_demo_steps"
    and b: "shared_demo_steps = take 2 shared_demo_steps @ OpenLog ''b'' # drop 3 shared_demo_steps"
    by (simp_all add: shared_demo_steps_def)
  have "select scan (SelEvent \<lparr>aei_instance = ''a'', aei_sequence = of_nat 1\<rparr>) = PossiblyLost"
    by (subst sel [OF a]) (auto simp: shared_demo_steps_def event_told_def intro: bexI [of _ 2])
  moreover have "select scan (SelEvent \<lparr>aei_instance = ''b'', aei_sequence = of_nat 0\<rparr>) =
      Found [minted_record ''b'' 0 demo_time demo_entry]"
    by (subst sel [OF b]) (simp_all add: shared_demo_steps_def event_told_def)
  ultimately show ?thesis using trace read by blast
qed

text \<open>An instance that opens the log again counts its events from the start: an identifier it issued
  before is answered with the older record, whatever was written under it since.\<close>

theorem reused_instance_hides_its_events:
  assumes "whole_lines (log_text f0)" and "read_log j (Inr (log_text f0)) = Inr prior"
    and "\<forall>s\<in>set steps. clean_step s"
    and "\<forall>r\<in>set (log_records Map.empty steps). record_faithful j r"
    and "log_trace j umask steps (Map.empty, f0) = (sinks, Some f)"
    and "select prior (SelEvent event) = Found old"
  shows "\<exists>scan. read_log j (Inr (lf_contents f)) = Inr scan \<and> select scan (SelEvent event) = Found old \<and>
    set (log_records Map.empty steps) \<subseteq> set (sc_records scan)"
proof -
  let ?records = "sc_records prior @ log_records Map.empty steps"
  have "file_reads j (Some f) ?records (sc_unreadable prior)"
    using trace_reads [OF counts_agree_empty file_reads_log [OF assms(1,2)] _ assms(3,4), of umask] assms(5)
    by simp
  from read_log_file_reads [OF this]
  have "read_log j (Inr (lf_contents f)) = Inr \<lparr>sc_records = ?records, sc_unreadable = sc_unreadable prior,
      sc_gaps = detect_gaps ?records (sc_unreadable prior)\<rparr>" (is "_ = Inr ?scan")
    by (simp add: log_text_def)
  moreover have "find P (xs @ ys) = (case find P xs of Some x \<Rightarrow> Some x | None \<Rightarrow> find P ys)"
    for P and xs ys :: "audit_record list"
    by (induction xs) simp_all
  then have "select ?scan (SelEvent event) = Found old"
    using assms(6) by (auto split: option.splits if_splits)
  ultimately show ?thesis by auto
qed

end
