(* ===== verification/Eltanin_Listener.thy ===== *)
theory Eltanin_Listener
  imports Eltanin_Text
begin

unbundle bit_operations_syntax

text \<open>
  Models \<open>crates/eltanin-agent/src/config.rs\<close> (the configuration of the agent's server) and
  \<open>listener.rs\<close> (how its socket comes to be: the check of the parent directory, the recovery of a
  stale socket file, the bind and the final mode). The operations of the operating system are the
  fields of the record \<open>socket_ops\<close> over a state of the host; \<open>host_ops\<close> interprets them on a small
  file system, where a connection to a socket file is refused once its listener is gone. Modes are written in
  hexadecimal: \<open>0o666\<close> is \<open>0x1B6\<close>, \<open>0o660\<close> is \<open>0x1B0\<close>, \<open>0o700\<close> is \<open>0x1C0\<close>, \<open>0o022\<close> is \<open>0x12\<close>.
\<close>

section \<open>Configuration\<close>

definition agent_default_socket_path :: "bool \<Rightarrow> string" where
  "agent_default_socket_path macos =
     (if macos then ''/var/run/eltanin/agent.sock'' else ''/run/eltanin/agent.sock'')"

definition MODE_ALL_LOCAL_USERS :: u32 where "MODE_ALL_LOCAL_USERS = 0x1B6"
definition MODE_OWNER_GROUP :: u32 where "MODE_OWNER_GROUP = 0x1B0"

definition DEFAULT_IO_TIMEOUT :: duration where "DEFAULT_IO_TIMEOUT = 5 * 10 ^ 9"
definition DEFAULT_MAX_CONNECTIONS :: nat where "DEFAULT_MAX_CONNECTIONS = 64"
definition DEFAULT_DRAIN_TIMEOUT :: duration where "DEFAULT_DRAIN_TIMEOUT = 10 * 10 ^ 9"

record agent_config =
  cfg_socket_path :: string
  cfg_socket_mode :: u32
  cfg_io_timeout :: duration
  cfg_max_connections :: nat
  cfg_drain_timeout :: duration

definition agent_config_new :: "string \<Rightarrow> u32 \<Rightarrow> agent_config" where
  "agent_config_new socket_path socket_mode =
     \<lparr>cfg_socket_path = socket_path, cfg_socket_mode = socket_mode,
      cfg_io_timeout = DEFAULT_IO_TIMEOUT, cfg_max_connections = DEFAULT_MAX_CONNECTIONS,
      cfg_drain_timeout = DEFAULT_DRAIN_TIMEOUT\<rparr>"

definition with_io_timeout :: "duration \<Rightarrow> agent_config \<Rightarrow> agent_config" where
  "with_io_timeout t config = config\<lparr>cfg_io_timeout := t\<rparr>"

definition with_max_connections :: "nat \<Rightarrow> agent_config \<Rightarrow> agent_config" where
  "with_max_connections n config = config\<lparr>cfg_max_connections := n\<rparr>"

definition with_drain_timeout :: "duration \<Rightarrow> agent_config \<Rightarrow> agent_config" where
  "with_drain_timeout t config = config\<lparr>cfg_drain_timeout := t\<rparr>"

section \<open>The parent of a path\<close>

text \<open>\<open>Path::parent\<close>: trailing separators and current-directory components are ignored, the root and the
  empty path have none, and the parent of a single name is the empty path. The text is reversed here.\<close>

fun trim_path_rev :: "string \<Rightarrow> string" where
  "trim_path_rev (c # cs) =
     (if c = CHR ''/'' then trim_path_rev cs
      else if c = CHR ''.'' \<and> cs \<noteq> [] \<and> hd cs = CHR ''/'' then trim_path_rev cs
      else c # cs)"
| "trim_path_rev [] = []"

definition path_parent :: "string \<Rightarrow> string option" where
  "path_parent s =
     (let t = rev (trim_path_rev (rev s))
      in if t = [] then None
         else case rsplit_once (CHR ''/'') t of
           None \<Rightarrow> Some []
         | Some (a, _) \<Rightarrow>
             (let a' = rev (trim_path_rev (rev a)) in Some (if a' = [] then ''/'' else a')))"

section \<open>The operating system\<close>

datatype file_kind = FkSymlink | FkDirectory | FkSocket | FkOther

record file_metadata =
  md_kind :: file_kind
  md_mode :: u32
  md_uid :: u32

text \<open>The kinds of error the code tells apart, with the text of the error.\<close>

datatype io_error =
    IoNotFound string
  | IoAddrInUse string
  | IoConnectionRefused string
  | IoOther string

fun io_text :: "io_error \<Rightarrow> string" where
  "io_text (IoNotFound t) = t"
| "io_text (IoAddrInUse t) = t"
| "io_text (IoConnectionRefused t) = t"
| "io_text (IoOther t) = t"

record 'w socket_ops =
  so_symlink_metadata :: "string \<Rightarrow> 'w \<Rightarrow> (io_error, file_metadata) result \<times> 'w"
  so_create_dir_all :: "string \<Rightarrow> 'w \<Rightarrow> (io_error, unit) result \<times> 'w"
  so_set_permissions :: "string \<Rightarrow> u32 \<Rightarrow> 'w \<Rightarrow> (io_error, unit) result \<times> 'w"
  so_bind :: "string \<Rightarrow> 'w \<Rightarrow> (io_error, nat) result \<times> 'w"
  so_connect :: "string \<Rightarrow> 'w \<Rightarrow> (io_error, unit) result \<times> 'w"
  so_remove_file :: "string \<Rightarrow> 'w \<Rightarrow> (io_error, unit) result \<times> 'w"
  so_euid :: u32
  so_octal :: "u32 \<Rightarrow> string"

section \<open>Starting to listen\<close>

datatype startup_error =
    ParentDirectoryUnsafe string string
  | SocketInUse string
  | StaleSocketPathNotASocket string
  | StartupIo string

text \<open>What is wrong with an existing parent directory.\<close>

definition parent_defect :: "u32 \<Rightarrow> (u32 \<Rightarrow> string) \<Rightarrow> file_metadata \<Rightarrow> string option" where
  "parent_defect own_euid octal meta =
     (if md_kind meta = FkSymlink then Some ''is a symlink''
      else if md_kind meta \<noteq> FkDirectory then Some ''is not a directory''
      else if md_mode meta AND 0x12 \<noteq> 0 then
        Some (''is group/other-writable (mode '' @ octal (md_mode meta AND 0x1FF) @ '')'')
      else if md_uid meta \<noteq> own_euid then
        Some (''owned by uid '' @ u32_to_string (md_uid meta) @ '', not this process'' @ [CHR 0x27] @
              ''s uid '' @ u32_to_string own_euid)
      else None)"

definition ensure_parent_directory_is_safe ::
  "'w socket_ops \<Rightarrow> string \<Rightarrow> 'w \<Rightarrow> (startup_error, unit) result \<times> 'w" where
  "ensure_parent_directory_is_safe ops parent w =
     (case so_symlink_metadata ops parent w of
        (Inr meta, w1) \<Rightarrow>
          (case parent_defect (so_euid ops) (so_octal ops) meta of
             Some reason \<Rightarrow> (Inl (ParentDirectoryUnsafe parent reason), w1)
           | None \<Rightarrow> (Inr (), w1))
      | (Inl (IoNotFound _), w1) \<Rightarrow>
          (case so_create_dir_all ops parent w1 of
             (Inl e, w2) \<Rightarrow>
               (Inl (StartupIo (''create parent directory '' @ parent @ '': '' @ io_text e)), w2)
           | (Inr _, w2) \<Rightarrow>
               (case so_set_permissions ops parent 0x1C0 w2 of
                  (Inl e, w3) \<Rightarrow>
                    (Inl (StartupIo (''chmod parent directory '' @ parent @ '': '' @ io_text e)), w3)
                | (Inr _, w3) \<Rightarrow> (Inr (), w3)))
      | (Inl e, w1) \<Rightarrow> (Inl (StartupIo (''stat parent directory '' @ parent @ '': '' @ io_text e)), w1))"

definition recover_stale_socket ::
  "'w socket_ops \<Rightarrow> string \<Rightarrow> 'w \<Rightarrow> (startup_error, unit) result \<times> 'w" where
  "recover_stale_socket ops path w =
     (case so_symlink_metadata ops path w of
        (Inl e, w1) \<Rightarrow> (Inl (StartupIo (''stat '' @ path @ '': '' @ io_text e)), w1)
      | (Inr meta, w1) \<Rightarrow>
          if md_kind meta = FkSymlink \<or> md_kind meta \<noteq> FkSocket
          then (Inl (StaleSocketPathNotASocket path), w1)
          else case so_connect ops path w1 of
            (Inr _, w2) \<Rightarrow> (Inl (SocketInUse path), w2)
          | (Inl (IoConnectionRefused _), w2) \<Rightarrow>
              (case so_remove_file ops path w2 of
                 (Inl e, w3) \<Rightarrow> (Inl (StartupIo (''remove stale socket '' @ path @ '': '' @ io_text e)), w3)
               | (Inr _, w3) \<Rightarrow> (Inr (), w3))
          | (Inl e, w2) \<Rightarrow> (Inl (StartupIo (''probe '' @ path @ '': '' @ io_text e)), w2))"

record bound_socket =
  bs_listener :: nat
  bs_path :: string

definition finish_bind ::
  "'w socket_ops \<Rightarrow> agent_config \<Rightarrow> nat \<Rightarrow> 'w \<Rightarrow> (startup_error, bound_socket) result \<times> 'w" where
  "finish_bind ops config listener w =
     (case so_set_permissions ops (cfg_socket_path config) (cfg_socket_mode config) w of
        (Inl e, w1) \<Rightarrow> (Inl (StartupIo (''chmod '' @ cfg_socket_path config @ '': '' @ io_text e)), w1)
      | (Inr _, w1) \<Rightarrow> (Inr \<lparr>bs_listener = listener, bs_path = cfg_socket_path config\<rparr>, w1))"

definition bound_socket_bind ::
  "'w socket_ops \<Rightarrow> agent_config \<Rightarrow> 'w \<Rightarrow> (startup_error, bound_socket) result \<times> 'w" where
  "bound_socket_bind ops config w =
     (let path = cfg_socket_path config;
          parent = (case path_parent path of Some p \<Rightarrow> p | None \<Rightarrow> ''.'')
      in case ensure_parent_directory_is_safe ops parent w of
           (Inl e, w1) \<Rightarrow> (Inl e, w1)
         | (Inr _, w1) \<Rightarrow>
             (case so_bind ops path w1 of
                (Inr listener, w2) \<Rightarrow> finish_bind ops config listener w2
              | (Inl (IoAddrInUse _), w2) \<Rightarrow>
                  (case recover_stale_socket ops path w2 of
                     (Inl e, w3) \<Rightarrow> (Inl e, w3)
                   | (Inr _, w3) \<Rightarrow>
                       (case so_bind ops path w3 of
                          (Inr listener, w4) \<Rightarrow> finish_bind ops config listener w4
                        | (Inl e, w4) \<Rightarrow>
                            (Inl (StartupIo (''bind '' @ path @ '' after stale-socket recovery: '' @ io_text e)), w4)))
              | (Inl e, w2) \<Rightarrow> (Inl (StartupIo (''bind '' @ path @ '': '' @ io_text e)), w2)))"

definition bound_socket_drop :: "'w socket_ops \<Rightarrow> bound_socket \<Rightarrow> 'w \<Rightarrow> 'w" where
  "bound_socket_drop ops socket w = snd (so_remove_file ops (bs_path socket) w)"

section \<open>Paths\<close>

lemma length_trim_path_rev: "length (trim_path_rev cs) \<le> length cs"
  by (induction cs rule: trim_path_rev.induct) auto

lemma trim_path_rev_hd: "trim_path_rev cs = c # ds \<Longrightarrow> c \<noteq> CHR ''/''"
  by (induction cs rule: trim_path_rev.induct) (auto split: if_splits)

lemma path_parent_shorter:
  assumes "path_parent s = Some p"
  shows "length p < length s"
proof -
  let ?t = "rev (trim_path_rev (rev s))"
  have t: "?t \<noteq> []" "length ?t \<le> length s"
    using assms length_trim_path_rev [of "rev s"] by (auto simp: path_parent_def Let_def)
  show ?thesis
  proof (cases "rsplit_once (CHR ''/'') ?t")
    case None
    then show ?thesis using assms t by (cases s) (auto simp: path_parent_def Let_def)
  next
    case (Some ab)
    obtain a b where ab: "ab = (a, b)" by fastforce
    then have split: "?t = a @ CHR ''/'' # b" using Some by (simp add: rsplit_once_Some)
    have "b \<noteq> []"
    proof
      assume "b = []"
      then have "trim_path_rev (rev s) = CHR ''/'' # rev a"
        using arg_cong [OF split, of rev] by simp
      then show False using trim_path_rev_hd by blast
    qed
    then have "length a + 2 \<le> length ?t"
      using arg_cong [OF split, of length] by (cases b) auto
    moreover have "length (trim_path_rev (rev a)) \<le> length a"
      using length_trim_path_rev [of "rev a"] by simp
    ultimately show ?thesis
      using assms t Some ab by (auto simp: path_parent_def Let_def split: if_splits)
  qed
qed

definition parent_of :: "string \<Rightarrow> string" where
  "parent_of path = (case path_parent path of Some p \<Rightarrow> p | None \<Rightarrow> ''.'')"

lemma parent_of_other: "parent_of path \<noteq> path"
proof (cases "path_parent path")
  case None
  then have "path \<noteq> ''.''" by (auto simp: path_parent_def rsplit_once_def)
  then show ?thesis using None by (auto simp: parent_of_def)
next
  case (Some p)
  then show ?thesis using path_parent_shorter [OF Some] by (auto simp: parent_of_def)
qed

text \<open>The directories above a path, the nearest first.\<close>

function path_ancestors :: "string \<Rightarrow> string list" where
  "path_ancestors p = (case path_parent p of None \<Rightarrow> [] | Some q \<Rightarrow> q # path_ancestors q)"
  by pat_completeness auto
termination
  by (relation "measure length") (simp_all add: path_parent_shorter)

declare path_ancestors.simps [simp del]

lemma path_ancestors_shorter: "q \<in> set (path_ancestors p) \<Longrightarrow> length q < length p"
proof (induction p rule: path_ancestors.induct)
  case (1 p)
  then obtain p' where p': "path_parent p = Some p'" and q: "q = p' \<or> q \<in> set (path_ancestors p')"
    by (cases "path_parent p") (auto simp: path_ancestors.simps [of p])
  then have "length q \<le> length p'" using 1(1) [OF p'] by auto
  also have "length p' < length p" by (rule path_parent_shorter [OF p'])
  finally show ?case .
qed

section \<open>A host\<close>

text \<open>A small file system: what is at each path, which listeners are alive, and whose process this is.
  A socket file names the listener that was bound to it. Paths are told apart by their text, symbolic
  links lead nowhere, and new files get the modes of the umask \<open>0o022\<close>. Operations that the code relies
  on fail only for the reasons written here.\<close>

datatype node =
    NodeDir u32 u32
  | NodeSymlink
  | NodeSocket nat u32 u32
  | NodeFile

record host =
  h_nodes :: "string \<Rightarrow> node option"
  h_alive :: "nat set"
  h_next :: nat

fun node_metadata :: "node \<Rightarrow> file_metadata" where
  "node_metadata (NodeDir mode uid) = \<lparr>md_kind = FkDirectory, md_mode = mode, md_uid = uid\<rparr>"
| "node_metadata NodeSymlink = \<lparr>md_kind = FkSymlink, md_mode = 0x1FF, md_uid = 0\<rparr>"
| "node_metadata (NodeSocket _ mode uid) = \<lparr>md_kind = FkSocket, md_mode = mode, md_uid = uid\<rparr>"
| "node_metadata NodeFile = \<lparr>md_kind = FkOther, md_mode = 0x1A4, md_uid = 0\<rparr>"

fun node_chmod :: "u32 \<Rightarrow> node \<Rightarrow> node" where
  "node_chmod mode (NodeDir _ uid) = NodeDir mode uid"
| "node_chmod mode (NodeSocket l _ uid) = NodeSocket l mode uid"
| "node_chmod mode n = n"

text \<open>\<open>mkdir\<close>: the parent has to be there; the root and the current directory always are.
  \<open>fs::create_dir_all\<close> makes every missing directory on the way.\<close>

definition host_mkdir :: "u32 \<Rightarrow> string \<Rightarrow> host \<Rightarrow> (io_error, unit) result \<times> host" where
  "host_mkdir euid p h =
     (let created = (Inr (), h\<lparr>h_nodes := (h_nodes h)(p \<mapsto> NodeDir 0x1ED euid)\<rparr>)
      in case (h_nodes h p, path_parent p) of
           (None, Some q) \<Rightarrow>
             if q = [] \<or> q = ''/'' then created
             else (case h_nodes h q of
                     None \<Rightarrow> (Inl (IoNotFound []), h)
                   | Some (NodeDir _ _) \<Rightarrow> created
                   | Some _ \<Rightarrow> (Inl (IoOther []), h))
         | _ \<Rightarrow> (Inl (IoOther []), h))"

definition host_is_dir :: "string \<Rightarrow> host \<Rightarrow> bool" where
  "host_is_dir p h \<longleftrightarrow> p = ''/'' \<or> (\<exists>mode uid. h_nodes h p = Some (NodeDir mode uid))"

function host_create_dirs :: "u32 \<Rightarrow> string \<Rightarrow> host \<Rightarrow> (io_error, unit) result \<times> host" where
  "host_create_dirs euid p h =
     (if p = [] then (Inr (), h)
      else case host_mkdir euid p h of
        (Inr u, h1) \<Rightarrow> (Inr u, h1)
      | (Inl (IoNotFound t), h1) \<Rightarrow>
          (case path_parent p of
             None \<Rightarrow> (Inl (IoOther []), h1)
           | Some q \<Rightarrow>
               (case host_create_dirs euid q h1 of
                  (Inl e, h2) \<Rightarrow> (Inl e, h2)
                | (Inr _, h2) \<Rightarrow>
                    (case host_mkdir euid p h2 of
                       (Inr u, h3) \<Rightarrow> (Inr u, h3)
                     | (Inl e, h3) \<Rightarrow> if host_is_dir p h3 then (Inr (), h3) else (Inl e, h3))))
      | (Inl e, h1) \<Rightarrow> if host_is_dir p h1 then (Inr (), h1) else (Inl e, h1))"
  by pat_completeness auto
termination
  by (relation "measure (\<lambda>(euid, p, h). length p)") (simp_all add: path_parent_shorter)

declare host_create_dirs.simps [simp del]

definition host_ops :: "u32 \<Rightarrow> host socket_ops" where
  "host_ops euid =
     \<lparr>so_symlink_metadata = (\<lambda>p h.
        (case h_nodes h p of None \<Rightarrow> Inl (IoNotFound []) | Some n \<Rightarrow> Inr (node_metadata n), h)),
      so_create_dir_all = host_create_dirs euid,
      so_set_permissions = (\<lambda>p mode h.
        case h_nodes h p of
          None \<Rightarrow> (Inl (IoNotFound []), h)
        | Some n \<Rightarrow> (Inr (), h\<lparr>h_nodes := (h_nodes h)(p \<mapsto> node_chmod mode n)\<rparr>)),
      so_bind = (\<lambda>p h.
        case h_nodes h p of
          Some _ \<Rightarrow> (Inl (IoAddrInUse []), h)
        | None \<Rightarrow>
            (Inr (h_next h),
             h\<lparr>h_nodes := (h_nodes h)(p \<mapsto> NodeSocket (h_next h) 0x1ED euid),
               h_alive := insert (h_next h) (h_alive h), h_next := h_next h + 1\<rparr>)),
      so_connect = (\<lambda>p h.
        (case h_nodes h p of
           None \<Rightarrow> Inl (IoNotFound [])
         | Some (NodeSocket l _ _) \<Rightarrow> if l \<in> h_alive h then Inr () else Inl (IoConnectionRefused [])
         | Some _ \<Rightarrow> Inl (IoConnectionRefused []), h)),
      so_remove_file = (\<lambda>p h.
        case h_nodes h p of
          None \<Rightarrow> (Inl (IoNotFound []), h)
        | Some (NodeDir _ _) \<Rightarrow> (Inl (IoOther []), h)
        | Some _ \<Rightarrow> (Inr (), h\<lparr>h_nodes := (h_nodes h)(p := None)\<rparr>)),
      so_euid = euid, so_octal = (\<lambda>_. [])\<rparr>"

section \<open>Starting on the small host\<close>

lemma host_ops_simps [simp]:
  "so_euid (host_ops euid) = euid"
  "so_symlink_metadata (host_ops euid) p h =
     (case h_nodes h p of None \<Rightarrow> Inl (IoNotFound []) | Some n \<Rightarrow> Inr (node_metadata n), h)"
  "so_create_dir_all (host_ops euid) = host_create_dirs euid"
  "so_set_permissions (host_ops euid) p mode h =
     (case h_nodes h p of
          None \<Rightarrow> (Inl (IoNotFound []), h)
        | Some n \<Rightarrow> (Inr (), h\<lparr>h_nodes := (h_nodes h)(p \<mapsto> node_chmod mode n)\<rparr>))"
  "so_bind (host_ops euid) p h =
     (case h_nodes h p of
          Some _ \<Rightarrow> (Inl (IoAddrInUse []), h)
        | None \<Rightarrow>
            (Inr (h_next h),
             h\<lparr>h_nodes := (h_nodes h)(p \<mapsto> NodeSocket (h_next h) 0x1ED euid),
               h_alive := insert (h_next h) (h_alive h), h_next := h_next h + 1\<rparr>))"
  "so_connect (host_ops euid) p h =
     (case h_nodes h p of
           None \<Rightarrow> Inl (IoNotFound [])
         | Some (NodeSocket l _ _) \<Rightarrow> if l \<in> h_alive h then Inr () else Inl (IoConnectionRefused [])
         | Some _ \<Rightarrow> Inl (IoConnectionRefused []), h)"
  "so_remove_file (host_ops euid) p h =
     (case h_nodes h p of
          None \<Rightarrow> (Inl (IoNotFound []), h)
        | Some (NodeDir _ _) \<Rightarrow> (Inl (IoOther []), h)
        | Some _ \<Rightarrow> (Inr (), h\<lparr>h_nodes := (h_nodes h)(p := None)\<rparr>))"
  by (simp_all add: host_ops_def)

text \<open>A directory fit to bind into.\<close>

definition safe_directory :: "u32 \<Rightarrow> node option \<Rightarrow> bool" where
  "safe_directory euid n \<longleftrightarrow> (\<exists>mode. n = Some (NodeDir mode euid) \<and> mode AND 0x12 = 0)"

lemma parent_defect_node:
  "parent_defect euid octal (node_metadata n) = None \<longleftrightarrow> safe_directory euid (Some n)"
  by (cases n) (auto simp: parent_defect_def safe_directory_def)

text \<open>What creating directories may do: only paths that were free become directories.\<close>

definition dirs_added :: "u32 \<Rightarrow> string set \<Rightarrow> host \<Rightarrow> host \<Rightarrow> bool" where
  "dirs_added euid ps h h' \<longleftrightarrow>
     h_alive h' = h_alive h \<and> h_next h' = h_next h \<and>
     (\<forall>q. h_nodes h' q = h_nodes h q \<or>
        q \<in> ps \<and> path_parent q \<noteq> None \<and> h_nodes h q = None \<and> h_nodes h' q = Some (NodeDir 0x1ED euid))"

lemma dirs_added_refl [simp]: "dirs_added euid ps h h"
  by (simp add: dirs_added_def)

lemma dirs_added_trans:
  assumes "dirs_added euid ps h h1" and "dirs_added euid qs h1 h2"
  shows "dirs_added euid (ps \<union> qs) h h2"
proof -
  have "h_nodes h2 q = h_nodes h q \<or> q \<in> ps \<union> qs \<and> path_parent q \<noteq> None \<and> h_nodes h q = None \<and>
      h_nodes h2 q = Some (NodeDir 0x1ED euid)" for q
    using assms unfolding dirs_added_def by (metis UnI1 UnI2 option.distinct(1))
  then show ?thesis using assms by (simp add: dirs_added_def)
qed

lemma host_mkdir_adds:
  assumes "host_mkdir euid p h = (r, h')"
  shows "dirs_added euid {p} h h'"
    and "r = Inr u \<Longrightarrow> h_nodes h' p = Some (NodeDir 0x1ED euid)"
  using assms
  by (auto simp: host_mkdir_def dirs_added_def Let_def split: option.splits node.splits if_splits)

lemma host_create_dirs_adds:
  "host_create_dirs euid p h = (r, h') \<Longrightarrow> dirs_added euid (set (p # path_ancestors p)) h h'"
proof (induction euid p h arbitrary: r h' rule: host_create_dirs.induct)
  case (1 euid p h)
  obtain r1 h1 where first: "host_mkdir euid p h = (r1, h1)" by fastforce
  have d1: "dirs_added euid (set (p # path_ancestors p)) h h1"
    using host_mkdir_adds(1) [OF first] by (auto simp: dirs_added_def)
  show ?case
  proof (cases "p \<noteq> [] \<and> (\<exists>t. r1 = Inl (IoNotFound t)) \<and> path_parent p \<noteq> None")
    case False
    then have "h' = h \<or> h' = h1"
      using 1(2) by (auto simp: host_create_dirs.simps [of euid p h] first
          split: if_splits sum.splits io_error.splits option.splits)
    then show ?thesis using d1 by auto
  next
    case True
    then obtain t q where t: "r1 = Inl (IoNotFound t)" and q: "path_parent p = Some q" by blast
    obtain r2 h2 where second: "host_create_dirs euid q h1 = (r2, h2)" by fastforce
    have "dirs_added euid (set (q # path_ancestors q)) h1 h2"
      using True by (intro 1(1) [OF _ first [symmetric] t refl q second]) simp_all
    then have "dirs_added euid (set (p # path_ancestors p)) h1 h2"
      by (auto simp: dirs_added_def path_ancestors.simps [of p] q)
    from dirs_added_trans [OF d1 this] have d2: "dirs_added euid (set (p # path_ancestors p)) h h2" by simp
    obtain r3 h3 where third: "host_mkdir euid p h2 = (r3, h3)" by fastforce
    have "dirs_added euid (set (p # path_ancestors p)) h2 h3"
      using host_mkdir_adds(1) [OF third] by (auto simp: dirs_added_def)
    from dirs_added_trans [OF d2 this] have d3: "dirs_added euid (set (p # path_ancestors p)) h h3" by simp
    have "h' = h2 \<or> h' = h3"
      using 1(2) True by (auto simp: host_create_dirs.simps [of euid p h] first t q second third
          split: sum.splits if_splits)
    then show ?thesis using d2 d3 by auto
  qed
qed

text \<open>The parent is checked, or created private with the directories above it; nothing else is touched.\<close>

lemma ensure_parent_host:
  "ensure_parent_directory_is_safe (host_ops euid) p h =
     (case h_nodes h p of
        Some n \<Rightarrow>
          (case parent_defect euid (so_octal (host_ops euid)) (node_metadata n) of
             Some reason \<Rightarrow> (Inl (ParentDirectoryUnsafe p reason), h)
           | None \<Rightarrow> (Inr (), h))
      | None \<Rightarrow>
          (case host_create_dirs euid p h of
             (Inl e, h1) \<Rightarrow>
               (Inl (StartupIo (''create parent directory '' @ p @ '': '' @ io_text e)), h1)
           | (Inr _, h1) \<Rightarrow>
               (case h_nodes h1 p of
                  None \<Rightarrow> (Inl (StartupIo (''chmod parent directory '' @ p @ '': '')), h1)
                | Some n \<Rightarrow> (Inr (), h1\<lparr>h_nodes := (h_nodes h1)(p \<mapsto> node_chmod 0x1C0 n)\<rparr>))))"
  by (cases "host_create_dirs euid p h")
     (auto simp: ensure_parent_directory_is_safe_def split: option.splits sum.splits)

lemma ensure_parent_safe:
  assumes "ensure_parent_directory_is_safe (host_ops euid) p h = (r, h1)"
  shows "h_alive h1 = h_alive h \<and> h_next h1 = h_next h \<and>
    (\<forall>q. q \<noteq> p \<longrightarrow> h_nodes h1 q = h_nodes h q \<or>
       q \<in> set (path_ancestors p) \<and> path_parent q \<noteq> None \<and> h_nodes h q = None \<and>
       h_nodes h1 q = Some (NodeDir 0x1ED euid)) \<and>
    (\<forall>n. h_nodes h p = Some n \<longrightarrow> h1 = h) \<and>
    (\<forall>u. r = Inr u \<longrightarrow> safe_directory euid (h_nodes h1 p))"
proof (cases "h_nodes h p")
  case (Some n)
  then show ?thesis
    using assms by (auto simp: ensure_parent_host parent_defect_node split: option.splits)
next
  case None
  obtain r2 h2 where made: "host_create_dirs euid p h = (r2, h2)" by fastforce
  note added = host_create_dirs_adds [OF made]
  have "safe_directory euid (Some (node_chmod 0x1C0 n))" if "h_nodes h2 p = Some n" for n
  proof -
    have "h_nodes h2 p = h_nodes h p \<or> h_nodes h2 p = Some (NodeDir 0x1ED euid)"
      using added by (auto simp: dirs_added_def)
    then have "n = NodeDir 0x1ED euid" using that None by simp
    then show ?thesis by (simp add: safe_directory_def)
  qed
  then show ?thesis
    using assms added None
    by (auto simp: ensure_parent_host made dirs_added_def split: sum.splits option.splits)
qed

lemma recover_host:
  "recover_stale_socket (host_ops euid) p h =
     (case h_nodes h p of
        None \<Rightarrow> (Inl (StartupIo (''stat '' @ p @ '': '')), h)
      | Some (NodeSocket l _ _) \<Rightarrow>
          if l \<in> h_alive h then (Inl (SocketInUse p), h)
          else (Inr (), h\<lparr>h_nodes := (h_nodes h)(p := None)\<rparr>)
      | Some _ \<Rightarrow> (Inl (StaleSocketPathNotASocket p), h))"
  by (auto simp: recover_stale_socket_def split: option.splits node.splits)

definition bound_host :: "u32 \<Rightarrow> agent_config \<Rightarrow> host \<Rightarrow> host" where
  "bound_host euid config h =
     h\<lparr>h_nodes := (h_nodes h)(cfg_socket_path config \<mapsto> NodeSocket (h_next h) (cfg_socket_mode config) euid),
       h_alive := insert (h_next h) (h_alive h), h_next := h_next h + 1\<rparr>"

lemma bind_host:
  "bound_socket_bind (host_ops euid) config h =
     (let path = cfg_socket_path config
      in case ensure_parent_directory_is_safe (host_ops euid) (parent_of path) h of
           (Inl e, h1) \<Rightarrow> (Inl e, h1)
         | (Inr _, h1) \<Rightarrow>
             (case h_nodes h1 path of
                None \<Rightarrow> (Inr \<lparr>bs_listener = h_next h1, bs_path = path\<rparr>, bound_host euid config h1)
              | Some (NodeSocket l _ _) \<Rightarrow>
                  if l \<in> h_alive h1 then (Inl (SocketInUse path), h1)
                  else (Inr \<lparr>bs_listener = h_next h1, bs_path = path\<rparr>, bound_host euid config h1)
              | Some _ \<Rightarrow> (Inl (StaleSocketPathNotASocket path), h1)))"
proof -
  let ?path = "cfg_socket_path config"
  obtain e h1 where ensure: "ensure_parent_directory_is_safe (host_ops euid) (parent_of ?path) h = (e, h1)"
    by fastforce
  have bound: "finish_bind (host_ops euid) config (h_next h1)
      (g\<lparr>h_nodes := (h_nodes g)(?path \<mapsto> NodeSocket (h_next h1) m euid), h_alive := a, h_next := n\<rparr>) =
      (Inr \<lparr>bs_listener = h_next h1, bs_path = ?path\<rparr>,
       g\<lparr>h_nodes := (h_nodes g)(?path \<mapsto> NodeSocket (h_next h1) (cfg_socket_mode config) euid),
         h_alive := a, h_next := n\<rparr>)" for g m a n
    by (simp add: finish_bind_def)
  note unfolded = bound_socket_bind_def parent_of_def [symmetric] ensure Let_def recover_host bound bound_host_def
  show ?thesis
  proof (cases e)
    case (Inr u)
    show ?thesis
    proof (cases "h_nodes h1 ?path")
      case None
      then show ?thesis by (simp add: unfolded Inr)
    next
      case (Some n)
      then show ?thesis by (cases n) (simp_all add: unfolded Inr)
    qed
  qed (simp add: unfolded)
qed

lemma bind_Inr:
  assumes "bound_socket_bind (host_ops euid) config h = (Inr socket, h')"
  shows "bs_path socket = cfg_socket_path config \<and>
    h_nodes h' (cfg_socket_path config) = Some (NodeSocket (bs_listener socket) (cfg_socket_mode config) euid)"
proof -
  obtain e h1 where ensure:
    "ensure_parent_directory_is_safe (host_ops euid) (parent_of (cfg_socket_path config)) h = (e, h1)"
    by fastforce
  show ?thesis
    using assms by (auto simp: bind_host Let_def ensure bound_host_def
        split: sum.splits option.splits node.splits if_splits)
qed

section \<open>Interference\<close>

text \<open>Other processes act between any two operations: the actions still to come are part of the state,
  and each operation is preceded by one of them.\<close>

definition after_action :: "('w \<Rightarrow> 'a \<times> 'w) \<Rightarrow> 'w \<times> ('w \<Rightarrow> 'w) list \<Rightarrow> 'a \<times> 'w \<times> ('w \<Rightarrow> 'w) list" where
  "after_action f st =
     (case st of
        (w, []) \<Rightarrow> (case f w of (a, w') \<Rightarrow> (a, w', []))
      | (w, action # later) \<Rightarrow> (case f (action w) of (a, w') \<Rightarrow> (a, w', later)))"

definition interfered :: "'w socket_ops \<Rightarrow> ('w \<times> ('w \<Rightarrow> 'w) list) socket_ops" where
  "interfered ops =
     \<lparr>so_symlink_metadata = (\<lambda>p. after_action (so_symlink_metadata ops p)),
      so_create_dir_all = (\<lambda>p. after_action (so_create_dir_all ops p)),
      so_set_permissions = (\<lambda>p mode. after_action (so_set_permissions ops p mode)),
      so_bind = (\<lambda>p. after_action (so_bind ops p)),
      so_connect = (\<lambda>p. after_action (so_connect ops p)),
      so_remove_file = (\<lambda>p. after_action (so_remove_file ops p)),
      so_euid = so_euid ops, so_octal = so_octal ops\<rparr>"

section \<open>Properties\<close>

text \<open>C29. Starting alone on the host, the agent never takes a socket from a live agent and never removes
  anything that is not a socket: it starts only if nothing was at its path or a socket nobody listens
  on, and otherwise leaves what is there. When it starts, the path is its own live socket with the
  configured mode, in a directory that is no symbolic link, that it owns and that neither group nor
  others can write to. A parent directory that was there is left as it was. Besides the socket and its
  parent only directories above the parent that did not exist may change: they are created, with the
  default mode and not the private one of the parent.\<close>

theorem bind_takes_only_stale_sockets:
  assumes "bound_socket_bind (host_ops euid) config h = (r, h')"
    and "path = cfg_socket_path config"
  shows "(case r of
      Inl _ \<Rightarrow> h_nodes h' path = h_nodes h path \<and> h_alive h' = h_alive h
    | Inr socket \<Rightarrow>
        bs_path socket = path \<and> bs_listener socket \<in> h_alive h' \<and>
        h_nodes h' path = Some (NodeSocket (bs_listener socket) (cfg_socket_mode config) euid) \<and>
        safe_directory euid (h_nodes h' (parent_of path)) \<and>
        (\<forall>n. h_nodes h path = Some n \<longrightarrow> (\<exists>l mode uid. n = NodeSocket l mode uid \<and> l \<notin> h_alive h))) \<and>
    (h_nodes h (parent_of path) \<noteq> None \<longrightarrow> h_nodes h' (parent_of path) = h_nodes h (parent_of path)) \<and>
    (\<forall>p. p \<noteq> path \<longrightarrow> p \<noteq> parent_of path \<longrightarrow> h_nodes h' p = h_nodes h p \<or>
       p \<in> set (path_ancestors (parent_of path)) \<and> h_nodes h p = None \<and>
       h_nodes h' p = Some (NodeDir 0x1ED euid))"
proof -
  obtain e h1 where ensure: "ensure_parent_directory_is_safe (host_ops euid) (parent_of path) h = (e, h1)"
    by fastforce
  note safe = ensure_parent_safe [OF ensure]
  have other: "path \<noteq> parent_of path" using parent_of_other [of path] by simp
  have "path \<notin> set (path_ancestors (parent_of path)) \<or> path_parent path = None"
    using path_parent_shorter [of path] path_ancestors_shorter [of path "parent_of path"]
    by (auto simp: parent_of_def split: option.splits)
  then have kept: "h_nodes h1 path = h_nodes h path"
    using safe other by blast
  show ?thesis
  proof (cases e)
    case (Inl err)
    then show ?thesis using assms ensure safe kept by (auto simp: bind_host Let_def)
  next
    case (Inr u)
    then have "(r, h') = (case h_nodes h1 path of
        None \<Rightarrow> (Inr \<lparr>bs_listener = h_next h1, bs_path = path\<rparr>, bound_host euid config h1)
      | Some (NodeSocket l _ _) \<Rightarrow>
          if l \<in> h_alive h1 then (Inl (SocketInUse path), h1)
          else (Inr \<lparr>bs_listener = h_next h1, bs_path = path\<rparr>, bound_host euid config h1)
      | Some _ \<Rightarrow> (Inl (StaleSocketPathNotASocket path), h1))"
      using assms(1) ensure unfolding assms(2) by (simp add: bind_host Let_def)
    then have cases: "(\<exists>err. r = Inl err) \<and> h' = h1 \<or>
        r = Inr \<lparr>bs_listener = h_next h1, bs_path = path\<rparr> \<and> h' = bound_host euid config h1 \<and>
        (\<forall>n. h_nodes h1 path = Some n \<longrightarrow> (\<exists>l mode uid. n = NodeSocket l mode uid \<and> l \<notin> h_alive h1))"
      by (auto split: option.splits node.splits if_splits)
    have nodes: "h_nodes (bound_host euid config h1) p = h_nodes h1 p" if "p \<noteq> path" for p
      using that by (simp add: bound_host_def assms(2))
    show ?thesis
      using cases
    proof
      assume "(\<exists>err. r = Inl err) \<and> h' = h1"
      then show ?thesis using safe kept by auto
    next
      assume bound: "r = Inr \<lparr>bs_listener = h_next h1, bs_path = path\<rparr> \<and> h' = bound_host euid config h1 \<and>
        (\<forall>n. h_nodes h1 path = Some n \<longrightarrow> (\<exists>l mode uid. n = NodeSocket l mode uid \<and> l \<notin> h_alive h1))"
      have "h_nodes h' path = Some (NodeSocket (h_next h1) (cfg_socket_mode config) euid)" "h_next h1 \<in> h_alive h'"
        using bound by (simp_all add: bound_host_def assms(2))
      then show ?thesis using bound safe kept Inr nodes other by auto
    qed
  qed
qed

lemma bind_takes_only_stale_sockets_witness:
  "\<exists>h'. bound_socket_bind (host_ops 1) (agent_config_new ''/d/s'' 0x1B0)
     \<lparr>h_nodes = [''/d'' \<mapsto> NodeDir 0x1C0 1, ''/d/s'' \<mapsto> NodeSocket 7 0x1B0 1], h_alive = {}, h_next = 8\<rparr> =
       (Inr \<lparr>bs_listener = 8, bs_path = ''/d/s''\<rparr>, h') \<and>
     h_nodes h' ''/d/s'' = Some (NodeSocket 8 0x1B0 1)"
proof -
  let ?h = "\<lparr>h_nodes = [''/d'' \<mapsto> NodeDir 0x1C0 1, ''/d/s'' \<mapsto> NodeSocket 7 0x1B0 1], h_alive = {}, h_next = 8\<rparr>"
  let ?config = "agent_config_new ''/d/s'' 0x1B0"
  have "parent_of ''/d/s'' = ''/d''"
    by (simp add: parent_of_def path_parent_def rsplit_once_def)
  then have run: "bound_socket_bind (host_ops 1) ?config ?h =
      (Inr \<lparr>bs_listener = 8, bs_path = ''/d/s''\<rparr>, bound_host 1 ?config ?h)"
    by (simp add: bind_host ensure_parent_host agent_config_new_def parent_defect_def Let_def)
  show ?thesis
    using bind_takes_only_stale_sockets [OF run refl] run by (simp add: agent_config_new_def)
qed

text \<open>C37. Two agents that start at the same time over one stale socket can both start: if the first one
  starts between the second one's probe of the stale socket and its removal, the second removes the
  first one's live socket and binds its own. Both report success, the first agent keeps listening on
  a socket no path leads to, and when it exits it removes the second agent's path.\<close>

theorem concurrent_start_takes_a_live_socket:
  "\<exists>config h first h1 second h2.
     (let start = bound_socket_bind (host_ops euid) config;
          path = cfg_socket_path config
      in h_nodes h path = Some (NodeSocket 0 0 euid) \<and> 0 \<notin> h_alive h \<and>
         start h = (Inr first, h1) \<and>
         bound_socket_bind (interfered (host_ops euid)) config (h, [id, id, id, id, \<lambda>g. snd (start g)]) =
           (Inr second, h2, []) \<and>
         bs_listener first \<in> h_alive h2 \<and> bs_listener second \<noteq> bs_listener first \<and>
         h_nodes h2 path = Some (NodeSocket (bs_listener second) (cfg_socket_mode config) euid) \<and>
         h_nodes (bound_socket_drop (host_ops euid) first h2) path = None)"
proof -
  let ?config = "agent_config_new ''/d/s'' 0x1B0"
  let ?h = "\<lparr>h_nodes = [''/d'' \<mapsto> NodeDir 0x1C0 euid, ''/d/s'' \<mapsto> NodeSocket 0 0 euid], h_alive = {}, h_next = 5\<rparr>"
  let ?h1 = "bound_host euid ?config ?h"
  let ?first = "\<lparr>bs_listener = 5, bs_path = ''/d/s''\<rparr>"
  let ?second = "\<lparr>bs_listener = 6, bs_path = ''/d/s''\<rparr>"
  let ?h2 = "bound_host euid ?config ?h1"
  have path: "cfg_socket_path ?config = ''/d/s''" "cfg_socket_mode ?config = 0x1B0"
    by (simp_all add: agent_config_new_def)
  have parent: "path_parent ''/d/s'' = Some ''/d''"
    by (simp add: path_parent_def rsplit_once_def)
  then have parent': "parent_of ''/d/s'' = ''/d''" by (simp add: parent_of_def)
  have start: "bound_socket_bind (host_ops euid) ?config ?h = (Inr ?first, ?h1)"
    by (simp add: bind_host parent' path ensure_parent_host parent_defect_def Let_def)
  have "bound_socket_bind (interfered (host_ops euid)) ?config
      (?h, [id, id, id, id, \<lambda>g. snd (bound_socket_bind (host_ops euid) ?config g)]) = (Inr ?second, ?h2, [])"
    unfolding bound_socket_bind_def [of "interfered _"]
    by (simp add: path parent ensure_parent_directory_is_safe_def interfered_def after_action_def
        parent_defect_def recover_stale_socket_def start finish_bind_def Let_def bound_host_def)
  then show ?thesis
    by (intro exI [of _ ?config] exI [of _ ?h] exI [of _ ?first] exI [of _ ?h1] exI [of _ ?second] exI [of _ ?h2])
       (simp add: Let_def start path, simp add: bound_host_def path bound_socket_drop_def)
qed

text \<open>A socket path that is a bare file name never works, in whatever directory the agent runs: the
  parent of such a path is the empty path and not the current directory, and the agent gives up with
  an input/output error.\<close>

theorem bare_socket_name_never_binds:
  assumes "CHR ''/'' \<notin> set (cfg_socket_path config)" and "cfg_socket_path config \<noteq> []"
    and "h_nodes h [] = None"
  shows "\<exists>e. bound_socket_bind (host_ops euid) config h = (Inl (StartupIo e), h)"
proof -
  have "trim_path_rev cs = cs" if "CHR ''/'' \<notin> set cs" for cs
    using that by (cases cs; cases "tl cs") auto
  then have "parent_of (cfg_socket_path config) = []"
    using assms(1,2) split_once_None [of "CHR ''/''" "rev (cfg_socket_path config)"]
    by (simp add: parent_of_def path_parent_def rsplit_once_def Let_def del: split_once_None)
  then show ?thesis
    using assms(3) by (simp add: bind_host ensure_parent_host host_create_dirs.simps)
qed

lemma bare_socket_name_never_binds_witness:
  "\<exists>e. fst (bound_socket_bind (host_ops 1) (agent_config_new ''agent.sock'' 0x1B0)
      \<lparr>h_nodes = Map.empty, h_alive = {}, h_next = 0\<rparr>) = Inl (StartupIo e)"
  using bare_socket_name_never_binds [of "agent_config_new ''agent.sock'' 0x1B0"
      "\<lparr>h_nodes = Map.empty, h_alive = {}, h_next = 0\<rparr>" 1]
  by (auto simp: agent_config_new_def)

end
