(* ===== verification/Eltanin_Server.thy ===== *)
theory Eltanin_Server
  imports Eltanin_Listener
begin

text \<open>
  Models \<open>crates/eltanin-agent/src/server.rs\<close> (the accept loop with its connection cap, the slots of
  the connection threads, the drain at shutdown) and \<open>daemon.rs\<close>. The accept loop and the connection
  threads interleave: a step is one atomic action of one of them, chosen by an event. What a
  connection thread serves is modelled in \<open>Eltanin_Connection\<close>; here only its slot and its end count.
\<close>

section \<open>The accept loop\<close>

text \<open>Where the accept loop is: waiting for the next connection, past the check of the flag, past the
  check of the capacity, with a slot reserved and no thread yet, or past the loop.\<close>

datatype accept_phase = Waiting | Accepted | Admitted | Reserved | Draining

record server_state =
  sv_phase :: accept_phase
  sv_active :: nat
  sv_threads :: "nat list"
  sv_holding :: "nat list"
  sv_ended :: "nat list"
  sv_shutdown :: bool

datatype server_event =
    ShutdownCalled
  | Incoming bool
  | CapacityChecked
  | SlotReserved
  | ThreadSpawned bool
  | SlotReleased nat
  | ThreadEnded nat

definition server_new :: server_state where
  "server_new = \<lparr>sv_phase = Waiting, sv_active = 0, sv_threads = [], sv_holding = [], sv_ended = [],
                 sv_shutdown = False\<rparr>"

text \<open>\<open>shutdown\<close>: the flag, and a connection that wakes the loop, which is an \<open>Incoming\<close> of its own.\<close>

definition shutdown :: "server_state \<Rightarrow> server_state" where
  "shutdown s = s\<lparr>sv_shutdown := True\<rparr>"

text \<open>One step; \<open>None\<close> when the event cannot happen now. A thread is named by its place in the list of
  join handles. The thread drops the guard of its slot before it ends.\<close>

fun server_step :: "nat \<Rightarrow> server_event \<Rightarrow> server_state \<Rightarrow> server_state option" where
  "server_step max_connections ShutdownCalled s = Some (shutdown s)"
| "server_step max_connections (Incoming ok) s =
     (if sv_phase s \<noteq> Waiting then None
      else if sv_shutdown s then Some (s\<lparr>sv_phase := Draining\<rparr>)
      else if \<not> ok then Some s
      else Some (s\<lparr>sv_phase := Accepted\<rparr>))"
| "server_step max_connections CapacityChecked s =
     (if sv_phase s \<noteq> Accepted then None
      else if sv_active s \<ge> max_connections then Some (s\<lparr>sv_phase := Waiting\<rparr>)
      else Some (s\<lparr>sv_phase := Admitted\<rparr>))"
| "server_step max_connections SlotReserved s =
     (if sv_phase s \<noteq> Admitted then None
      else Some (s\<lparr>sv_phase := Reserved, sv_active := sv_active s + 1\<rparr>))"
| "server_step max_connections (ThreadSpawned ok) s =
     (if sv_phase s \<noteq> Reserved then None
      else if ok then
        Some (s\<lparr>sv_phase := Waiting, sv_threads := sv_threads s @ [length (sv_threads s)],
                sv_holding := length (sv_threads s) # sv_holding s\<rparr>)
      else Some (s\<lparr>sv_phase := Waiting, sv_active := sv_active s - 1\<rparr>))"
| "server_step max_connections (SlotReleased t) s =
     (if t \<in> set (sv_holding s)
      then Some (s\<lparr>sv_active := sv_active s - 1, sv_holding := remove1 t (sv_holding s)\<rparr>) else None)"
| "server_step max_connections (ThreadEnded t) s =
     (if t \<in> set (sv_threads s) \<and> t \<notin> set (sv_holding s) \<and> t \<notin> set (sv_ended s)
      then Some (s\<lparr>sv_ended := t # sv_ended s\<rparr>) else None)"

fun server_steps :: "nat \<Rightarrow> server_event list \<Rightarrow> server_state \<Rightarrow> server_state option" where
  "server_steps max_connections [] s = Some s"
| "server_steps max_connections (e # es) s =
     Option.bind (server_step max_connections e s) (server_steps max_connections es)"

section \<open>The drain\<close>

record shutdown_report =
  sr_drained :: nat
  sr_abandoned :: nat

definition DRAIN_POLL :: duration where "DRAIN_POLL = 20 * 10 ^ 6"

text \<open>One handle: whether it had finished, and the time then. \<open>finished\<close> tells whether the thread has
  finished at a time, \<open>late\<close> how much longer than asked a sleep that begins at a time lasts.\<close>

function drain_one :: "(nat \<Rightarrow> bool) \<Rightarrow> (nat \<Rightarrow> duration) \<Rightarrow> nat \<Rightarrow> nat \<Rightarrow> bool \<times> nat" where
  "drain_one finished late deadline now =
     (if finished now then (True, now)
      else if now \<ge> deadline then (False, now)
      else drain_one finished late deadline (now + DRAIN_POLL + late now))"
  by pat_completeness auto

termination
  by (relation "measure (\<lambda>(_, _, deadline, now). deadline - now)") (auto simp: DRAIN_POLL_def)

declare drain_one.simps [simp del]

fun drain_loop ::
  "(nat \<Rightarrow> nat \<Rightarrow> bool) \<Rightarrow> (nat \<Rightarrow> duration) \<Rightarrow> nat \<Rightarrow> nat list \<Rightarrow> shutdown_report \<Rightarrow> nat \<Rightarrow>
     shutdown_report \<times> nat" where
  "drain_loop finished late deadline [] report now = (report, now)"
| "drain_loop finished late deadline (handle # handles) report now =
     (case drain_one (finished handle) late deadline now of
        (True, now') \<Rightarrow>
          drain_loop finished late deadline handles (report\<lparr>sr_drained := sr_drained report + 1\<rparr>) now'
      | (False, now') \<Rightarrow>
          drain_loop finished late deadline handles (report\<lparr>sr_abandoned := sr_abandoned report + 1\<rparr>) now')"

definition drain ::
  "(nat \<Rightarrow> nat \<Rightarrow> bool) \<Rightarrow> (nat \<Rightarrow> duration) \<Rightarrow> nat list \<Rightarrow> duration \<Rightarrow> nat \<Rightarrow> shutdown_report \<times> nat" where
  "drain finished late handles drain_timeout now =
     drain_loop finished late (now + drain_timeout) handles \<lparr>sr_drained = 0, sr_abandoned = 0\<rparr> now"

text \<open>\<open>run\<close>: the accept loop as far as the events take it, then the drain of every handle.\<close>

definition server_run ::
  "agent_config \<Rightarrow> server_event list \<Rightarrow> (nat \<Rightarrow> nat \<Rightarrow> bool) \<Rightarrow> (nat \<Rightarrow> duration) \<Rightarrow> nat \<Rightarrow>
     (shutdown_report \<times> nat) option" where
  "server_run config events finished late now =
     (case server_steps (cfg_max_connections config) events server_new of
        None \<Rightarrow> None
      | Some s \<Rightarrow>
          if sv_phase s = Draining
          then Some (drain finished late (sv_threads s) (cfg_drain_timeout config) now) else None)"

section \<open>The daemon\<close>

text \<open>\<open>run\<close> of \<open>daemon.rs\<close>: \<open>install\<close> is the outcome of registering for the signals, \<open>serve\<close> the run of
  the server. The server owns the socket, which is dropped when it ends.\<close>

definition daemon_run ::
  "'w socket_ops \<Rightarrow> agent_config \<Rightarrow> (string, unit) result \<Rightarrow>
     (bound_socket \<Rightarrow> 'w \<Rightarrow> shutdown_report \<times> 'w) \<Rightarrow> 'w \<Rightarrow> (startup_error, shutdown_report) result \<times> 'w"
where
  "daemon_run ops config install serve w =
     (case bound_socket_bind ops config w of
        (Inl e, w1) \<Rightarrow> (Inl e, w1)
      | (Inr socket, w1) \<Rightarrow>
          (case install of
             Inl e \<Rightarrow> (Inl (StartupIo e), bound_socket_drop ops socket w1)
           | Inr _ \<Rightarrow>
               (case serve socket w1 of
                  (report, w2) \<Rightarrow> (Inr report, bound_socket_drop ops socket w2))))"

section \<open>Slots\<close>

text \<open>The counter is the number of threads that hold a slot, and one more while a slot is reserved for a
  thread not yet spawned.\<close>

definition server_ok :: "nat \<Rightarrow> server_state \<Rightarrow> bool" where
  "server_ok max_connections s \<longleftrightarrow>
     sv_active s = length (sv_holding s) + (if sv_phase s = Reserved then 1 else 0) \<and>
     sv_active s \<le> max_connections \<and> (sv_phase s = Admitted \<longrightarrow> sv_active s < max_connections) \<and>
     distinct (sv_holding s) \<and> set (sv_holding s) \<subseteq> set (sv_threads s) \<and>
     sv_threads s = [0 ..< length (sv_threads s)] \<and>
     set (sv_ended s) \<subseteq> set (sv_threads s) - set (sv_holding s) \<and> distinct (sv_ended s)"

lemma server_ok_new [simp]: "server_ok n server_new"
  by (simp add: server_ok_def server_new_def)

lemma threads_less:
  assumes "sv_threads s = [0 ..< length (sv_threads s)]"
  shows "t \<in> set (sv_threads s) \<longleftrightarrow> t < length (sv_threads s)"
  by (subst assms) simp

lemma server_step_ok:
  assumes "server_ok n s" and "server_step n e s = Some s'"
  shows "server_ok n s'"
proof (cases e)
  case (ThreadSpawned ok)
  have "length (sv_threads s) \<notin> set (sv_threads s)"
    using assms(1) threads_less [of s "length (sv_threads s)"] by (simp add: server_ok_def)
  then have "length (sv_threads s) \<notin> set (sv_holding s)" "length (sv_threads s) \<notin> set (sv_ended s)"
    using assms(1) by (auto simp: server_ok_def)
  moreover have "sv_threads s @ [length (sv_threads s)] = [0 ..< Suc (length (sv_threads s))]"
    using assms(1) by (simp add: server_ok_def)
  ultimately show ?thesis
    using assms ThreadSpawned by (auto simp: server_ok_def split: if_splits)
next
  case (SlotReleased t)
  then have t: "t \<in> set (sv_holding s)"
    and s': "s' = s\<lparr>sv_active := sv_active s - 1, sv_holding := remove1 t (sv_holding s)\<rparr>"
    using assms(2) by (auto split: if_splits)
  have "0 < length (sv_holding s)" using t by (cases "sv_holding s") auto
  then show ?thesis
    using assms(1) t by (auto simp: s' server_ok_def length_remove1)
qed (use assms in \<open>auto simp: server_ok_def shutdown_def split: if_splits\<close>)

lemma server_steps_ok:
  "server_steps n es s = Some s' \<Longrightarrow> server_ok n s \<Longrightarrow> server_ok n s'"
  by (induction es arbitrary: s) (auto simp: bind_eq_Some_conv dest: server_step_ok)

section \<open>The end of the drain\<close>

lemma drain_one_later:
  assumes "\<And>t. late t \<le> most"
  shows "snd (drain_one finished late deadline now) \<le> max now (deadline + DRAIN_POLL + most)"
proof (induction "deadline - now" arbitrary: now rule: less_induct)
  case less
  show ?case
  proof (cases "finished now \<or> now \<ge> deadline")
    case True
    then show ?thesis by (auto simp: drain_one.simps [of finished late deadline now])
  next
    case False
    let ?next = "now + DRAIN_POLL + late now"
    have "snd (drain_one finished late deadline ?next) \<le> max ?next (deadline + DRAIN_POLL + most)"
      using False by (intro less) (auto simp: DRAIN_POLL_def)
    moreover have "?next \<le> deadline + DRAIN_POLL + most"
      using False assms [of now] by simp
    ultimately have "snd (drain_one finished late deadline ?next) \<le> deadline + DRAIN_POLL + most"
      by simp
    then show ?thesis using False by (simp add: drain_one.simps [of finished late deadline now])
  qed
qed

lemma drain_one_abandons:
  assumes "\<And>t t'. finished t \<Longrightarrow> t \<le> t' \<Longrightarrow> finished t'"
  shows "\<not> fst (drain_one finished late deadline now) \<Longrightarrow> \<not> finished deadline"
proof (induction "deadline - now" arbitrary: now rule: less_induct)
  case less
  show ?case
  proof (cases "finished now \<or> now \<ge> deadline")
    case True
    then show ?thesis using less.prems assms by (auto simp: drain_one.simps [of finished late deadline now] split: if_splits)
  next
    case False
    let ?next = "now + DRAIN_POLL + late now"
    have "deadline - ?next < deadline - now"
      using False by (auto simp: DRAIN_POLL_def)
    from less.hyps [OF this] show ?thesis
      using less.prems False by (simp add: drain_one.simps [of finished late deadline now])
  qed
qed

lemma drain_loop_report:
  assumes "\<And>t. late t \<le> most"
    and "\<And>handle t t'. finished handle t \<Longrightarrow> t \<le> t' \<Longrightarrow> finished handle t'"
  shows "let (report', now') = drain_loop finished late deadline handles report now
    in sr_drained report' + sr_abandoned report' =
         sr_drained report + sr_abandoned report + length handles \<and>
       sr_abandoned report' \<le>
         sr_abandoned report + length (filter (\<lambda>h. \<not> finished h deadline) handles) \<and>
       now' \<le> max now (deadline + DRAIN_POLL + most)"
proof (induction handles arbitrary: report now)
  case (Cons handle handles)
  obtain done_in_time now1 where one: "drain_one (finished handle) late deadline now = (done_in_time, now1)"
    by fastforce
  have "now1 \<le> max now (deadline + DRAIN_POLL + most)"
    using drain_one_later [of late most "finished handle" deadline now] assms(1) one by simp
  moreover have "\<not> done_in_time \<Longrightarrow> \<not> finished handle deadline"
    using drain_one_abandons [of "finished handle" late deadline now] assms(2) one by (metis fst_conv)
  ultimately show ?case
    using Cons.IH [of "report\<lparr>sr_drained := sr_drained report + 1\<rparr>" now1]
      Cons.IH [of "report\<lparr>sr_abandoned := sr_abandoned report + 1\<rparr>" now1]
    by (cases done_in_time) (auto simp: one split: prod.splits)
qed simp

lemma server_step_threads:
  "server_step n e s = Some s' \<Longrightarrow>
     length (sv_threads s') = length (sv_threads s) + (if e = ThreadSpawned True then 1 else 0)"
  by (cases e) (auto simp: shutdown_def split: if_splits)

lemma server_steps_threads:
  "server_steps n es s = Some s' \<Longrightarrow>
     length (sv_threads s') = length (sv_threads s) + count_list es (ThreadSpawned True)"
proof (induction es arbitrary: s)
  case (Cons e es)
  then obtain s1 where "server_step n e s = Some s1" "server_steps n es s1 = Some s'"
    by (auto simp: bind_eq_Some_conv)
  then show ?case using Cons.IH server_step_threads by (fastforce split: if_splits)
qed simp

section \<open>Properties\<close>

text \<open>The agent never serves more connections at a time than its cap, in any interleaving of the
  accept loop with the connection threads, of connections that fail to be accepted, threads that fail
  to be spawned and threads that end; and no slot is lost: whenever the loop is back at accept, the
  counter is the number of threads that still hold a slot.\<close>

theorem connections_bounded:
  assumes "server_steps max_connections events server_new = Some s"
  shows "sv_active s \<le> max_connections \<and> length (sv_holding s) \<le> sv_active s \<and>
    (sv_phase s = Waiting \<longrightarrow> sv_active s = length (sv_holding s))"
  using server_steps_ok [OF assms server_ok_new] by (simp add: server_ok_def)

lemma connections_bounded_witness:
  "\<exists>s. server_steps 1 [Incoming True, CapacityChecked, SlotReserved, ThreadSpawned True,
      Incoming True, CapacityChecked] server_new = Some s \<and> sv_active s = 1 \<and> sv_phase s = Waiting"
proof -
  obtain s where s: "server_steps 1 [Incoming True, CapacityChecked, SlotReserved, ThreadSpawned True,
      Incoming True, CapacityChecked] server_new = Some s" and "sv_phase s = Waiting" "sv_holding s = [0]"
    by (simp add: server_new_def)
  then show ?thesis using connections_bounded [OF s] by simp
qed

text \<open>C36. After the loop has ended the agent is gone within the drain time-out and one late poll, whatever
  the threads do. The two numbers it reports add up to all connections it ever served, not only those
  in flight at the shutdown: no handle is dropped before. A thread that has finished by the deadline
  is never reported abandoned.\<close>

theorem drain_bounded:
  assumes "server_run config events finished late now = Some (report, now')"
    and "\<And>t. late t \<le> most"
    and "\<And>handle t t'. finished handle t \<Longrightarrow> t \<le> t' \<Longrightarrow> finished handle t'"
  shows "now' \<le> now + cfg_drain_timeout config + 20 * 10 ^ 6 + most \<and>
    sr_drained report + sr_abandoned report = count_list events (ThreadSpawned True) \<and>
    sr_abandoned report \<le>
      card {h. h < count_list events (ThreadSpawned True) \<and> \<not> finished h (now + cfg_drain_timeout config)}"
proof -
  obtain s where s: "server_steps (cfg_max_connections config) events server_new = Some s"
    and drain: "drain finished late (sv_threads s) (cfg_drain_timeout config) now = (report, now')"
    using assms(1) by (auto simp: server_run_def split: option.splits if_splits)
  have n: "length (sv_threads s) = count_list events (ThreadSpawned True)"
    using server_steps_threads [OF s] by (simp add: server_new_def)
  have threads: "sv_threads s = [0 ..< length (sv_threads s)]"
    using server_steps_ok [OF s server_ok_new] by (simp add: server_ok_def)
  let ?late = "\<lambda>h. \<not> finished h (now + cfg_drain_timeout config)"
  have "length (filter ?late (sv_threads s)) = card {h. h < length (sv_threads s) \<and> ?late h}"
    by (subst threads, subst distinct_card [symmetric]) (auto intro: arg_cong [of _ _ card])
  moreover have "let (report', now') = drain_loop finished late (now + cfg_drain_timeout config) (sv_threads s)
        \<lparr>sr_drained = 0, sr_abandoned = 0\<rparr> now
    in sr_drained report' + sr_abandoned report' = 0 + 0 + length (sv_threads s) \<and>
       sr_abandoned report' \<le> 0 + length (filter ?late (sv_threads s)) \<and>
       now' \<le> max now (now + cfg_drain_timeout config + DRAIN_POLL + most)"
    using drain_loop_report [of late most finished "now + cfg_drain_timeout config" "sv_threads s"
        "\<lparr>sr_drained = 0, sr_abandoned = 0\<rparr>" now] assms(2,3) by simp
  ultimately show ?thesis
    using drain n by (simp add: drain_def DRAIN_POLL_def)
qed

lemma drain_bounded_witness:
  "\<exists>report now'. server_run (agent_config_new [] 0)
      [Incoming True, CapacityChecked, SlotReserved, ThreadSpawned True, ShutdownCalled, Incoming True]
      (\<lambda>_ t. 5 \<le> t) (\<lambda>_. 0) 7 = Some (report, now') \<and> sr_drained report + sr_abandoned report = 1"
proof -
  have "\<exists>report now'. server_run (agent_config_new [] 0)
      [Incoming True, CapacityChecked, SlotReserved, ThreadSpawned True, ShutdownCalled, Incoming True]
      (\<lambda>_ t. 5 \<le> t) (\<lambda>_. 0) 7 = Some (report, now')"
    by (simp add: server_run_def server_new_def shutdown_def agent_config_new_def DEFAULT_MAX_CONNECTIONS_def
        drain_def drain_one.simps [of _ _ _ 7])
  then obtain report now' where run: "server_run (agent_config_new [] 0)
      [Incoming True, CapacityChecked, SlotReserved, ThreadSpawned True, ShutdownCalled, Incoming True]
      (\<lambda>_ t. 5 \<le> t) (\<lambda>_. 0) 7 = Some (report, now')" by blast
  from drain_bounded [OF run, of 0] run show ?thesis by auto
qed

text \<open>An agent on the small host that ends removes the path of its socket, also when it could not install
  its signal handlers.\<close>

lemma daemon_leaves_no_path:
  assumes "daemon_run (host_ops euid) config install serve h = (r, h')"
    and "\<And>socket g. h_nodes (snd (serve socket g)) = h_nodes g"
    and "bound_socket_bind (host_ops euid) config h = (Inr socket, h1)"
  shows "h_nodes h' (cfg_socket_path config) = None"
proof -
  have socket: "bs_path socket = cfg_socket_path config"
    and bound: "\<exists>l. h_nodes h1 (cfg_socket_path config) = Some (NodeSocket l (cfg_socket_mode config) euid)"
    using bind_Inr [OF assms(3)] by auto
  have drop: "h_nodes (bound_socket_drop (host_ops euid) socket g) (cfg_socket_path config) = None"
    if "h_nodes g = h_nodes h1" for g
    using bound by (auto simp: bound_socket_drop_def socket that)
  show ?thesis
    using assms(1,3) drop assms(2) by (auto simp: daemon_run_def split: sum.splits prod.splits) (metis snd_conv)
qed

end
