(* ===== verification/Eltanin_Connection.thy ===== *)
theory Eltanin_Connection
  imports Eltanin_Authz
begin

text \<open>
  Models \<open>crates/eltanin-agent/src/connection.rs\<close> (one connection: derive the peer, read one
  frame, decode, dispatch, answer), the dispatch seam of \<open>handler.rs\<close> as the locale
  \<open>request_handler\<close>, and the client side of the exchange, \<open>crates/eltanin-cli/src/client.rs\<close>.
  A socket is what successive reads on it find: chunks of bytes, interruptions, failures (a
  time-out included); an empty chunk, or no event left, is the end of the stream. Writes are the
  bytes written; the sources ignore a failed write on the server side.
\<close>

section \<open>Reading from a socket\<close>

datatype read_event =
    Chunk "u8 list"
  | Interrupted
  | ReadFails string

datatype read_outcome =
    ReadComplete "u8 list"
  | ReadEof
  | ReadPartial
  | ReadError string

text \<open>The loop of \<open>read_full\<close> on a buffer of \<open>n\<close> bytes of which \<open>acc\<close> has been filled. A read takes at
  most the room left; what it leaves of a chunk is found by the next read.\<close>

function read_full :: "nat \<Rightarrow> u8 list \<Rightarrow> read_event list \<Rightarrow> read_outcome \<times> read_event list" where
  "read_full n acc events =
     (if n \<le> length acc then (ReadComplete acc, events)
      else case events of
        [] \<Rightarrow> (if acc = [] then ReadEof else ReadPartial, [])
      | Chunk bytes # rest \<Rightarrow>
          if bytes = [] then (if acc = [] then ReadEof else ReadPartial, rest)
          else if length bytes \<le> n - length acc then read_full n (acc @ bytes) rest
          else read_full n (acc @ take (n - length acc) bytes)
                 (Chunk (drop (n - length acc) bytes) # rest)
      | Interrupted # rest \<Rightarrow> read_full n acc rest
      | ReadFails e # rest \<Rightarrow> (ReadError e, rest))"
  by pat_completeness auto

termination
  by (relation "measures [\<lambda>(n, acc, _). n - length acc, \<lambda>(_, _, events). length events]") auto

declare read_full.simps [simp del]

datatype frame_read = FrameEof | FrameFailed | FrameOversized | FrameOk "u8 list"

definition read_frame :: "read_event list \<Rightarrow> frame_read \<times> read_event list" where
  "read_frame events =
     (case read_full 4 [] events of
        (ReadEof, rest) \<Rightarrow> (FrameEof, rest)
      | (ReadPartial, rest) \<Rightarrow> (FrameFailed, rest)
      | (ReadError _, rest) \<Rightarrow> (FrameFailed, rest)
      | (ReadComplete header, rest) \<Rightarrow>
          (case decode_frame_len header of
             Inl (Oversized _ _) \<Rightarrow> (FrameOversized, rest)
           | Inr len \<Rightarrow>
               (case read_full len [] rest of
                  (ReadComplete body, rest') \<Rightarrow> (FrameOk body, rest')
                | (_, rest') \<Rightarrow> (FrameFailed, rest'))))"

section \<open>Serving a connection\<close>

text \<open>The bytes \<open>send\<close> writes; no bytes only if even the bare fallback does not fit, where the code
  panics.\<close>

definition send :: "serde_json \<Rightarrow> request_id option \<Rightarrow> agent_response \<Rightarrow> u8 list option" where
  "send sj rid body =
     (case encode_response sj (versioned_current \<lparr>rsb_request_id = rid, rsb_body = body\<rparr>) of
        Inr framed \<Rightarrow> Some framed
      | Inl _ \<Rightarrow>
          result_ok (encode_response sj
            (versioned_current \<lparr>rsb_request_id = rid, rsb_body = RespError Internal\<rparr>)))"

definition send_failure :: "serde_json \<Rightarrow> request_id option \<Rightarrow> error_code \<Rightarrow> u8 list option" where
  "send_failure sj rid code = send sj rid (RespError code)"

text \<open>The arguments that stand for the outside: whether the time-outs could be set, the peer derived
  from the socket, and the events read from it. The handler returns no response when it panics,
  which is caught. The result is what is written to the socket and the handler's state.\<close>

definition serve_connection ::
  "serde_json \<Rightarrow> bool \<Rightarrow> (peer_credential_error, peer_context) result \<Rightarrow> read_event list \<Rightarrow>
     ('s \<Rightarrow> client_request \<Rightarrow> peer_context \<Rightarrow> agent_response option \<times> 's) \<Rightarrow> 's \<Rightarrow>
     u8 list option \<times> 's" where
  "serve_connection sj timeouts_set derived events handler s =
     (if \<not> timeouts_set then (None, s)
      else case derived of
        Inl _ \<Rightarrow> (send_failure sj None Internal, s)
      | Inr peer \<Rightarrow>
          (case fst (read_frame events) of
             FrameEof \<Rightarrow> (None, s)
           | FrameFailed \<Rightarrow> (send_failure sj None MalformedRequest, s)
           | FrameOversized \<Rightarrow> (send_failure sj None CodeOversized, s)
           | FrameOk body \<Rightarrow>
               (case decode_request sj body of
                  Inl (Version v) \<Rightarrow>
                    (send_failure sj (peek_request_id sj body)
                       (CodeUnsupportedVersion (uv_found v) (uv_expected v)), s)
                | Inl Malformed \<Rightarrow> (send_failure sj (peek_request_id sj body) MalformedRequest, s)
                | Inl (Framing (Oversized _ _)) \<Rightarrow>
                    (send_failure sj (peek_request_id sj body) CodeOversized, s)
                | Inr request \<Rightarrow>
                    (let rid = rqb_request_id (v_payload request);
                         (answer, s') = handler s (rqb_body (v_payload request)) peer;
                         response = (case answer of Some r \<Rightarrow> r | None \<Rightarrow> RespError Internal)
                     in (send sj (Some rid) response, s')))))"

section \<open>The client's exchange\<close>

datatype client_error =
    SocketPathNotUtf8
  | Connect string string
  | ClientIo string
  | ClientProtocol string
  | RequestIdMismatch request_id "request_id option"

definition framing_error_text :: "framing_error \<Rightarrow> string" where
  "framing_error_text e =
     (case e of Oversized len m \<Rightarrow>
        ''frame length '' @ dec_of_nat len @ '' exceeds the maximum '' @ dec_of_nat m)"

definition protocol_error_text :: "protocol_error \<Rightarrow> string" where
  "protocol_error_text e =
     (case e of
        Framing f \<Rightarrow> framing_error_text f
      | Malformed \<Rightarrow> ''request body is malformed or unrecognized''
      | Version v \<Rightarrow>
          ''unsupported domain schema version: found '' @ dec_of_nat (unat (uv_found v)) @
          '', expected '' @ dec_of_nat (unat (uv_expected v)))"

text \<open>\<open>Read::read_exact\<close>: it retries interruptions and fails at the end of the stream.\<close>

definition read_exact ::
  "nat \<Rightarrow> read_event list \<Rightarrow> (client_error, u8 list) result \<times> read_event list" where
  "read_exact n events =
     (case read_full n [] events of
        (ReadComplete bytes, rest) \<Rightarrow> (Inr bytes, rest)
      | (ReadError e, rest) \<Rightarrow> (Inl (ClientIo e), rest)
      | (_, rest) \<Rightarrow> (Inl (ClientIo ''failed to fill whole buffer''), rest))"

text \<open>\<open>DEFAULT_SOCKET_PATH\<close> on the two builds, and \<open>AgentClient::from_env\<close> on the value of the
  environment variable, whose conversion to UTF-8 may fail.\<close>

definition default_socket_path :: "bool \<Rightarrow> string" where
  "default_socket_path macos =
     (if macos then ''/var/run/eltanin/agent.sock'' else ''/run/eltanin/agent.sock'')"

definition client_from_env ::
  "bool \<Rightarrow> ('os \<Rightarrow> string option) \<Rightarrow> 'os option \<Rightarrow> (client_error, string) result" where
  "client_from_env macos into_string variable =
     (case variable of
        None \<Rightarrow> Inr (default_socket_path macos)
      | Some os \<Rightarrow> ok_or SocketPathNotUtf8 (into_string os))"

text \<open>The process-wide request counter is threaded through; it wraps, as \<open>fetch_add\<close> does. The
  connection is the result of connecting, setting the time-outs and writing the frame: what the
  client then reads, or an error.\<close>

definition next_request_id :: "u64 \<Rightarrow> request_id \<times> u64" where
  "next_request_id counter = (counter, counter + 1)"

definition client_request_envelope :: "request_id \<Rightarrow> client_request \<Rightarrow> wire_request" where
  "client_request_envelope rid request =
     versioned_current \<lparr>rqb_request_id = rid, rqb_body = request\<rparr>"

definition client_read ::
  "serde_json \<Rightarrow> request_id \<Rightarrow> read_event list \<Rightarrow>
     (client_error, agent_response) result" where
  "client_read sj rid events =
     (case read_exact 4 events of
        (Inl e, _) \<Rightarrow> Inl e
      | (Inr header, rest) \<Rightarrow>
          (case decode_frame_len header of
             Inl e \<Rightarrow> Inl (ClientProtocol (framing_error_text e))
           | Inr len \<Rightarrow>
               (case read_exact len rest of
                  (Inl e, _) \<Rightarrow> Inl e
                | (Inr body, _) \<Rightarrow>
                    (case decode_response sj body of
                       Inl e \<Rightarrow> Inl (ClientProtocol (protocol_error_text e))
                     | Inr response \<Rightarrow>
                         if rsb_request_id (v_payload response) \<noteq> Some rid
                         then Inl (RequestIdMismatch rid (rsb_request_id (v_payload response)))
                         else Inr (rsb_body (v_payload response))))))"

definition exchange ::
  "serde_json \<Rightarrow> (u8 list \<Rightarrow> (client_error, read_event list) result) \<Rightarrow>
     u64 \<Rightarrow> client_request \<Rightarrow> (client_error, agent_response) result \<times> u64" where
  "exchange sj connection counter request =
     (let (rid, counter') = next_request_id counter
      in (case encode_request sj (client_request_envelope rid request) of
            Inl e \<Rightarrow> Inl (ClientProtocol (framing_error_text e))
          | Inr framed \<Rightarrow>
              (case connection framed of
                 Inl e \<Rightarrow> Inl e
               | Inr events \<Rightarrow> client_read sj rid events),
          counter'))"

section \<open>What a sequence of reads amounts to\<close>

text \<open>The bytes up to the first end or failure, and which of the two it is.\<close>

fun stream_bytes :: "read_event list \<Rightarrow> u8 list" where
  "stream_bytes [] = []"
| "stream_bytes (Chunk bytes # rest) = (if bytes = [] then [] else bytes @ stream_bytes rest)"
| "stream_bytes (Interrupted # rest) = stream_bytes rest"
| "stream_bytes (ReadFails _ # _) = []"

fun stream_failure :: "read_event list \<Rightarrow> string option" where
  "stream_failure [] = None"
| "stream_failure (Chunk bytes # rest) = (if bytes = [] then None else stream_failure rest)"
| "stream_failure (Interrupted # rest) = stream_failure rest"
| "stream_failure (ReadFails e # _) = Some e"

definition read_spec :: "nat \<Rightarrow> u8 list \<Rightarrow> u8 list \<Rightarrow> string option \<Rightarrow> read_outcome" where
  "read_spec n acc bytes failure =
     (if n \<le> length acc + length bytes then ReadComplete (acc @ take (n - length acc) bytes)
      else case failure of
        Some e \<Rightarrow> ReadError e
      | None \<Rightarrow> if acc @ bytes = [] then ReadEof else ReadPartial)"

lemma read_full_done: "n \<le> length acc \<Longrightarrow> read_full n acc events = (ReadComplete acc, events)"
  by (subst read_full.simps) simp

lemma read_full_step:
  assumes "length acc < n"
  shows "read_full n acc [] = (if acc = [] then ReadEof else ReadPartial, [])"
    and "read_full n acc (Chunk [] # rest) = (if acc = [] then ReadEof else ReadPartial, rest)"
    and "bytes \<noteq> [] \<Longrightarrow> length bytes \<le> n - length acc \<Longrightarrow>
      read_full n acc (Chunk bytes # rest) = read_full n (acc @ bytes) rest"
    and "bytes \<noteq> [] \<Longrightarrow> n - length acc < length bytes \<Longrightarrow>
      read_full n acc (Chunk bytes # rest) =
        (ReadComplete (acc @ take (n - length acc) bytes), Chunk (drop (n - length acc) bytes) # rest)"
    and "read_full n acc (Interrupted # rest) = read_full n acc rest"
    and "read_full n acc (ReadFails e # rest) = (ReadError e, rest)"
  using assms by (subst read_full.simps, simp add: read_full_done)+

lemma read_full_spec:
  "length acc \<le> n \<Longrightarrow>
     fst (read_full n acc events) = read_spec n acc (stream_bytes events) (stream_failure events) \<and>
     (n \<le> length acc + length (stream_bytes events) \<longrightarrow>
        stream_bytes (snd (read_full n acc events)) = drop (n - length acc) (stream_bytes events) \<and>
        stream_failure (snd (read_full n acc events)) = stream_failure events)"
proof (induction events arbitrary: acc)
  case (Cons ev rest)
  show ?case
  proof (cases "length acc < n")
    case True
    show ?thesis
    proof (cases ev)
      case (Chunk bytes)
      consider "bytes = []" | "bytes \<noteq> []" "length bytes \<le> n - length acc" |
        "bytes \<noteq> []" "n - length acc < length bytes" by fastforce
      then show ?thesis
      proof cases
        case 2
        then show ?thesis
          using Cons.IH [of "acc @ bytes"] True Chunk
          by (auto simp: read_full_step read_spec_def split: option.splits)
      qed (use True Chunk in \<open>auto simp: read_full_step read_spec_def split: option.splits\<close>)
    qed (use True Cons in \<open>auto simp: read_full_step read_spec_def\<close>)
  qed (use Cons.prems in \<open>simp add: read_full_done read_spec_def\<close>)
next
  case Nil
  then show ?case
    by (cases "length acc < n") (simp_all add: read_full_step read_full_done read_spec_def)
qed

text \<open>What a frame read gives, on the bytes and the end of the stream alone.\<close>

definition frame_spec :: "u8 list \<Rightarrow> string option \<Rightarrow> frame_read" where
  "frame_spec bytes failure =
     (if length bytes < 4 then (if bytes = [] \<and> failure = None then FrameEof else FrameFailed)
      else case decode_frame_len (take 4 bytes) of
        Inl _ \<Rightarrow> FrameOversized
      | Inr len \<Rightarrow>
          if len \<le> length bytes - 4 then FrameOk (take len (drop 4 bytes)) else FrameFailed)"

lemma read_full_fst:
  "fst (read_full n [] events) = read_spec n [] (stream_bytes events) (stream_failure events)"
  using read_full_spec [of "[]" n events] by simp

lemma read_full_rest:
  "n \<le> length (stream_bytes events) \<Longrightarrow>
     stream_bytes (snd (read_full n [] events)) = drop n (stream_bytes events) \<and>
     stream_failure (snd (read_full n [] events)) = stream_failure events"
  using read_full_spec [of "[]" n events] by simp

lemma read_frame_spec: "fst (read_frame events) = frame_spec (stream_bytes events) (stream_failure events)"
proof (cases "length (stream_bytes events) < 4")
  case True
  then show ?thesis
    using read_full_fst [of 4 events]
    by (cases "read_full 4 [] events")
       (auto simp: read_frame_def frame_spec_def read_spec_def split: option.splits)
next
  case False
  let ?bytes = "stream_bytes events"
  obtain rest where r: "read_full 4 [] events = (ReadComplete (take 4 ?bytes), rest)"
    using read_full_fst [of 4 events] False
    by (cases "read_full 4 [] events") (auto simp: read_spec_def)
  have rest: "stream_bytes rest = drop 4 ?bytes" "stream_failure rest = stream_failure events"
    using read_full_rest [of 4 events] False r by simp_all
  show ?thesis
  proof (cases "decode_frame_len (take 4 ?bytes)")
    case (Inl e)
    then show ?thesis using False by (cases e) (simp add: read_frame_def r frame_spec_def)
  next
    case (Inr len)
    then show ?thesis
      using False read_full_fst [of len rest]
      by (cases "read_full len [] rest")
         (auto simp: read_frame_def r frame_spec_def rest read_spec_def split: option.splits if_splits)
  qed
qed

lemma read_exact_spec:
  "fst (read_exact n events) =
     (if n \<le> length (stream_bytes events) then Inr (take n (stream_bytes events))
      else Inl (ClientIo (case stream_failure events of
             Some e \<Rightarrow> e | None \<Rightarrow> ''failed to fill whole buffer'')))"
  using read_full_fst [of n events]
  by (cases "read_full n [] events") (auto simp: read_exact_def read_spec_def split: option.splits)

lemma read_exact_rest:
  "n \<le> length (stream_bytes events) \<Longrightarrow>
     stream_bytes (snd (read_exact n events)) = drop n (stream_bytes events) \<and>
     stream_failure (snd (read_exact n events)) = stream_failure events"
  using read_full_rest [of n events] read_full_fst [of n events]
  by (cases "read_full n [] events") (auto simp: read_exact_def read_spec_def)

lemma client_read_stream:
  assumes "stream_bytes events = stream_bytes events'" and "stream_failure events = stream_failure events'"
  shows "client_read sj rid events = client_read sj rid events'"
proof -
  have first: "fst (read_exact 4 events) = fst (read_exact 4 events')"
    by (simp add: read_exact_spec assms)
  obtain r rest r' rest' where r: "read_exact 4 events = (r, rest)" "read_exact 4 events' = (r', rest')"
    by fastforce
  have second: "fst (read_exact n rest) = fst (read_exact n rest')" if "r = Inr header" for n header
  proof -
    have "4 \<le> length (stream_bytes events)"
      using that r(1) read_exact_spec [of 4 events] by (auto split: if_splits)
    then show ?thesis
      using read_exact_rest [of 4 events] read_exact_rest [of 4 events'] r assms
      by (simp add: read_exact_spec)
  qed
  show ?thesis
  proof (cases r)
    case (Inr header)
    have "r' = r" using first r by simp
    have "(case read_exact len rest of (Inl e, _) \<Rightarrow> Inl e | (Inr body, _) \<Rightarrow> f body) =
        (case read_exact len rest' of (Inl e, _) \<Rightarrow> Inl e | (Inr body, _) \<Rightarrow> f body)" 
      for len and f :: "u8 list \<Rightarrow> (client_error, agent_response) result"
      using second [OF Inr, of len] by (simp add: case_prod_beta split: sum.split)
    then show ?thesis
      using \<open>r' = r\<close> by (simp add: client_read_def r Inr split: sum.split)
  next
    case (Inl e)
    then have "r' = Inl e" using first r by simp
    then show ?thesis by (simp add: client_read_def r Inl)
  qed
qed

lemma frame_spec_encoded:
  "encode_frame p = Inr f \<Longrightarrow> frame_spec (f @ extra) failure = FrameOk p"
  by (auto simp: encode_frame_Inr frame_spec_def decode_frame_len_header)

lemma client_read_encoded:
  assumes "encode_frame p = Inr f" and "stream_bytes events = f @ extra"
  shows "client_read sj rid events =
    (case decode_response sj p of
       Inl e \<Rightarrow> Inl (ClientProtocol (protocol_error_text e))
     | Inr response \<Rightarrow>
         if rsb_request_id (v_payload response) \<noteq> Some rid
         then Inl (RequestIdMismatch rid (rsb_request_id (v_payload response)))
         else Inr (rsb_body (v_payload response)))"
proof -
  have f: "length p \<le> MAX_FRAME_BYTES" "f = u32_to_be_bytes (of_nat (length p)) @ p"
    using assms(1) by (auto simp: encode_frame_Inr)
  obtain rest where r: "read_exact 4 events = (Inr (u32_to_be_bytes (of_nat (length p))), rest)"
    using read_exact_spec [of 4 events] assms(2) f(2) by (cases "read_exact 4 events") auto
  have "stream_bytes rest = p @ extra"
    using read_exact_rest [of 4 events] assms(2) f(2) r by simp
  then obtain rest' where "read_exact (length p) rest = (Inr p, rest')"
    using read_exact_spec [of "length p" rest] by (cases "read_exact (length p) rest") auto
  then show ?thesis
    by (simp add: client_read_def r decode_frame_len_header [OF f(1)])
qed

section \<open>The request handler interface\<close>

text \<open>What a connection relies on: the handler keeps its own invariant, answers a status request
  genuinely and without effect, and never gives anything to a peer whose context is not released
  for authorization.\<close>

locale request_handler =
  fixes handler_ok :: "'s \<Rightarrow> bool"
    and serve :: "'s \<Rightarrow> client_request \<Rightarrow> peer_context \<Rightarrow> agent_response \<times> 's"
  assumes keeps_ok: "handler_ok s \<Longrightarrow> handler_ok (snd (serve s request peer))"
    and status_genuine:
      "serve s AgentStatus peer = (RespStatus \<lparr>asv_protocol_version = DOMAIN_SCHEMA_VERSION\<rparr>, s)"
    and unreleased_gets_nothing:
      "authorizable peer = None \<Longrightarrow>
         fst (serve s request peer) \<notin> range LeaseGranted \<union> {LeaseReleased Released}"
begin

lemma served_keeps_ok:
  "handler_ok s \<Longrightarrow>
     handler_ok (snd (serve_connection sj t derived events (\<lambda>s r p. map_prod Some id (serve s r p)) s))"
  by (auto simp: serve_connection_def Let_def split_beta keeps_ok
      split: sum.splits frame_read.splits protocol_error.splits framing_error.splits)

lemma served_unreleased:
  assumes "authorizable peer = None"
    and "fst (serve_connection sj t (Inr peer) events (\<lambda>s r p. map_prod Some id (serve s r p)) s) = Some bytes"
  shows "\<exists>rid response. send sj rid response = Some bytes \<and>
    response \<notin> range LeaseGranted \<union> {LeaseReleased Released}"
proof -
  have send_failure: "send_failure sj rid code = Some bytes \<Longrightarrow> ?thesis" for rid code
    unfolding send_failure_def by (intro exI [of _ rid] exI [of _ "RespError code"]) auto
  have handled: "send sj rid (fst (serve s request peer)) = Some bytes \<Longrightarrow> ?thesis" for rid request
    using unreleased_gets_nothing [OF assms(1), of s request] by blast
  show ?thesis
    using assms(2) send_failure handled
    by (auto simp: serve_connection_def Let_def split_beta
        split: if_splits sum.splits frame_read.splits protocol_error.splits framing_error.splits)
qed

end

text \<open>The two handlers of the crate, the clock readings of the authorization handler fixed.\<close>

definition authorization_serve ::
  "authorization_handler \<Rightarrow> 'b backend_ops \<Rightarrow> monotonic_time \<Rightarrow> monotonic_time \<Rightarrow>
     lease_state \<times> 'b \<Rightarrow> client_request \<Rightarrow> peer_context \<Rightarrow> agent_response \<times> lease_state \<times> 'b" where
  "authorization_serve h ops now reply_now st request peer =
     (case handle h ops now reply_now request peer st of (response, event, st') \<Rightarrow> (response, st'))"

definition status_only_serve :: "unit \<Rightarrow> client_request \<Rightarrow> peer_context \<Rightarrow> agent_response \<times> unit" where
  "status_only_serve s request peer = (status_only_handle request peer, ())"

lemma authorization_serve_simps:
  "fst (authorization_serve h ops now reply_now st request peer) =
     fst (handle h ops now reply_now request peer st)"
  "snd (authorization_serve h ops now reply_now st request peer) =
     snd (snd (handle h ops now reply_now request peer st))"
  by (simp_all add: authorization_serve_def split_beta)

interpretation status_only: request_handler "\<lambda>_. True" status_only_serve
  by unfold_locales (auto simp: status_only_serve_def status_only_handle_def split: client_request.splits)

interpretation authorization: request_handler
  "\<lambda>st. \<forall>(k, l)\<in>set (ls_leases (fst st)). lease_justified h l" "authorization_serve h ops now reply_now"
  for h ops now reply_now
proof unfold_locales
  fix st request peer
  show "\<forall>(k, l)\<in>set (ls_leases (fst st)). lease_justified h l \<Longrightarrow>
      \<forall>(k, l)\<in>set (ls_leases (fst (snd (authorization_serve h ops now reply_now st request peer)))).
        lease_justified h l"
    by (auto simp: authorization_serve_simps dest!: handle_leases)
  show "authorization_serve h ops now reply_now st AgentStatus peer =
      (RespStatus \<lparr>asv_protocol_version = DOMAIN_SCHEMA_VERSION\<rparr>, st)"
    by (rule prod_eqI) (simp_all add: authorization_serve_simps handle_response handle_state)
  show "authorizable peer = None \<Longrightarrow>
      fst (authorization_serve h ops now reply_now st request peer)
        \<notin> range LeaseGranted \<union> {LeaseReleased Released}"
    by (auto simp: authorization_serve_simps handle_response handle_request_lease_def
        handle_release_lease_def split: client_request.splits)
qed

section \<open>Concrete inputs\<close>

definition demo_status_response :: wire_response where
  "demo_status_response = versioned_current
     \<lparr>rsb_request_id = Some 9, rsb_body = RespStatus \<lparr>asv_protocol_version = DOMAIN_SCHEMA_VERSION\<rparr>\<rparr>"

definition demo_error_response :: wire_response where
  "demo_error_response = versioned_current
     \<lparr>rsb_request_id = None, rsb_body = RespError MalformedRequest\<rparr>"

definition demo_status_request :: wire_request where
  "demo_status_request = client_request_envelope 9 AgentStatus"

text \<open>A JSON library that knows these three messages.\<close>

definition demo_json :: serde_json where
  "demo_json =
     \<lparr>sj_version = (\<lambda>b. if b \<in> {[1], [2], [3]} then Some DOMAIN_SCHEMA_VERSION else None),
      sj_request_id = (\<lambda>b. if b = [1] then Some 9 else None),
      sj_request_to_vec = (\<lambda>_. [1]),
      sj_request_from_slice = (\<lambda>b. if b = [1] then Some demo_status_request else None),
      sj_response_to_vec = (\<lambda>r. if r = demo_status_response then [2] else [3]),
      sj_response_from_slice =
        (\<lambda>b. if b = [2] then Some demo_status_response
             else if b = [3] then Some demo_error_response else None)\<rparr>"

lemma demo_json_faithful:
  "request_faithful demo_json demo_status_request" "response_faithful demo_json demo_status_response"
  "response_faithful demo_json demo_error_response"
  by (simp_all add: request_faithful_def response_faithful_def demo_json_def demo_status_request_def
      client_request_envelope_def demo_status_response_def demo_error_response_def versioned_current_def)

lemma demo_json_frames:
  "encode_request demo_json demo_status_request = Inr [0, 0, 0, 1, 1]"
  "encode_response demo_json demo_status_response = Inr [0, 0, 0, 1, 2]"
  "encode_response demo_json demo_error_response = Inr [0, 0, 0, 1, 3]"
  by (simp_all add: encode_request_def encode_response_def encode_frame_def MAX_FRAME_BYTES_def
      u32_to_be_bytes_def demo_json_def demo_error_response_def demo_status_response_def
      versioned_current_def)

text \<open>A JSON library that knows the three early errors.\<close>

definition demo_error_envelope :: "error_code \<Rightarrow> wire_response" where
  "demo_error_envelope code = versioned_current \<lparr>rsb_request_id = None, rsb_body = RespError code\<rparr>"

definition demo_error_json :: serde_json where
  "demo_error_json = demo_json
     \<lparr>sj_version := (\<lambda>b. Some DOMAIN_SCHEMA_VERSION),
      sj_response_to_vec := (\<lambda>r. if r = demo_error_envelope Internal then [4]
         else if r = demo_error_envelope MalformedRequest then [5] else [6]),
      sj_response_from_slice := (\<lambda>b.
         if b = [4] then Some (demo_error_envelope Internal)
         else if b = [5] then Some (demo_error_envelope MalformedRequest)
         else Some (demo_error_envelope CodeOversized))\<rparr>"

section \<open>Properties\<close>

text \<open>C11. A request reaches the handler and its answer reaches the client, whatever way the two
  streams are cut into reads and interrupted: if the client's frame arrives at the server in any
  fragments, the server hands the decoded request to the handler once, with the derived peer, and
  writes one frame; and if that frame arrives back in any fragments, the client's exchange returns
  exactly the handler's response.\<close>

theorem exchange_end_to_end:
  assumes "request_faithful sj (client_request_envelope rid request)"
    and "encode_request sj (client_request_envelope rid request) = Inr frq"
    and "handler s request peer = (Some response, s')"
    and "response_faithful sj (versioned_current \<lparr>rsb_request_id = Some rid, rsb_body = response\<rparr>)"
    and "encode_response sj (versioned_current \<lparr>rsb_request_id = Some rid, rsb_body = response\<rparr>) = Inr frs"
    and "stream_bytes events = frq @ extra" and "stream_bytes received = frs @ extra'"
  shows "serve_connection sj True (Inr peer) events handler s = (Some frs, s') \<and>
    exchange sj (\<lambda>framed. if framed = frq then Inr received else Inl e) rid request = (Inr response, rid + 1)"
proof
  let ?rq = "client_request_envelope rid request"
  let ?rs = "versioned_current \<lparr>rsb_request_id = Some rid, rsb_body = response\<rparr>"
  have rq: "encode_frame (sj_request_to_vec sj ?rq) = Inr frq"
    and rs: "encode_frame (sj_response_to_vec sj ?rs) = Inr frs"
    using assms(2,5) by (simp_all add: encode_request_def encode_response_def)
  have "decode_request sj (sj_request_to_vec sj ?rq) = Inr ?rq"
    using rq by (intro decode_request_faithful [OF assms(1)])
      (auto simp: encode_frame_Inr client_request_envelope_def versioned_current_def)
  moreover have "fst (read_frame events) = FrameOk (sj_request_to_vec sj ?rq)"
    by (simp add: read_frame_spec assms(6) frame_spec_encoded [OF rq])
  ultimately show "serve_connection sj True (Inr peer) events handler s = (Some frs, s')"
    using assms(3,5)
    by (simp add: serve_connection_def send_def client_request_envelope_def versioned_current_def)
  have "decode_response sj (sj_response_to_vec sj ?rs) = Inr ?rs"
    using rs by (intro decode_response_faithful [OF assms(4)])
      (auto simp: encode_frame_Inr versioned_current_def)
  then show "exchange sj (\<lambda>framed. if framed = frq then Inr received else Inl e) rid request =
      (Inr response, rid + 1)"
    using assms(2) client_read_encoded [OF rs assms(7)]
    by (simp add: exchange_def next_request_id_def versioned_current_def)
qed

lemma exchange_end_to_end_witness:
  "serve_connection demo_json True (Inr demo_peer)
     [Chunk [0, 0], Interrupted, Chunk [0, 1, 1]] (\<lambda>s r p. map_prod Some id (status_only_serve s r p)) () =
   (Some [0, 0, 0, 1, 2], ())"
proof -
  have "request_faithful demo_json (client_request_envelope 9 AgentStatus)"
    and "encode_request demo_json (client_request_envelope 9 AgentStatus) = Inr [0, 0, 0, 1, 1]"
    using demo_json_faithful demo_json_frames by (simp_all add: demo_status_request_def)
  moreover have "(\<lambda>s r p. map_prod Some id (status_only_serve s r p)) () AgentStatus demo_peer =
      (Some (RespStatus \<lparr>asv_protocol_version = DOMAIN_SCHEMA_VERSION\<rparr>), ())"
    by (simp add: status_only.status_genuine)
  moreover note demo_json_faithful(2) [unfolded demo_status_response_def]
    and demo_json_frames(2) [unfolded demo_status_response_def]
  ultimately show ?thesis
    by (rule exchange_end_to_end [where extra = "[]" and extra' = "[]" and
          received = "[Chunk [0, 0, 0, 1, 2]]", THEN conjunct1]) simp_all
qed

text \<open>A peer whose context is not released for authorization gets nothing over the wire: whatever
  bytes it sends, in whatever fragments, a connection to the authorization handler answers it with
  neither a grant nor a confirmed release.\<close>

theorem unreleased_peer_gets_nothing_on_the_wire:
  assumes "authorizable peer = None"
    and "fst (serve_connection sj t (Inr peer) events
           (\<lambda>s r p. map_prod Some id (authorization_serve h ops now reply_now s r p)) st) = Some bytes"
  shows "\<exists>rid response. send sj rid response = Some bytes \<and>
    response \<notin> range LeaseGranted \<union> {LeaseReleased Released}"
  using assms by (rule authorization.served_unreleased)

lemma unreleased_peer_gets_nothing_on_the_wire_witness:
  "\<exists>rid response. send demo_json rid response = Some [0, 0, 0, 1, 2] \<and>
     response \<notin> range LeaseGranted \<union> {LeaseReleased Released}"
proof (rule unreleased_peer_gets_nothing_on_the_wire)
  let ?peer = "peer_unmapped (from_kernel 42 1000 1000) demo_context"
  show "authorizable ?peer = None" by simp
  have "request_faithful demo_json (client_request_envelope 9 AgentStatus)"
    and "encode_request demo_json (client_request_envelope 9 AgentStatus) = Inr [0, 0, 0, 1, 1]"
    using demo_json_faithful demo_json_frames by (simp_all add: demo_status_request_def)
  then have "decode_request demo_json [1] = Inr demo_status_request"
    by (simp add: decode_request_def demo_json_def peek_version_def MAX_FRAME_BYTES_def)
  moreover have "fst (read_frame [Chunk [0, 0, 0, 1, 1]]) = FrameOk [1]"
    by (simp add: read_frame_spec frame_spec_def decode_frame_len_def u32_from_be_bytes_def
        MAX_FRAME_BYTES_def)
  ultimately show "fst (serve_connection demo_json True (Inr ?peer) [Chunk [0, 0, 0, 1, 1]]
      (\<lambda>s r p. map_prod Some id (authorization_serve demo_handler fake_ops 100 110 s r p))
      (demo_state, demo_backend)) = Some [0, 0, 0, 1, 2]"
    using demo_json_frames(2)
    by (simp add: serve_connection_def authorization.status_genuine demo_status_request_def
        client_request_envelope_def versioned_current_def send_def demo_status_response_def)
qed

text \<open>An error the server reports before it could decode the request carries no request
  identifier, and the client then reports a mismatch of identifiers instead of the error: when the
  peer could not be derived, the frame was cut short, or its announced length was too large, the
  server's answer names no request, and the client's exchange on that answer ends in
  a request id mismatch, for every error code.\<close>

theorem early_server_error_hidden_from_client:
  assumes "(case derived of Inl _ \<Rightarrow> True
            | Inr _ \<Rightarrow> frame_spec (stream_bytes events) (stream_failure events) \<in> {FrameFailed, FrameOversized})"
    and "fst (serve_connection sj True derived events handler s) = Some frs"
    and "\<And>code. code \<in> {Internal, MalformedRequest, CodeOversized} \<Longrightarrow>
           response_faithful sj (versioned_current \<lparr>rsb_request_id = None, rsb_body = RespError code\<rparr>)"
    and "stream_bytes received = frs"
  shows "client_read sj rid received = Inl (RequestIdMismatch rid None) \<and>
    snd (serve_connection sj True derived events handler s) = s"
proof -
  obtain code where "send_failure sj None code = Some frs"
    and code: "code \<in> {Internal, MalformedRequest, CodeOversized}"
    and unchanged: "snd (serve_connection sj True derived events handler s) = s"
    using assms(1,2)
    by (auto simp: serve_connection_def read_frame_spec split: sum.splits)
  then obtain code' where code': "code' \<in> {Internal, MalformedRequest, CodeOversized}"
    and framed: "encode_response sj
      (versioned_current \<lparr>rsb_request_id = None, rsb_body = RespError code'\<rparr>) = Inr frs"
    by (auto simp: send_failure_def send_def result_ok_def split: sum.splits)
  let ?rs = "versioned_current \<lparr>rsb_request_id = None, rsb_body = RespError code'\<rparr>"
  have p: "encode_frame (sj_response_to_vec sj ?rs) = Inr frs"
    using framed by (simp add: encode_response_def)
  have "decode_response sj (sj_response_to_vec sj ?rs) = Inr ?rs"
    using p by (intro decode_response_faithful [OF assms(3) [OF code']])
      (auto simp: encode_frame_Inr versioned_current_def)
  then show ?thesis
    using client_read_encoded [OF p, of received "[]"] assms(4) unchanged by (simp add: versioned_current_def)
qed

lemma early_server_error_hidden_from_client_witness:
  "client_read demo_error_json 9 [Chunk [0, 0, 0, 1, 5]] = Inl (RequestIdMismatch 9 None)"
proof (rule early_server_error_hidden_from_client [THEN conjunct1])
  show "case Inr demo_peer of Inl _ \<Rightarrow> True
      | Inr _ \<Rightarrow> frame_spec (stream_bytes [Chunk [0, 0]]) (stream_failure [Chunk [0, 0]])
                  \<in> {FrameFailed, FrameOversized}"
    by (simp add: frame_spec_def)
  show "fst (serve_connection demo_error_json True (Inr demo_peer) [Chunk [0, 0]]
      (\<lambda>s r p. map_prod Some id (status_only_serve s r p)) ()) = Some [0, 0, 0, 1, 5]"
    by (simp add: serve_connection_def read_frame_spec frame_spec_def send_failure_def send_def
        encode_response_def encode_frame_def MAX_FRAME_BYTES_def demo_error_json_def
        demo_error_envelope_def versioned_current_def u32_to_be_bytes_def)
  show "response_faithful demo_error_json
      (versioned_current \<lparr>rsb_request_id = None, rsb_body = RespError code\<rparr>)"
    if "code \<in> {Internal, MalformedRequest, CodeOversized}" for code
    using that by (auto simp: response_faithful_def demo_error_json_def demo_error_envelope_def
        versioned_current_def)
qed simp

text \<open>C33. How the bytes of a connection are cut into reads, and where reads are interrupted, cannot be seen:
  the loops of the server and of the client give what a reading of the whole stream at once gives,
  so two streams with the same bytes before the same end are served and answered alike.\<close>

theorem chunking_is_invisible:
  assumes "stream_bytes events = stream_bytes events'" and "stream_failure events = stream_failure events'"
  shows "fst (read_frame events) = frame_spec (stream_bytes events) (stream_failure events) \<and>
    serve_connection sj timeouts_set derived events handler s =
      serve_connection sj timeouts_set derived events' handler s \<and>
    client_read sj rid events = client_read sj rid events'"
proof -
  have same: "fst (read_frame events) = fst (read_frame events')"
    by (simp add: read_frame_spec assms)
  show ?thesis
    unfolding serve_connection_def same using client_read_stream [OF assms, of sj rid] same
    by (simp add: read_frame_spec)
qed

lemma chunking_is_invisible_witness:
  "fst (read_frame [Chunk [0], Interrupted, Chunk [0, 0], Chunk [1, 7]]) = FrameOk [7]"
proof -
  let ?cut = "[Chunk [0], Interrupted, Chunk [0, 0], Chunk [1, 7]]"
  have same: "stream_bytes ?cut = stream_bytes [Chunk [0, 0, 0, 1, 7]]"
    "stream_failure ?cut = stream_failure [Chunk [0, 0, 0, 1, 7]]" by simp_all
  from chunking_is_invisible [OF same, THEN conjunct1] show ?thesis
    by (simp add: frame_spec_def decode_frame_len_def u32_from_be_bytes_def MAX_FRAME_BYTES_def Let_def)
qed

end
