(* ===== verification/Eltanin_Utf8.thy ===== *)
theory Eltanin_Utf8
  imports Eltanin_Prelude
begin

text \<open>
  UTF-8 as the standard library reads it: the next character of a byte string or the length of the
  invalid sequence there, the strict conversion (\<open>OsStr::to_str\<close>) and the lossy one
  (\<open>to_string_lossy\<close>, one replacement character for each maximal invalid sequence). A \<open>char\<close> of a
  string of this development is one byte; a character of Rust is its code point, a \<open>nat\<close>.
\<close>

definition byte_at :: "string \<Rightarrow> nat \<Rightarrow> nat" where
  "byte_at s i = (if i < length s then of_char (s ! i) else 0)"

definition utf8_continuation :: "nat \<Rightarrow> bool" where
  "utf8_continuation b \<longleftrightarrow> 0x80 \<le> b \<and> b \<le> 0xBF"

definition utf8_second3 :: "nat \<Rightarrow> nat \<Rightarrow> bool" where
  "utf8_second3 b0 b1 \<longleftrightarrow>
     utf8_continuation b1 \<and> (b0 = 0xE0 \<longrightarrow> 0xA0 \<le> b1) \<and> (b0 = 0xED \<longrightarrow> b1 \<le> 0x9F)"

definition utf8_second4 :: "nat \<Rightarrow> nat \<Rightarrow> bool" where
  "utf8_second4 b0 b1 \<longleftrightarrow>
     utf8_continuation b1 \<and> (b0 = 0xF0 \<longrightarrow> 0x90 \<le> b1) \<and> (b0 = 0xF4 \<longrightarrow> b1 \<le> 0x8F)"

text \<open>The character at the front of a non-empty byte string and its length, or the length of the
  invalid sequence there.\<close>

definition utf8_next :: "string \<Rightarrow> (nat, nat \<times> nat) result" where
  "utf8_next s =
     (let b0 = byte_at s 0; b1 = byte_at s 1; b2 = byte_at s 2; b3 = byte_at s 3
      in if b0 < 0x80 then Inr (b0, 1)
         else if 0xC2 \<le> b0 \<and> b0 \<le> 0xDF then
           (if utf8_continuation b1 then Inr ((b0 - 0xC0) * 64 + (b1 - 0x80), 2) else Inl 1)
         else if 0xE0 \<le> b0 \<and> b0 \<le> 0xEF then
           (if \<not> utf8_second3 b0 b1 then Inl 1
            else if \<not> utf8_continuation b2 then Inl 2
            else Inr (((b0 - 0xE0) * 64 + (b1 - 0x80)) * 64 + (b2 - 0x80), 3))
         else if 0xF0 \<le> b0 \<and> b0 \<le> 0xF4 then
           (if \<not> utf8_second4 b0 b1 then Inl 1
            else if \<not> utf8_continuation b2 then Inl 2
            else if \<not> utf8_continuation b3 then Inl 3
            else Inr ((((b0 - 0xF0) * 64 + (b1 - 0x80)) * 64 + (b2 - 0x80)) * 64 + (b3 - 0x80), 4))
         else Inl 1)"

definition utf8_length :: "(nat, nat \<times> nat) result \<Rightarrow> nat" where
  "utf8_length r = (case r of Inl n \<Rightarrow> n | Inr (_, n) \<Rightarrow> n)"

lemma utf8_next_length: "1 \<le> utf8_length (utf8_next s) \<and> utf8_length (utf8_next s) \<le> 4"
  by (simp add: utf8_next_def utf8_length_def Let_def)

text \<open>The pieces of a byte string: characters, or invalid sequences.\<close>

function utf8_pieces :: "string \<Rightarrow> nat option list" where
  "utf8_pieces s =
     (if s = [] then []
      else (case utf8_next s of
              Inr (c, n) \<Rightarrow> Some c # utf8_pieces (drop n s)
            | Inl n \<Rightarrow> None # utf8_pieces (drop n s)))"
  by pat_completeness auto

termination
  using utf8_next_length
  by (relation "measure length") (fastforce simp: utf8_length_def split: sum.splits prod.splits)+

declare utf8_pieces.simps [simp del]

text \<open>\<open>to_str\<close>: the characters, if the bytes are valid; and \<open>char::is_control\<close>.\<close>

definition utf8_chars :: "string \<Rightarrow> nat list option" where
  "utf8_chars s = (if None \<in> set (utf8_pieces s) then None else Some (List.map_filter id (utf8_pieces s)))"

definition is_control :: "nat \<Rightarrow> bool" where
  "is_control c \<longleftrightarrow> c < 0x20 \<or> 0x7F \<le> c \<and> c \<le> 0x9F"

text \<open>\<open>to_string_lossy().chars()\<close>, and the encoding of a character.\<close>

definition replacement_character :: nat where
  "replacement_character = 0xFFFD"

definition lossy_chars :: "string \<Rightarrow> nat list" where
  "lossy_chars s = map (\<lambda>p. case p of Some c \<Rightarrow> c | None \<Rightarrow> replacement_character) (utf8_pieces s)"

definition utf8_encode :: "nat \<Rightarrow> string" where
  "utf8_encode c =
     (if c < 0x80 then [char_of c]
      else if c < 0x800 then [char_of (0xC0 + c div 64), char_of (0x80 + c mod 64)]
      else if c < 0x10000 then
        [char_of (0xE0 + c div 4096), char_of (0x80 + c div 64 mod 64), char_of (0x80 + c mod 64)]
      else
        [char_of (0xF0 + c div 262144), char_of (0x80 + c div 4096 mod 64),
         char_of (0x80 + c div 64 mod 64), char_of (0x80 + c mod 64)])"

definition unicode_scalar :: "nat \<Rightarrow> bool" where
  "unicode_scalar c \<longleftrightarrow> c < 0xD800 \<or> 0xE000 \<le> c \<and> c \<le> 0x10FFFF"

section \<open>Round trip\<close>

lemma byte_at_Cons: "byte_at (c # s) 0 = of_char c" "byte_at (c # s) (Suc i) = byte_at s i"
  by (simp_all add: byte_at_def)

lemma byte_at_simps [simp]:
  "byte_at (c # s) 0 = of_char c" "byte_at (c # d # s) (Suc 0) = of_char d"
  "byte_at (c # d # e # s) 2 = of_char e" "byte_at (c # d # e # f # s) 3 = of_char f"
  by (simp_all add: byte_at_def)

lemma of_char_small: "n < 256 \<Longrightarrow> (of_char (char_of n :: char) :: nat) = n"
  by simp

lemma utf8_next_encode:
  assumes "unicode_scalar c"
  shows "utf8_next (utf8_encode c @ s) = Inr (c, length (utf8_encode c))"
proof -
  consider "c < 0x80" | "0x80 \<le> c" "c < 0x800" | "0x800 \<le> c" "c < 0x10000" | "0x10000 \<le> c" "c \<le> 0x10FFFF"
    using assms by (cases "c < 0x80"; cases "c < 0x800"; cases "c < 0x10000") (auto simp: unicode_scalar_def)
  then show ?thesis
  proof cases
    case 1
    then show ?thesis by (simp add: utf8_encode_def utf8_next_def Let_def)
  next
    case 2
    define a b where "a = c div 64" "b = c mod 64"
    have parts: "2 \<le> a" "a < 32" "b < 64" "a * 64 + b = c" "\<not> c < 128"
      using 2 by (auto simp: a_b_def)
    with 2(2) show ?thesis
      by (simp add: utf8_encode_def utf8_next_def Let_def utf8_continuation_def
          of_char_small flip: a_b_def)
  next
    case 3
    define a b d where "a = c div 4096" "b = c div 64 mod 64" "d = c mod 64"
    have "a = c div 64 div 64" by (simp add: a_b_d_def div_mult2_eq [symmetric])
    then have "a * 64 + b = c div 64" by (simp add: a_b_d_def)
    then have parts: "a < 16" "b < 64" "d < 64" "(a * 64 + b) * 64 + d = c"
      using 3 by (auto simp: a_b_d_def)
    then have "a = 0 \<longrightarrow> 32 \<le> b" "a = 13 \<longrightarrow> b \<le> 31"
      using 3 assms by (auto simp: unicode_scalar_def)
    with 3 parts show ?thesis
      by (simp add: utf8_encode_def utf8_next_def Let_def utf8_continuation_def utf8_second3_def
          of_char_small flip: a_b_d_def)
  next
    case 4
    define a b d e where "a = c div 262144" "b = c div 4096 mod 64" "d = c div 64 mod 64" "e = c mod 64"
    have "a = c div 4096 div 64" "c div 4096 = c div 64 div 64"
      by (simp_all add: a_b_d_e_def div_mult2_eq [symmetric])
    then have "a * 64 + b = c div 4096" "c div 4096 * 64 + d = c div 64"
      by (simp_all add: a_b_d_e_def)
    then have parts: "a < 5" "b < 64" "d < 64" "e < 64" "((a * 64 + b) * 64 + d) * 64 + e = c"
      using 4 by (auto simp: a_b_d_e_def)
    then have "a = 0 \<longrightarrow> 16 \<le> b" "a = 4 \<longrightarrow> b \<le> 15"
      using 4 by auto
    with 4 parts show ?thesis
      by (simp add: utf8_encode_def utf8_next_def Let_def utf8_continuation_def utf8_second4_def
          of_char_small flip: a_b_d_e_def)
  qed
qed

lemma utf8_encode_not_Nil [simp]: "utf8_encode c \<noteq> []"
  by (simp add: utf8_encode_def)

lemma utf8_pieces_encode:
  "\<forall>c\<in>set cs. unicode_scalar c \<Longrightarrow> utf8_pieces (concat (map utf8_encode cs)) = map Some cs"
proof (induction cs)
  case Nil
  then show ?case by (simp add: utf8_pieces.simps)
next
  case (Cons c cs)
  then show ?case by (subst utf8_pieces.simps) (simp add: utf8_next_encode)
qed

lemma utf8_chars_encode:
  "\<forall>c\<in>set cs. unicode_scalar c \<Longrightarrow> utf8_chars (concat (map utf8_encode cs)) = Some cs"
  by (simp add: utf8_chars_def utf8_pieces_encode image_iff map_filter_def comp_def)

text \<open>An ASCII byte is a character of its own.\<close>

lemma utf8_next_ascii:
  assumes "utf8_next s = Inr (cp, n)" and "i < n" and "byte_at s i < 0x80" and "s \<noteq> []"
  shows "i = 0 \<and> n = 1 \<and> cp = byte_at s 0"
proof -
  have "i = 0 \<or> i = 1 \<or> i = 2 \<or> i = 3"
    using utf8_next_length [of s] assms(1,2) by (auto simp: utf8_length_def)
  then show ?thesis
    using assms(1-3)
    by (auto simp: utf8_next_def Let_def utf8_continuation_def utf8_second3_def utf8_second4_def
        split: if_splits)
qed

lemma utf8_pieces_ascii:
  assumes "c \<in> set s" and "(of_char c :: nat) < 0x80" and "None \<notin> set (utf8_pieces s)"
  shows "Some (of_char c) \<in> set (utf8_pieces s)"
  using assms
proof (induction s rule: utf8_pieces.induct)
  case (1 s)
  from "1.prems"(1) have s: "s \<noteq> []" by auto
  then obtain cp n where step: "utf8_next s = Inr (cp, n)"
    and pieces: "utf8_pieces s = Some cp # utf8_pieces (drop n s)"
    using "1.prems"(3) utf8_pieces.simps [of s] by (auto split: sum.splits)
  obtain i where i: "i < length s" "s ! i = c"
    using "1.prems"(1) by (auto simp: in_set_conv_nth)
  then have byte: "byte_at s i = of_char c" by (simp add: byte_at_def)
  show ?case
  proof (cases "i < n")
    case True
    then show ?thesis
      using utf8_next_ascii [OF step True] byte "1.prems"(2) s pieces by simp
  next
    case False
    then have "c \<in> set (drop n s)"
      using i by (auto simp: in_set_conv_nth intro: exI [of _ "i - n"])
    then show ?thesis
      using "1.IH"(2) [OF s step refl] "1.prems"(2,3) pieces by simp
  qed
qed

lemma utf8_chars_ascii:
  assumes "utf8_chars s = Some cs" and "c \<in> set s" and "(of_char c :: nat) < 0x80"
  shows "of_char c \<in> set cs"
  using assms utf8_pieces_ascii [of c s]
  by (force simp: utf8_chars_def map_filter_def split: if_splits)

lemma utf8_chars_Nil [simp]: "utf8_chars [] = Some []"
  by (simp add: utf8_chars_def utf8_pieces.simps)

end
