(* ===== verification/Eltanin_Runtime.thy ===== *)
theory Eltanin_Runtime
  imports Eltanin_Text Eltanin_Lease
begin

text \<open>
  Models \<open>crates/eltanin-agent/src/runtime.rs\<close>: the clock of the agent, a count of nanoseconds since
  the agent started, and the identity of the agent instance, made of its own process identifier and
  start token. Reading the identity of a process is a parameter: \<open>Eltanin_Linux\<close> models the reading.
\<close>

section \<open>The clock\<close>

definition agent_clock_now :: "nat \<Rightarrow> nat \<Rightarrow> monotonic_time" where
  "agent_clock_now base now =
     (case u64_try_from (now - base) of Some nanos \<Rightarrow> nanos | None \<Rightarrow> - 1)"

lemma unat_max_u64: "unat (- 1 :: u64) = 2 ^ 64 - 1"
  by (simp add: unsigned_minus_1_eq_mask mask_eq_exp_minus_1)

lemma unat_agent_clock_now: "unat (agent_clock_now base now) = min (now - base) (2 ^ 64 - 1)"
proof (cases "now - base < 2 ^ 64")
  case True
  then show ?thesis
    by (simp add: agent_clock_now_def u64_try_from_def unat_of_nat_u64)
next
  case False
  then have "u64_try_from (now - base) = None" by (simp add: u64_try_from_def)
  then show ?thesis using False by (simp add: agent_clock_now_def unat_max_u64)
qed

lemma agent_clock_now_mono: "t \<le> t' \<Longrightarrow> agent_clock_now base t \<le> agent_clock_now base t'"
  by (simp add: word_le_nat_alt unat_agent_clock_now min.coboundedI1)

section \<open>The instance\<close>

datatype instance_id_error = StartTokenUnavailable string

definition issuer_instance_id_of ::
  "(u32 \<Rightarrow> workload_identity) \<Rightarrow> u32 \<Rightarrow> (instance_id_error, issuer_instance_id) result" where
  "issuer_instance_id_of collect_workload_identity pid =
     (case wi_process_start (collect_workload_identity pid) of
        Present value _ \<Rightarrow>
          Inr (''agent-pid-'' @ u32_to_string pid @ ''-start-'' @ u64_to_string value)
      | Missing reason \<Rightarrow> Inl (StartTokenUnavailable reason)
      | EvidenceUnsupported \<Rightarrow>
          Inl (StartTokenUnavailable
                 ''process start token collection is unsupported on this platform''))"

end
