(* ===== verification/Eltanin_Linux.thy ===== *)
theory Eltanin_Linux
  imports Eltanin_Peer Eltanin_Lines Eltanin_Utf8 Eltanin_Runtime "HOL-Library.State_Monad"
begin

text \<open>
  Models the crate \<open>crates/eltanin-linux\<close> (\<open>lib.rs\<close>, the collector that reads the identity of a
  process from \<open>/proc\<close>, and \<open>peer.rs\<close>, which pairs the kernel's credential of a connected peer with
  such a reading) and \<open>crates/eltanin-agent/src/peer.rs\<close>. A collector is a state transformer: every
  read of a file or a link is an operation on the state of \<open>/proc\<close>, which may change between any two
  reads, so processes may exit and identifiers may be reused in between.
\<close>

section \<open>The operating system\<close>

text \<open>\<open>fs::read_to_string\<close> and \<open>fs::read_link\<close> with the text of the error, and the debug form of a
  string.\<close>

record 'w proc_fs =
  fs_read :: "string \<Rightarrow> ('w, (string, string) result) state"
  fs_read_link :: "string \<Rightarrow> ('w, (string, string) result) state"
  fs_debug :: "string \<Rightarrow> string"

text \<open>\<open>str::parse\<close> for an unsigned integer, with the text of its error.\<close>

fun digits_error :: "nat \<Rightarrow> nat \<Rightarrow> string \<Rightarrow> string" where
  "digits_error limit acc [] = []"
| "digits_error limit acc (c # cs) =
     (case digit_val c of
        None \<Rightarrow> ''invalid digit found in string''
      | Some d \<Rightarrow>
          if acc * 10 + d < limit then digits_error limit (acc * 10 + d) cs
          else ''number too large to fit in target type'')"

definition int_error_text :: "nat \<Rightarrow> string \<Rightarrow> string" where
  "int_error_text limit s =
     (case s of
        [] \<Rightarrow> ''cannot parse integer from empty string''
      | c # cs \<Rightarrow>
          if c = CHR ''+'' then
            (if cs = [] then ''invalid digit found in string'' else digits_error limit 0 cs)
          else digits_error limit 0 s)"

definition parse_u32_or :: "string \<Rightarrow> (string, u32) result" where
  "parse_u32_or s = ok_or (int_error_text (2 ^ 32) s) (parse_u32 s)"

definition parse_u64_or :: "string \<Rightarrow> (string, u64) result" where
  "parse_u64_or s = ok_or (int_error_text (2 ^ 64) s) (parse_u64 s)"

text \<open>\<open>/proc/<pid>/<name>\<close>.\<close>

definition proc_path :: "u32 \<Rightarrow> string \<Rightarrow> string" where
  "proc_path pid name = ''/proc/'' @ u32_to_string pid @ ''/'' @ name"

section \<open>The stat file\<close>

record stat_fields =
  sf_ppid :: u32
  sf_starttime :: u64

definition stat_number ::
  "string list \<Rightarrow> nat \<Rightarrow> string \<Rightarrow> (string \<Rightarrow> (string, 'a) result) \<Rightarrow> (string, 'a) result" where
  "stat_number words i name parse =
     (if i < length words then
        (case parse (words ! i) of
           Inl e \<Rightarrow> Inl (''parse '' @ name @ '': '' @ e)
         | Inr n \<Rightarrow> Inr n)
      else Inl (''missing '' @ name @ '' field''))"

definition stat_from_text :: "(string \<Rightarrow> string) \<Rightarrow> u32 \<Rightarrow> string \<Rightarrow> (string, stat_fields) result" where
  "stat_from_text debug observed_pid raw =
     (case rsplit_once (CHR '')'') raw of
        None \<Rightarrow> Inl (proc_path observed_pid ''stat'' @ '' missing '' @ [CHR 0x27] @ '')'' @ [CHR 0x27] @ '': '' @ debug raw)
      | Some (_, after_comm) \<Rightarrow>
          (let words = split_whitespace after_comm
           in case stat_number words (4 - 3) ''ppid'' parse_u32_or of
                Inl e \<Rightarrow> Inl e
              | Inr parent \<Rightarrow>
                  (case stat_number words (22 - 3) ''starttime'' parse_u64_or of
                     Inl e \<Rightarrow> Inl e
                   | Inr starttime \<Rightarrow> Inr \<lparr>sf_ppid = parent, sf_starttime = starttime\<rparr>)))"

definition parse_stat :: "'w proc_fs \<Rightarrow> u32 \<Rightarrow> ('w, (string, stat_fields) result) state" where
  "parse_stat fs observed_pid =
     do {
       contents \<leftarrow> fs_read fs (proc_path observed_pid ''stat'');
       State_Monad.return
         (case contents of
            Inl e \<Rightarrow> Inl (''read '' @ proc_path observed_pid ''stat'' @ '': '' @ e)
          | Inr raw \<Rightarrow> stat_from_text (fs_debug fs) observed_pid raw)
     }"

definition kernel_observed :: "(string, 'a) result \<Rightarrow> 'a evidence" where
  "kernel_observed r = (case r of Inl reason \<Rightarrow> Missing reason | Inr value \<Rightarrow> Present value KernelObserved)"

definition process_start :: "'w proc_fs \<Rightarrow> u32 \<Rightarrow> ('w, process_start_token evidence) state" where
  "process_start fs pid =
     do {
       stat \<leftarrow> parse_stat fs pid;
       State_Monad.return (kernel_observed (map_sum id sf_starttime stat))
     }"

definition parent_pid :: "'w proc_fs \<Rightarrow> u32 \<Rightarrow> ('w, u32 option) state" where
  "parent_pid fs pid =
     do {
       stat \<leftarrow> parse_stat fs pid;
       State_Monad.return (map_option sf_ppid (result_ok stat))
     }"

section \<open>User and group\<close>

text \<open>The line that starts with the label; its second and third words are the real and the effective
  id.\<close>

definition status_id ::
  "(string \<Rightarrow> string) \<Rightarrow> string \<Rightarrow> string \<Rightarrow> string option \<Rightarrow> string \<Rightarrow> u32 evidence" where
  "status_id debug label line raw which =
     (case raw of
        Some word \<Rightarrow>
          (case parse_u32_or word of
             Inr value \<Rightarrow> Present value KernelObserved
           | Inl e \<Rightarrow> Missing (''parse '' @ label @ '' '' @ which @ '': '' @ e))
      | None \<Rightarrow> Missing (label @ '' line missing '' @ which @ '' value: '' @ debug line))"

definition status_ids_from_text ::
  "(string \<Rightarrow> string) \<Rightarrow> u32 \<Rightarrow> string \<Rightarrow> string \<Rightarrow> u32 evidence \<times> u32 evidence" where
  "status_ids_from_text debug pid label raw =
     (case find (starts_with label) (text_lines raw) of
        None \<Rightarrow>
          (let reason = ''no '' @ label @ '' line in '' @ proc_path pid ''status''
           in (Missing reason, Missing reason))
      | Some line \<Rightarrow>
          (let words = drop 1 (split_whitespace line)
           in (status_id debug label line (nth_option words 0) ''real'',
               status_id debug label line (nth_option words 1) ''effective'')))"

definition read_status_ids ::
  "'w proc_fs \<Rightarrow> u32 \<Rightarrow> string \<Rightarrow> ('w, u32 evidence \<times> u32 evidence) state" where
  "read_status_ids fs pid label =
     do {
       contents \<leftarrow> fs_read fs (proc_path pid ''status'');
       State_Monad.return
         (case contents of
            Inl e \<Rightarrow>
              (let reason = ''read '' @ proc_path pid ''status'' @ '': '' @ e
               in (Missing reason, Missing reason))
          | Inr raw \<Rightarrow> status_ids_from_text (fs_debug fs) pid label raw)
     }"

definition read_status_id :: "'w proc_fs \<Rightarrow> u32 \<Rightarrow> string \<Rightarrow> ('w, u32 evidence) state" where
  "read_status_id fs pid label =
     do {
       ids \<leftarrow> read_status_ids fs pid label;
       State_Monad.return (fst ids)
     }"

section \<open>The executable\<close>

definition executable_path :: "'w proc_fs \<Rightarrow> u32 \<Rightarrow> ('w, string evidence) state" where
  "executable_path fs pid =
     do {
       target \<leftarrow> fs_read_link fs (proc_path pid ''exe'');
       State_Monad.return
         (case target of
            Inr path \<Rightarrow> Present (concat (map utf8_encode (lossy_chars path))) KernelObserved
          | Inl e \<Rightarrow> Missing (''readlink '' @ proc_path pid ''exe'' @ '': '' @ e))
     }"

definition executable_hash :: "u32 \<Rightarrow> string evidence" where
  "executable_hash pid = Missing ''executable hashing not implemented by this collector''"

section \<open>Ancestors\<close>

definition MAX_ANCESTRY_DEPTH :: nat where "MAX_ANCESTRY_DEPTH = 32"

text \<open>The turns left, the identifiers seen, the current process, and the ancestors found.\<close>

fun ancestry_loop ::
  "'w proc_fs \<Rightarrow> nat \<Rightarrow> u32 set \<Rightarrow> u32 \<Rightarrow> process_ancestor list \<Rightarrow> ('w, process_ancestor list) state"
where
  "ancestry_loop fs 0 seen current out = State_Monad.return out"
| "ancestry_loop fs (Suc n) seen current out =
     do {
       found \<leftarrow> parent_pid fs current;
       (case found of
          None \<Rightarrow> State_Monad.return out
        | Some parent \<Rightarrow>
            if parent = 0 \<or> parent \<in> seen then State_Monad.return out
            else
              do {
                start \<leftarrow> process_start fs parent;
                path \<leftarrow> executable_path fs parent;
                ancestry_loop fs n (insert parent seen) parent
                  (out @ [\<lparr>pa_pid = parent, pa_start = start, pa_executable_path = path\<rparr>])
              })
     }"

definition ancestry :: "'w proc_fs \<Rightarrow> u32 \<Rightarrow> ('w, process_ancestor list) state" where
  "ancestry fs start_pid = ancestry_loop fs MAX_ANCESTRY_DEPTH {start_pid} start_pid []"

section \<open>The control group\<close>

definition cgroup_from_text :: "(string \<Rightarrow> string) \<Rightarrow> u32 \<Rightarrow> string \<Rightarrow> string evidence" where
  "cgroup_from_text debug pid raw =
     (case rev (text_lines raw) of
        [] \<Rightarrow> Missing (proc_path pid ''cgroup'' @ '' is empty'')
      | last_line # _ \<Rightarrow>
          (case nth_option (splitn 3 (CHR '':'') last_line) 2 of
             Some path \<Rightarrow> Present path KernelObserved
           | None \<Rightarrow>
               Missing (''malformed '' @ proc_path pid ''cgroup'' @ '' line: '' @ debug last_line)))"

definition cgroup_path :: "'w proc_fs \<Rightarrow> u32 \<Rightarrow> ('w, string evidence) state" where
  "cgroup_path fs pid =
     do {
       contents \<leftarrow> fs_read fs (proc_path pid ''cgroup'');
       State_Monad.return
         (case contents of
            Inl e \<Rightarrow> Missing (''read '' @ proc_path pid ''cgroup'' @ '': '' @ e)
          | Inr raw \<Rightarrow> cgroup_from_text (fs_debug fs) pid raw)
     }"

section \<open>The collectors\<close>

definition collect_workload_identity :: "'w proc_fs \<Rightarrow> u32 \<Rightarrow> ('w, workload_identity) state" where
  "collect_workload_identity fs pid =
     do {
       start \<leftarrow> process_start fs pid;
       uid \<leftarrow> read_status_id fs pid ''Uid:'';
       gid \<leftarrow> read_status_id fs pid ''Gid:'';
       path \<leftarrow> executable_path fs pid;
       ancestors \<leftarrow> ancestry fs pid;
       State_Monad.return
         \<lparr>wi_pid = pid, wi_process_start = start, wi_uid = uid, wi_gid = gid,
          wi_executable_path = path, wi_executable_hash = executable_hash pid,
          wi_ancestry = ancestors\<rparr>
     }"

definition collect_execution_context :: "'w proc_fs \<Rightarrow> u32 \<Rightarrow> ('w, execution_context) state" where
  "collect_execution_context fs pid =
     do {
       workload \<leftarrow> collect_workload_identity fs pid;
       cgroup \<leftarrow> cgroup_path fs pid;
       State_Monad.return
         \<lparr>ec_workload = workload, ec_cgroup_path = cgroup, ec_namespace_hint = EvidenceUnsupported,
          ec_container_hint = EvidenceUnsupported, ec_session_origin = EvidenceUnsupported\<rparr>
     }"

text \<open>On any other operating system.\<close>

definition unsupported_workload_identity :: "u32 \<Rightarrow> workload_identity" where
  "unsupported_workload_identity pid =
     \<lparr>wi_pid = pid, wi_process_start = EvidenceUnsupported, wi_uid = EvidenceUnsupported,
      wi_gid = EvidenceUnsupported, wi_executable_path = EvidenceUnsupported,
      wi_executable_hash = EvidenceUnsupported, wi_ancestry = []\<rparr>"

definition unsupported_execution_context :: "u32 \<Rightarrow> execution_context" where
  "unsupported_execution_context pid =
     \<lparr>ec_workload = unsupported_workload_identity pid, ec_cgroup_path = EvidenceUnsupported,
      ec_namespace_hint = EvidenceUnsupported, ec_container_hint = EvidenceUnsupported,
      ec_session_origin = EvidenceUnsupported\<rparr>"

section \<open>The peer of a connection\<close>

text \<open>\<open>socket_peercred\<close> gives the process identifier, a non-zero \<open>i32\<close>, and the effective ids, or the
  text of an error.\<close>

definition collect_peer_context ::
  "'w proc_fs \<Rightarrow> (string, int \<times> u32 \<times> u32) result \<Rightarrow>
     ('w, (peer_credential_error, peer_context) result) state" where
  "collect_peer_context fs peercred =
     (case peercred of
        Inl e \<Rightarrow> State_Monad.return (Inl (CredentialIo e))
      | Inr (raw_pid, uid, gid) \<Rightarrow>
          (let pid = (if 0 \<le> raw_pid \<and> raw_pid < 2 ^ 32 then of_int raw_pid else 0);
               credential = from_kernel pid uid gid
           in if pid = 0 then
                do {
                  observed \<leftarrow> collect_execution_context fs 0;
                  State_Monad.return (Inr (peer_unmapped credential observed))
                }
              else
                do {
                  observed \<leftarrow> collect_execution_context fs pid;
                  ids \<leftarrow> read_status_ids fs pid ''Uid:'';
                  State_Monad.return
                    (Inr (from_kernel_observation credential observed (fst ids) (snd ids)))
                }))"

definition unsupported_peer_context :: "(peer_credential_error, peer_context) result" where
  "unsupported_peer_context = Inl UnsupportedPlatform"

section \<open>Reading the stat file\<close>

lemma digit_char_plain:
  "d < 10 \<Longrightarrow> (of_char (digit_char d) :: nat) < 128 \<and> \<not> ascii_space (digit_char d) \<and> digit_char d \<noteq> CHR '')''"
proof -
  assume d: "d < 10"
  then have "(of_char (digit_char d) :: nat) = 48 + d" by (simp add: digit_char_def)
  moreover have "(of_char (CHR '')'') :: nat) = 41" by simp
  ultimately show ?thesis using d by (auto simp: ascii_space_def)
qed

text \<open>A word of the fixed part: nothing the parser takes for a separator.\<close>

definition plain_word :: "string \<Rightarrow> bool" where
  "plain_word w \<longleftrightarrow> w \<noteq> [] \<and> list_all (\<lambda>c. (of_char c :: nat) < 128 \<and> \<not> ascii_space c \<and> c \<noteq> CHR '')'') w"

lemma plain_word_dec: "plain_word (dec_of_nat n)"
proof -
  have "(of_char c :: nat) < 128 \<and> \<not> ascii_space c \<and> c \<noteq> CHR '')''" if "c \<in> set (dec_of_nat n)" for c
    using set_dec_of_nat [OF that] digit_char_plain by metis
  then show ?thesis by (simp add: plain_word_def list_all_iff)
qed

lemma split_words_word:
  "list_all (\<lambda>c. (of_char c :: nat) < 128 \<and> \<not> ascii_space c) w \<Longrightarrow> split_words acc (w @ s) = split_words (rev w @ acc) s"
  by (induction w arbitrary: acc) auto

definition spaced :: "string list \<Rightarrow> string" where
  "spaced ws = concat (map (\<lambda>w. CHR '' '' # w) ws)"

lemma split_whitespace_spaced:
  assumes "list_all plain_word ws"
  shows "split_whitespace (spaced ws @ [newline]) = ws"
proof -
  have "split_words acc (spaced ws @ [newline]) = (if acc = [] then [] else [rev acc]) @ ws" for acc
    using assms
  proof (induction ws arbitrary: acc)
    case Nil
    then show ?case by (simp add: spaced_def ascii_space_def newline_def)
  next
    case (Cons w ws)
    then have w: "list_all (\<lambda>c. (of_char c :: nat) < 128 \<and> \<not> ascii_space c) w" "w \<noteq> []"
      by (auto simp: plain_word_def list_all_iff)
    have "split_words acc (spaced (w # ws) @ [newline]) =
        (if acc = [] then [] else [rev acc]) @ split_words [] (w @ spaced ws @ [newline])"
      by (simp add: spaced_def ascii_space_def)
    also have "split_words [] (w @ spaced ws @ [newline]) = w # ws"
      using Cons.IH [of "rev w"] Cons.prems w by (simp add: split_words_word)
    finally show ?case .
  qed
  then show ?thesis by (simp add: split_whitespace_def)
qed

text \<open>The stat file as the kernel writes it: the command name is any text.\<close>

definition stat_text :: "u32 \<Rightarrow> string \<Rightarrow> string list \<Rightarrow> string" where
  "stat_text pid comm ws = u32_to_string pid @ '' ('' @ comm @ '')'' @ spaced ws @ [newline]"

lemma stat_text_split:
  assumes "list_all plain_word ws"
  shows "\<exists>front. rsplit_once (CHR '')'') (stat_text pid comm ws) = Some (front, spaced ws @ [newline])"
proof -
  have "stat_text pid comm ws =
      (u32_to_string pid @ '' ('' @ comm) @ CHR '')'' # (spaced ws @ [newline])"
    by (simp add: stat_text_def)
  moreover have "CHR '')'' \<notin> set (spaced ws @ [newline])"
    using assms by (auto simp: spaced_def newline_def plain_word_def list_all_iff)
  ultimately show ?thesis by (metis rsplit_once_Some)
qed

section \<open>What the collectors return\<close>

lemma run_parse_stat:
  "fst (run_state (parse_stat fs pid) s) =
     (case fst (run_state (fs_read fs (proc_path pid ''stat'')) s) of
        Inl e \<Rightarrow> Inl (''read '' @ proc_path pid ''stat'' @ '': '' @ e)
      | Inr raw \<Rightarrow> stat_from_text (fs_debug fs) pid raw)"
  by (simp add: parse_stat_def split_beta)

text \<open>Evidence is the kernel's, or explicitly missing.\<close>

definition from_kernel_only :: "'a evidence \<Rightarrow> bool" where
  "from_kernel_only e \<longleftrightarrow> (case e of Present _ source \<Rightarrow> source = KernelObserved | _ \<Rightarrow> True)"

lemma from_kernel_only_simps [simp]:
  "from_kernel_only (Present v src) \<longleftrightarrow> src = KernelObserved" "from_kernel_only (Missing r)"
  "from_kernel_only EvidenceUnsupported" "from_kernel_only (kernel_observed x)"
  by (simp_all add: from_kernel_only_def kernel_observed_def split: sum.split)

lemma from_kernel_only_trusted: "from_kernel_only e \<Longrightarrow> trusted_value e = evidence_value e"
  by (cases e) simp_all

lemma status_id_kernel [simp]: "from_kernel_only (status_id debug label line raw which)"
  by (simp add: status_id_def split: option.split sum.split)

lemma status_ids_kernel [simp]:
  "from_kernel_only (fst (status_ids_from_text debug pid label raw))"
  "from_kernel_only (snd (status_ids_from_text debug pid label raw))"
  by (simp_all add: status_ids_from_text_def Let_def split: option.split)

lemma read_status_ids_kernel [simp]:
  "from_kernel_only (fst (fst (run_state (read_status_ids fs pid label) s)))"
  "from_kernel_only (snd (fst (run_state (read_status_ids fs pid label) s)))"
  by (simp_all add: read_status_ids_def split_beta Let_def split: sum.split)

lemma process_start_kernel [simp]: "from_kernel_only (fst (run_state (process_start fs pid) s))"
  by (simp add: process_start_def split_beta)

lemma read_status_id_kernel [simp]: "from_kernel_only (fst (run_state (read_status_id fs pid label) s))"
  by (simp add: read_status_id_def split_beta)

lemma executable_path_kernel [simp]: "from_kernel_only (fst (run_state (executable_path fs pid) s))"
  by (simp add: executable_path_def split_beta split: sum.split)

lemma cgroup_path_kernel [simp]: "from_kernel_only (fst (run_state (cgroup_path fs pid) s))"
  by (simp add: cgroup_path_def cgroup_from_text_def split_beta split: sum.split list.split option.split)

section \<open>Walking over ancestors\<close>

text \<open>The walk over any three readers: the parent of a process, its start and its executable.\<close>

fun ancestor_walk ::
  "(u32 \<Rightarrow> ('w, u32 option) state) \<Rightarrow> (u32 \<Rightarrow> ('w, process_start_token evidence) state) \<Rightarrow>
     (u32 \<Rightarrow> ('w, string evidence) state) \<Rightarrow> nat \<Rightarrow> u32 set \<Rightarrow> u32 \<Rightarrow> process_ancestor list \<Rightarrow>
     ('w, process_ancestor list) state" where
  "ancestor_walk parent start path 0 seen current out = State_Monad.return out"
| "ancestor_walk parent start path (Suc n) seen current out =
     do {
       found \<leftarrow> parent current;
       (case found of
          None \<Rightarrow> State_Monad.return out
        | Some p \<Rightarrow>
            if p = 0 \<or> p \<in> seen then State_Monad.return out
            else
              do {
                st \<leftarrow> start p;
                ex \<leftarrow> path p;
                ancestor_walk parent start path n (insert p seen) p
                  (out @ [\<lparr>pa_pid = p, pa_start = st, pa_executable_path = ex\<rparr>])
              })
     }"

text \<open>What a list of ancestors of a process looks like.\<close>

definition ancestors_ok :: "nat \<Rightarrow> u32 set \<Rightarrow> process_ancestor list \<Rightarrow> bool" where
  "ancestors_ok n seen as \<longleftrightarrow>
     length as \<le> n \<and> distinct (map pa_pid as) \<and>
     (\<forall>a\<in>set as. pa_pid a \<notin> seen \<and> pa_pid a \<noteq> 0 \<and>
        from_kernel_only (pa_start a) \<and> from_kernel_only (pa_executable_path a))"

lemma ancestors_ok_Nil [simp]: "ancestors_ok n seen []"
  by (simp add: ancestors_ok_def)

lemma ancestors_ok_Cons:
  "ancestors_ok n (insert (pa_pid a) seen) as \<Longrightarrow> pa_pid a \<notin> seen \<Longrightarrow> pa_pid a \<noteq> 0 \<Longrightarrow>
     from_kernel_only (pa_start a) \<Longrightarrow> from_kernel_only (pa_executable_path a) \<Longrightarrow>
     ancestors_ok (Suc n) seen (a # as)"
  by (auto simp: ancestors_ok_def image_iff)

locale kernel_readers =
  fixes parent :: "u32 \<Rightarrow> ('w, u32 option) state"
    and start :: "u32 \<Rightarrow> ('w, process_start_token evidence) state"
    and path :: "u32 \<Rightarrow> ('w, string evidence) state"
  assumes start_kernel: "from_kernel_only (fst (run_state (start p) s))"
    and path_kernel: "from_kernel_only (fst (run_state (path p) s))"
begin

lemma walk_ok:
  "\<exists>more. fst (run_state (ancestor_walk parent start path n seen current out) s) = out @ more \<and>
     ancestors_ok n seen more"
proof (induction n arbitrary: seen current out s)
  case (Suc n)
  obtain found s1 where found: "run_state (parent current) s = (found, s1)" by fastforce
  show ?case
  proof (cases "\<exists>p. found = Some p \<and> p \<noteq> 0 \<and> p \<notin> seen")
    case True
    then obtain p where p: "found = Some p" "p \<noteq> 0" "p \<notin> seen" by blast
    obtain st s2 where st: "run_state (start p) s1 = (st, s2)" by fastforce
    obtain ex s3 where ex: "run_state (path p) s2 = (ex, s3)" by fastforce
    let ?a = "\<lparr>pa_pid = p, pa_start = st, pa_executable_path = ex\<rparr>"
    have "from_kernel_only st" "from_kernel_only ex"
      using start_kernel [of p s1] path_kernel [of p s2] st ex by simp_all
    then have "ancestors_ok (Suc n) seen (?a # more)" if "ancestors_ok n (insert p seen) more" for more
      using that p by (intro ancestors_ok_Cons) simp_all
    moreover obtain more where "fst (run_state (ancestor_walk parent start path n (insert p seen) p (out @ [?a])) s3) =
        (out @ [?a]) @ more" "ancestors_ok n (insert p seen) more"
      using Suc.IH by blast
    ultimately show ?thesis
      using p by (intro exI [of _ "?a # more"]) (simp add: found st ex)
  next
    case False
    then show ?thesis
      by (intro exI [of _ "[]"]) (auto simp: found split: option.splits)
  qed
qed simp

lemma walk_from_self:
  "let as = fst (run_state (ancestor_walk parent start path n {pid} pid []) s)
   in length as \<le> n \<and> distinct (pid # map pa_pid as) \<and> 0 \<notin> set (map pa_pid as) \<and>
      (\<forall>a\<in>set as. from_kernel_only (pa_start a) \<and> from_kernel_only (pa_executable_path a))"
  using walk_ok [of n "{pid}" pid "[]" s] by (auto simp: ancestors_ok_def Let_def)

end

interpretation linux: kernel_readers "parent_pid fs" "process_start fs" "executable_path fs" for fs
  by unfold_locales simp_all

lemma ancestry_loop_walk:
  "ancestry_loop fs n seen current out =
     ancestor_walk (parent_pid fs) (process_start fs) (executable_path fs) n seen current out"
  by (induction n arbitrary: seen current out) (simp_all cong: if_cong)

text \<open>A collected context, field by field.\<close>

definition context_from_kernel :: "execution_context \<Rightarrow> bool" where
  "context_from_kernel ctx \<longleftrightarrow>
     (let w = ec_workload ctx
      in from_kernel_only (wi_process_start w) \<and> from_kernel_only (wi_uid w) \<and>
         from_kernel_only (wi_gid w) \<and> from_kernel_only (wi_executable_path w) \<and>
         from_kernel_only (wi_executable_hash w) \<and>
         (\<forall>a\<in>set (wi_ancestry w). from_kernel_only (pa_start a) \<and> from_kernel_only (pa_executable_path a)) \<and>
         from_kernel_only (ec_cgroup_path ctx) \<and> from_kernel_only (ec_namespace_hint ctx) \<and>
         from_kernel_only (ec_container_hint ctx) \<and> from_kernel_only (ec_session_origin ctx))"

lemma ancestry_shape:
  "let as = fst (run_state (ancestry fs pid) s)
   in length as \<le> MAX_ANCESTRY_DEPTH \<and> distinct (pid # map pa_pid as) \<and> 0 \<notin> set (map pa_pid as) \<and>
      (\<forall>a\<in>set as. from_kernel_only (pa_start a) \<and> from_kernel_only (pa_executable_path a))"
  unfolding ancestry_def ancestry_loop_walk by (rule linux.walk_from_self)

lemma collect_workload_fields:
  "let w = fst (run_state (collect_workload_identity fs pid) s)
   in wi_pid w = pid \<and> from_kernel_only (wi_process_start w) \<and> from_kernel_only (wi_uid w) \<and>
      from_kernel_only (wi_gid w) \<and> from_kernel_only (wi_executable_path w) \<and>
      (\<exists>s'. wi_ancestry w = fst (run_state (ancestry fs pid) s')) \<and>
      wi_executable_hash w = executable_hash pid"
  by (simp add: collect_workload_identity_def split_beta Let_def) blast

lemma collected_context_from_kernel:
  "context_from_kernel (fst (run_state (collect_execution_context fs pid) s))"
proof -
  let ?w = "fst (run_state (collect_workload_identity fs pid) s)"
  have ec: "ec_workload (fst (run_state (collect_execution_context fs pid) s)) = ?w"
    by (simp add: collect_execution_context_def split_beta)
  have "\<forall>a\<in>set (wi_ancestry ?w). from_kernel_only (pa_start a) \<and> from_kernel_only (pa_executable_path a)"
    using collect_workload_fields [of fs pid s] ancestry_shape [of fs pid] by (metis (no_types, lifting))
  then show ?thesis
    unfolding context_from_kernel_def ec
    using collect_workload_fields [of fs pid s]
    by (auto simp: Let_def collect_execution_context_def split_beta executable_hash_def)
qed

lemma collected_context_pid:
  "wi_pid (ec_workload (fst (run_state (collect_execution_context fs pid) s))) = pid"
  using collect_workload_fields [of fs pid s] by (simp add: collect_execution_context_def split_beta Let_def)

text \<open>A process is recognised as itself exactly when its start token was read.\<close>

lemma kernel_self_comparison:
  "from_kernel_only (wi_process_start w) \<Longrightarrow>
     compare_process w w = Same \<longleftrightarrow> is_present (wi_process_start w)"
  by (cases "wi_process_start w") (auto simp: compare_process_def)

section \<open>Concrete inputs\<close>

definition demo_fs :: "string \<Rightarrow> string \<Rightarrow> unit proc_fs" where
  "demo_fs stat status =
     \<lparr>fs_read = (\<lambda>path. State_Monad.return
        (if path = proc_path 7 ''stat'' then Inr stat
         else if path = proc_path 7 ''status'' then Inr status else Inl ''not found'')),
      fs_read_link = (\<lambda>_. State_Monad.return (Inl ''not found'')), fs_debug = id\<rparr>"

definition demo_words :: "string list" where
  "demo_words = [''S'', u32_to_string 111] @ replicate 17 ''0'' @ [u64_to_string 123456, ''0'']"

lemma demo_words_plain: "list_all plain_word demo_words"
  by (simp add: demo_words_def u32_to_string_def u64_to_string_def plain_word_dec)
     (simp add: plain_word_def ascii_space_def list_all_iff)

section \<open>Properties\<close>

text \<open>The stat file of a process is read correctly whatever the process calls itself: for any command
  name, with spaces, parentheses or line breaks in it, the parent and the start time are the numbers
  the kernel wrote in their places.\<close>

theorem stat_survives_any_comm:
  assumes "fst (run_state (fs_read fs (proc_path pid ''stat'')) s) = Inr (stat_text own comm ws)"
    and "list_all plain_word ws" and "20 \<le> length ws"
    and "ws ! 1 = u32_to_string ppid" and "ws ! 19 = u64_to_string start"
  shows "fst (run_state (parse_stat fs pid) s) = Inr \<lparr>sf_ppid = ppid, sf_starttime = start\<rparr>"
proof -
  obtain front where "rsplit_once (CHR '')'') (stat_text own comm ws) = Some (front, spaced ws @ [newline])"
    using stat_text_split [OF assms(2)] by blast
  then show ?thesis
    using assms
    by (simp add: run_parse_stat stat_from_text_def split_whitespace_spaced stat_number_def
        parse_u32_or_def parse_u64_or_def)
qed

lemma stat_survives_any_comm_witness:
  "fst (run_state (parse_stat (demo_fs (stat_text 7 ''1 (evil) proc)'' demo_words) []) 7) ()) =
     Inr \<lparr>sf_ppid = 111, sf_starttime = 123456\<rparr>"
  by (rule stat_survives_any_comm [OF _ demo_words_plain]) (simp_all add: demo_fs_def demo_words_def nth_append)

text \<open>The walk over the ancestors ends after at most 32 steps even if /proc shows a cycle or changes
  during the walk: the ancestors are pairwise distinct processes, none of them is the process itself,
  and none is the identifier zero.\<close>

theorem ancestry_bounded:
  "let as = fst (run_state (ancestry fs pid) s)
   in length as \<le> 32 \<and> distinct (pid # map pa_pid as) \<and> 0 \<notin> set (map pa_pid as)"
  using ancestry_shape [of fs pid s] by (simp add: Let_def MAX_ANCESTRY_DEPTH_def)

text \<open>C30. A peer is released for authorization exactly when its process is visible in the agent's pid
  namespace and the line that starts with Uid: of its status file, as read after the rest of the
  context, has the effective uid of the kernel's credential as its first or second number. The context
  released is the one collected.\<close>

theorem peer_released_exactly:
  assumes "0 \<le> raw_pid" and "raw_pid < 2 ^ 31"
    and "run_state (collect_execution_context fs (of_int raw_pid)) s = (obs, s1)"
  shows "\<exists>peer. fst (run_state (collect_peer_context fs (Inr (raw_pid, uid, gid))) s) = Inr peer \<and>
    (authorizable peer \<noteq> None \<longleftrightarrow>
       raw_pid \<noteq> 0 \<and>
       (\<exists>raw line word.
          fst (run_state (fs_read fs (proc_path (of_int raw_pid) ''status'')) s1) = Inr raw \<and>
          find (starts_with ''Uid:'') (text_lines raw) = Some line \<and>
          word \<in> set (take 2 (drop 1 (split_whitespace line))) \<and> parse_u32 word = Some uid)) \<and>
    (\<forall>obs'. authorizable peer = Some obs' \<longrightarrow> obs' = obs)"
proof (cases "raw_pid = 0")
  case True
  then show ?thesis
    using assms by (simp add: collect_peer_context_def Let_def)
next
  case False
  let ?pid = "of_int raw_pid :: u32"
  have pid: "?pid \<noteq> 0"
    using assms(1,2) False by (simp add: word_of_int_eq_0_iff zdvd_not_zless)
  let ?ids = "fst (run_state (read_status_ids fs ?pid ''Uid:'') s1)"
  have id_word: "trusted_value (status_id debug label line (nth_option xs i) which) = Some uid \<longleftrightarrow>
      i < length xs \<and> parse_u32 (xs ! i) = Some uid" for debug label line xs i which
    by (auto simp: status_id_def nth_option_def parse_u32_or_def ok_or_def split: option.splits)
  have two: "word \<in> set (take 2 xs) \<longleftrightarrow> (0 < length xs \<and> word = xs ! 0) \<or> (1 < length xs \<and> word = xs ! 1)"
    for word and xs :: "string list"
    by (cases xs; cases "tl xs") auto
  have "(trusted_value (fst ?ids) = Some uid \<or> trusted_value (snd ?ids) = Some uid) \<longleftrightarrow>
      (\<exists>raw line word. fst (run_state (fs_read fs (proc_path ?pid ''status'')) s1) = Inr raw \<and>
          find (starts_with ''Uid:'') (text_lines raw) = Some line \<and>
          word \<in> set (take 2 (drop 1 (split_whitespace line))) \<and> parse_u32 word = Some uid)"
    by (auto simp: read_status_ids_def split_beta status_ids_from_text_def Let_def id_word two
        simp del: One_nat_def split: sum.splits option.splits)
  then show ?thesis
    using assms pid False
    by (auto simp: collect_peer_context_def Let_def authorizable_observation from_kernel_def split_beta)
qed

lemma peer_released_exactly_witness:
  "\<exists>peer. fst (run_state (collect_peer_context (demo_fs [] (''Uid: 5 6'' @ [newline])) (Inr (7, 6, 6))) ()) = Inr peer \<and>
     authorizable peer \<noteq> None"
proof -
  let ?fs = "demo_fs [] (''Uid: 5 6'' @ [newline])"
  obtain obs where obs: "run_state (collect_execution_context ?fs (of_int 7)) () = (obs, ())"
    by (cases "run_state (collect_execution_context ?fs (of_int 7)) ()") auto
  have "text_lines (''Uid: 5 6'' @ [newline]) = [''Uid: 5 6'']"
    by (simp add: text_lines_def newline_def strip_cr_def)
  moreover have "split_whitespace ''Uid: 5 6'' = [''Uid:'', ''5'', ''6'']"
    by (simp add: split_whitespace_def ascii_space_def)
  moreover have "parse_u32 ''6'' = Some 6"
    by (simp add: parse_u32_def parse_unsigned_def digit_val_def)
  moreover have "fst (run_state (fs_read ?fs (proc_path (of_int 7) ''status'')) ()) = Inr (''Uid: 5 6'' @ [newline])"
    by (simp add: demo_fs_def proc_path_def)
  ultimately show ?thesis
    using peer_released_exactly [OF _ _ obs, of 6 6] by (simp add: starts_with_def) blast
qed

section \<open>The identity of the agent instance\<close>

text \<open>\<open>issuer_instance_id\<close> with the collector of this platform.\<close>

definition linux_issuer_instance_id ::
  "'w proc_fs \<Rightarrow> u32 \<Rightarrow> ('w, (instance_id_error, issuer_instance_id) result) state" where
  "linux_issuer_instance_id fs pid =
     do {
       identity \<leftarrow> collect_workload_identity fs pid;
       State_Monad.return (issuer_instance_id_of (\<lambda>_. identity) pid)
     }"

lemma instance_ids_distinct:
  assumes "issuer_instance_id_of c pid = Inr i" and "issuer_instance_id_of c' pid' = Inr i"
  shows "pid = pid' \<and> evidence_value (wi_process_start (c pid)) = evidence_value (wi_process_start (c' pid'))"
proof -
  obtain t t' where t: "evidence_value (wi_process_start (c pid)) = Some t"
      "evidence_value (wi_process_start (c' pid')) = Some t'"
    and i: "i = ''agent-pid-'' @ u32_to_string pid @ ''-start-'' @ u64_to_string t"
      "i = ''agent-pid-'' @ u32_to_string pid' @ ''-start-'' @ u64_to_string t'"
    using assms by (auto simp: issuer_instance_id_of_def split: evidence.splits)
  have minus: "CHR ''-'' \<notin> set (dec_of_nat n)" for n
    using digit_val_dec_of_nat [of "CHR ''-''" n] by (auto simp: digit_val_def)
  let ?cut = "split_once (CHR ''-'')"
  have "?cut (u32_to_string pid @ CHR ''-'' # ''start-'' @ u64_to_string t) =
      Some (u32_to_string pid, ''start-'' @ u64_to_string t)"
    "?cut (u32_to_string pid' @ CHR ''-'' # ''start-'' @ u64_to_string t') =
      Some (u32_to_string pid', ''start-'' @ u64_to_string t')"
    unfolding split_once_Some by (simp_all add: minus u32_to_string_def)
  then have "u32_to_string pid = u32_to_string pid'" and "u64_to_string t = u64_to_string t'"
    using i by auto
  then show ?thesis
    using t by (metis option.inject parse_u32_to_string u64_to_string_inject)
qed

end
