(* ===== verification/Eltanin_Macos.thy ===== *)
theory Eltanin_Macos
  imports Eltanin_Linux
begin

text \<open>
  Models the crate \<open>crates/eltanin-macos\<close> (\<open>lib.rs\<close>, the collector over \<open>libproc\<close>, and \<open>peer.rs\<close>,
  which combines the two socket options of macOS). As for Linux a collector is a state transformer, and
  what \<open>libproc\<close> reports may change between any two calls; the two calls of \<open>libproc\<close> are the fields of
  the record \<open>libproc\<close>. The notion of evidence from the kernel is the one of \<open>Eltanin_Linux\<close>.
\<close>

section \<open>The operating system\<close>

record bsd_info =
  pbi_ppid :: u32
  pbi_uid :: u32
  pbi_ruid :: u32
  pbi_rgid :: u32
  pbi_start_tvsec :: u64
  pbi_start_tvusec :: u64

record 'w libproc =
  lp_pidinfo :: "int \<Rightarrow> ('w, (string, bsd_info) result) state"
  lp_pidpath :: "int \<Rightarrow> ('w, (string, string) result) state"

text \<open>\<open>i32::try_from\<close> of a process identifier, with the reason the code gives.\<close>

definition signed_pid :: "u32 \<Rightarrow> (string, int) result" where
  "signed_pid pid =
     (if unat pid < 2 ^ 31 then Inr (int (unat pid))
      else Inl (''pid '' @ u32_to_string pid @ '' out of range: out of range integral type conversion attempted''))"

definition mac_bsd_info :: "'w libproc \<Rightarrow> u32 \<Rightarrow> ('w, (string, bsd_info) result) state" where
  "mac_bsd_info lp pid =
     (case signed_pid pid of
        Inl e \<Rightarrow> State_Monad.return (Inl e)
      | Inr p \<Rightarrow> lp_pidinfo lp p)"

text \<open>\<open>u64::saturating_mul\<close> and \<open>u64::saturating_add\<close>.\<close>

definition u64_saturate :: "nat \<Rightarrow> u64" where
  "u64_saturate n = (if n < 2 ^ 64 then of_nat n else - 1)"

definition mac_process_start :: "bsd_info \<Rightarrow> process_start_token evidence" where
  "mac_process_start info =
     Present (u64_saturate (unat (u64_saturate (unat (pbi_start_tvsec info) * 10 ^ 6)) + unat (pbi_start_tvusec info)))
       KernelObserved"

definition mac_executable_path :: "'w libproc \<Rightarrow> u32 \<Rightarrow> ('w, string evidence) state" where
  "mac_executable_path lp pid =
     (case signed_pid pid of
        Inl e \<Rightarrow> State_Monad.return (Missing e)
      | Inr p \<Rightarrow>
          do {
            path \<leftarrow> lp_pidpath lp p;
            State_Monad.return
              (case path of
                 Inr value \<Rightarrow> Present value KernelObserved
               | Inl e \<Rightarrow> Missing (''proc_pidpath('' @ u32_to_string pid @ ''): '' @ e))
          })"

definition mac_executable_hash :: "u32 \<Rightarrow> string evidence" where
  "mac_executable_hash pid = Missing ''executable hashing not implemented by this collector''"

definition MAC_MAX_ANCESTRY_DEPTH :: nat where "MAC_MAX_ANCESTRY_DEPTH = 32"

fun mac_ancestry_loop ::
  "'w libproc \<Rightarrow> nat \<Rightarrow> u32 set \<Rightarrow> u32 \<Rightarrow> process_ancestor list \<Rightarrow> ('w, process_ancestor list) state"
where
  "mac_ancestry_loop lp 0 seen current out = State_Monad.return out"
| "mac_ancestry_loop lp (Suc n) seen current out =
     do {
       found \<leftarrow> mac_bsd_info lp current;
       (case found of
          Inl _ \<Rightarrow> State_Monad.return out
        | Inr info \<Rightarrow>
            (let parent = pbi_ppid info
             in if parent = 0 \<or> parent \<in> seen then State_Monad.return out
                else
                  do {
                    parent_info \<leftarrow> mac_bsd_info lp parent;
                    path \<leftarrow> mac_executable_path lp parent;
                    mac_ancestry_loop lp n (insert parent seen) parent
                      (out @ [\<lparr>pa_pid = parent,
                               pa_start =
                                 (case parent_info of
                                    Inr i \<Rightarrow> mac_process_start i
                                  | Inl _ \<Rightarrow>
                                      Missing (''proc_pidinfo('' @ u32_to_string parent @
                                               '') failed while walking ancestry'')),
                               pa_executable_path = path\<rparr>])
                  }))
     }"

definition mac_ancestry :: "'w libproc \<Rightarrow> u32 \<Rightarrow> ('w, process_ancestor list) state" where
  "mac_ancestry lp start_pid = mac_ancestry_loop lp MAC_MAX_ANCESTRY_DEPTH {start_pid} start_pid []"

section \<open>The collectors\<close>

definition mac_collect_workload_identity :: "'w libproc \<Rightarrow> u32 \<Rightarrow> ('w, workload_identity) state" where
  "mac_collect_workload_identity lp pid =
     do {
       found \<leftarrow> mac_bsd_info lp pid;
       (case found of
          Inr info \<Rightarrow>
            do {
              path \<leftarrow> mac_executable_path lp pid;
              ancestors \<leftarrow> mac_ancestry lp pid;
              State_Monad.return
                \<lparr>wi_pid = pid, wi_process_start = mac_process_start info,
                 wi_uid = Present (pbi_ruid info) KernelObserved,
                 wi_gid = Present (pbi_rgid info) KernelObserved, wi_executable_path = path,
                 wi_executable_hash = mac_executable_hash pid, wi_ancestry = ancestors\<rparr>
            }
        | Inl reason \<Rightarrow>
            do {
              path \<leftarrow> mac_executable_path lp pid;
              State_Monad.return
                \<lparr>wi_pid = pid, wi_process_start = Missing reason, wi_uid = Missing reason,
                 wi_gid = Missing reason, wi_executable_path = path,
                 wi_executable_hash = mac_executable_hash pid, wi_ancestry = []\<rparr>
            })
     }"

definition mac_collect_execution_context :: "'w libproc \<Rightarrow> u32 \<Rightarrow> ('w, execution_context) state" where
  "mac_collect_execution_context lp pid =
     do {
       workload \<leftarrow> mac_collect_workload_identity lp pid;
       State_Monad.return
         \<lparr>ec_workload = workload, ec_cgroup_path = EvidenceUnsupported,
          ec_namespace_hint = EvidenceUnsupported, ec_container_hint = EvidenceUnsupported,
          ec_session_origin = EvidenceUnsupported\<rparr>
     }"

text \<open>On every other system nothing is collected.\<close>

definition mac_unsupported_workload_identity :: "u32 \<Rightarrow> workload_identity" where
  "mac_unsupported_workload_identity pid =
     \<lparr>wi_pid = pid, wi_process_start = EvidenceUnsupported, wi_uid = EvidenceUnsupported,
      wi_gid = EvidenceUnsupported, wi_executable_path = EvidenceUnsupported,
      wi_executable_hash = EvidenceUnsupported, wi_ancestry = []\<rparr>"

definition mac_unsupported_execution_context :: "u32 \<Rightarrow> execution_context" where
  "mac_unsupported_execution_context pid =
     \<lparr>ec_workload = mac_unsupported_workload_identity pid, ec_cgroup_path = EvidenceUnsupported,
      ec_namespace_hint = EvidenceUnsupported, ec_container_hint = EvidenceUnsupported,
      ec_session_origin = EvidenceUnsupported\<rparr>"

section \<open>The peer of a connection\<close>

record xucred =
  xu_version :: u32
  xu_uid :: u32
  xu_groups :: "u32 list"

definition read_uids :: "'w libproc \<Rightarrow> u32 \<Rightarrow> ('w, u32 evidence \<times> u32 evidence) state" where
  "read_uids lp pid =
     (case signed_pid pid of
        Inl reason \<Rightarrow> State_Monad.return (Missing reason, Missing reason)
      | Inr p \<Rightarrow>
          do {
            found \<leftarrow> lp_pidinfo lp p;
            State_Monad.return
              (case found of
                 Inr info \<Rightarrow> (Present (pbi_ruid info) KernelObserved, Present (pbi_uid info) KernelObserved)
               | Inl e \<Rightarrow>
                   (let reason = ''proc_pidinfo('' @ u32_to_string pid @ ''): '' @ e
                    in (Missing reason, Missing reason)))
          })"

text \<open>The outcomes of the two socket options are arguments, as is the version of the structure the code
  was built for.\<close>

definition mac_collect_peer_context ::
  "'w libproc \<Rightarrow> u32 \<Rightarrow> (string, xucred) result \<Rightarrow> (string, int) result \<Rightarrow>
     ('w, (peer_credential_error, peer_context) result) state" where
  "mac_collect_peer_context lp XUCRED_VERSION peercred peerpid =
     (case peercred of
        Inl e \<Rightarrow> State_Monad.return (Inl (CredentialIo (''LOCAL_PEERCRED: '' @ e)))
      | Inr xucred \<Rightarrow>
          if xu_version xucred \<noteq> XUCRED_VERSION then
            State_Monad.return (Inl (CredentialIo
              (''LOCAL_PEERCRED returned unexpected xucred version '' @ u32_to_string (xu_version xucred) @
               '' (expected '' @ u32_to_string XUCRED_VERSION @ '')'')))
          else
            (case xu_groups xucred of
               [] \<Rightarrow>
                 State_Monad.return (Inl (CredentialIo
                   ''LOCAL_PEERCRED returned an empty group list; no effective gid available''))
             | effective_gid # _ \<Rightarrow>
                 (case peerpid of
                    Inl e \<Rightarrow> State_Monad.return (Inl (CredentialIo (''LOCAL_PEERPID: '' @ e)))
                  | Inr peer_pid \<Rightarrow>
                      if peer_pid \<le> 0 then
                        do {
                          observed \<leftarrow> mac_collect_execution_context lp 0;
                          State_Monad.return
                            (Inr (peer_unmapped (from_kernel 0 (xu_uid xucred) effective_gid) observed))
                        }
                      else
                        (let pid = (if peer_pid < 2 ^ 32 then of_int peer_pid else 0)
                         in do {
                              observed \<leftarrow> mac_collect_execution_context lp pid;
                              ids \<leftarrow> read_uids lp pid;
                              State_Monad.return
                                (Inr (from_kernel_observation (from_kernel pid (xu_uid xucred) effective_gid)
                                        observed (fst ids) (snd ids)))
                            }))))"

text \<open>On every other system there is no peer.\<close>

definition mac_unsupported_peer_context :: "(peer_credential_error, peer_context) result" where
  "mac_unsupported_peer_context = Inl UnsupportedPlatform"

section \<open>What the collectors return\<close>

lemma mac_process_start_kernel [simp]: "from_kernel_only (mac_process_start info)"
  by (simp add: mac_process_start_def)

lemma mac_executable_path_kernel [simp]:
  "from_kernel_only (fst (run_state (mac_executable_path lp pid) s))"
  by (simp add: mac_executable_path_def split_beta split: sum.split)

text \<open>The walk over the readers of macOS.\<close>

definition mac_parent :: "'w libproc \<Rightarrow> u32 \<Rightarrow> ('w, u32 option) state" where
  "mac_parent lp pid =
     do {
       found \<leftarrow> mac_bsd_info lp pid;
       State_Monad.return (map_option pbi_ppid (result_ok found))
     }"

definition mac_ancestor_start :: "'w libproc \<Rightarrow> u32 \<Rightarrow> ('w, process_start_token evidence) state" where
  "mac_ancestor_start lp pid =
     do {
       found \<leftarrow> mac_bsd_info lp pid;
       State_Monad.return
         (case found of
            Inr i \<Rightarrow> mac_process_start i
          | Inl _ \<Rightarrow>
              Missing (''proc_pidinfo('' @ u32_to_string pid @ '') failed while walking ancestry''))
     }"

interpretation macos: kernel_readers "mac_parent lp" "mac_ancestor_start lp" "mac_executable_path lp" for lp
  by unfold_locales (simp_all add: mac_ancestor_start_def split_beta split: sum.split)

lemma mac_ancestry_loop_walk:
  "mac_ancestry_loop lp n seen current out =
     ancestor_walk (mac_parent lp) (mac_ancestor_start lp) (mac_executable_path lp) n seen current out"
proof (induction n arbitrary: seen current out)
  case (Suc n)
  show ?case
    by (rule state_ext)
       (auto simp: mac_parent_def mac_ancestor_start_def Suc.IH split_beta Let_def split: sum.splits)
qed simp

lemma mac_ancestry_shape:
  "let as = fst (run_state (mac_ancestry lp pid) s)
   in length as \<le> MAC_MAX_ANCESTRY_DEPTH \<and> distinct (pid # map pa_pid as) \<and> 0 \<notin> set (map pa_pid as) \<and>
      (\<forall>a\<in>set as. from_kernel_only (pa_start a) \<and> from_kernel_only (pa_executable_path a))"
  unfolding mac_ancestry_def mac_ancestry_loop_walk by (rule macos.walk_from_self)

lemma mac_context_shape:
  "let ctx = fst (run_state (mac_collect_execution_context lp pid) s)
   in context_from_kernel ctx \<and> wi_pid (ec_workload ctx) = pid \<and>
      length (wi_ancestry (ec_workload ctx)) \<le> MAC_MAX_ANCESTRY_DEPTH"
proof -
  obtain found s1 where info: "run_state (mac_bsd_info lp pid) s = (found, s1)" by fastforce
  obtain path s2 where path: "run_state (mac_executable_path lp pid) s1 = (path, s2)" by fastforce
  obtain as s3 where as: "run_state (mac_ancestry lp pid) s2 = (as, s3)" by fastforce
  have "from_kernel_only path"
    using mac_executable_path_kernel [of lp pid s1] path by simp
  then show ?thesis
    using mac_ancestry_shape [of lp pid s2]
    by (cases found) (simp_all add: mac_collect_execution_context_def mac_collect_workload_identity_def
        info path as Let_def context_from_kernel_def mac_executable_hash_def)
qed

section \<open>Properties\<close>

text \<open>On macOS too every field of the context of a peer is evidence the kernel gave or explicitly
  missing, and the ancestry is bounded. A peer is released for authorization only if its process
  identifier was read and is positive, the structure of the credential has the expected version, and
  the effective uid fixed at the connection is the real or the effective uid that libproc reports
  for that process afterwards; so a descriptor handed to a process of another user is refused.\<close>

theorem macos_peer_from_kernel:
  assumes "run_state (mac_collect_peer_context lp version peercred peerpid) s = (Inr peer, s')"
  shows "context_from_kernel (pc_observed peer) \<and> length (wi_ancestry (ec_workload (pc_observed peer))) \<le> 32 \<and>
    (authorizable peer \<noteq> None \<longrightarrow>
       (\<exists>cred pid s1 info.
          peercred = Inr cred \<and> xu_version cred = version \<and> peerpid = Inr pid \<and> 0 < pid \<and>
          fst (run_state (lp_pidinfo lp (int (unat (cred_pid (pc_credential peer))))) s1) = Inr info \<and>
          (pbi_ruid info = xu_uid cred \<or> pbi_uid info = xu_uid cred) \<and>
          wi_pid (ec_workload (pc_observed peer)) = cred_pid (pc_credential peer)))"
proof -
  obtain cred gid gids pid where cred: "peercred = Inr cred" "xu_version cred = version"
      "xu_groups cred = gid # gids" and pid: "peerpid = Inr pid"
    using assms by (auto simp: mac_collect_peer_context_def split: sum.splits if_splits list.splits)
  show ?thesis
  proof (cases "pid \<le> 0")
    case True
    obtain obs s1 where obs: "run_state (mac_collect_execution_context lp 0) s = (obs, s1)" by fastforce
    then have "peer = peer_unmapped (from_kernel 0 (xu_uid cred) gid) obs"
      using assms by (simp add: mac_collect_peer_context_def cred pid True)
    then show ?thesis
      using mac_context_shape [of lp 0 s] obs
      by (simp add: Let_def MAC_MAX_ANCESTRY_DEPTH_def) (simp add: peer_unmapped_def)
  next
    case False
    let ?pid = "if pid < 2 ^ 32 then of_int pid else 0 :: u32"
    obtain obs s1 where obs: "run_state (mac_collect_execution_context lp ?pid) s = (obs, s1)" by fastforce
    obtain ids s2 where ids: "run_state (read_uids lp ?pid) s1 = (ids, s2)" by fastforce
    have peer: "peer = from_kernel_observation (from_kernel ?pid (xu_uid cred) gid) obs (fst ids) (snd ids)"
      using assms False obs ids by (simp add: mac_collect_peer_context_def cred pid Let_def split: if_splits)
    have shape: "context_from_kernel obs" "wi_pid (ec_workload obs) = ?pid" "length (wi_ancestry (ec_workload obs)) \<le> 32"
      using mac_context_shape [of lp ?pid s] obs by (simp_all add: Let_def MAC_MAX_ANCESTRY_DEPTH_def)
    have "\<exists>info. fst (run_state (lp_pidinfo lp (int (unat ?pid))) s1) = Inr info \<and>
        (pbi_ruid info = xu_uid cred \<or> pbi_uid info = xu_uid cred)"
      if "authorizable peer \<noteq> None"
    proof -
      have "trusted_value (fst ids) = Some (xu_uid cred) \<or> trusted_value (snd ids) = Some (xu_uid cred)"
        using that by (auto simp: peer authorizable_observation from_kernel_def)
      moreover have "ids = fst (run_state (read_uids lp ?pid) s1)" using ids by simp
      ultimately show ?thesis
        unfolding read_uids_def signed_pid_def
        by (auto simp: split_beta Let_def split: if_splits sum.splits)
    qed
    then show ?thesis
      using shape cred pid False by (auto simp: peer from_kernel_observation_def from_kernel_def)
  qed
qed

text \<open>A process 7 of the user 5, which runs with the effective uid 6, and its parent 1.\<close>

definition demo_libproc :: "unit libproc" where
  "demo_libproc =
     \<lparr>lp_pidinfo = (\<lambda>p. State_Monad.return
        (if p = 7 then Inr \<lparr>pbi_ppid = 1, pbi_uid = 6, pbi_ruid = 5, pbi_rgid = 5,
                            pbi_start_tvsec = 1000, pbi_start_tvusec = 17\<rparr>
         else Inl ''no such process'')),
      lp_pidpath = (\<lambda>_. State_Monad.return (Inr ''/bin/sh''))\<rparr>"

lemma macos_peer_from_kernel_witness:
  "\<exists>peer. fst (run_state (mac_collect_peer_context demo_libproc 0
       (Inr \<lparr>xu_version = 0, xu_uid = 6, xu_groups = [20]\<rparr>) (Inr 7)) ()) = Inr peer \<and>
     authorizable peer \<noteq> None \<and> context_from_kernel (pc_observed peer) \<and>
     wi_pid (ec_workload (pc_observed peer)) = 7"
proof -
  let ?run = "run_state (mac_collect_peer_context demo_libproc 0
       (Inr \<lparr>xu_version = 0, xu_uid = 6, xu_groups = [20]\<rparr>) (Inr 7)) ()"
  obtain obs where obs: "run_state (mac_collect_execution_context demo_libproc 7) () = (obs, ())"
    by (cases "run_state (mac_collect_execution_context demo_libproc 7) ()") auto
  let ?peer = "from_kernel_observation (from_kernel 7 6 20) obs (Present 5 KernelObserved) (Present 6 KernelObserved)"
  have run: "?run = (Inr ?peer, ())"
    using obs by (simp add: mac_collect_peer_context_def Let_def read_uids_def signed_pid_def demo_libproc_def)
  have released: "authorizable ?peer \<noteq> None"
    by (simp add: authorizable_observation from_kernel_def)
  have "pc_credential ?peer = from_kernel 7 6 20" by (simp add: from_kernel_observation_def)
  then show ?thesis
    using macos_peer_from_kernel [OF run] run released by (auto simp: from_kernel_def)
qed

end
