(* ===== verification/Eltanin_System.thy ===== *)
theory Eltanin_System
  imports Eltanin_Connection Eltanin_Macos Eltanin_Audit
begin

text \<open>
  Puts the parts of the agent together: a connection whose peer is derived by the collector of the
  platform (\<open>OsPeerContextSource\<close> of \<open>crates/eltanin-agent/src/peer.rs\<close> in \<open>serve_connection\<close> of
  \<open>connection.rs\<close>), and the handler with the audit sink it records its events in (\<open>handle\<close> of
  \<open>authz/mod.rs\<close>, \<open>AuditEventSink\<close> of \<open>authz/audit.rs\<close>). The laws of a collector are the locale
  \<open>peer_source\<close>, which both platforms satisfy.
\<close>

section \<open>A connection of the agent\<close>

definition serve_peer ::
  "serde_json \<Rightarrow> ('w, (peer_credential_error, peer_context) result) state \<Rightarrow> read_event list \<Rightarrow>
     ('s \<Rightarrow> client_request \<Rightarrow> peer_context \<Rightarrow> agent_response option \<times> 's) \<Rightarrow> 's \<Rightarrow> 'w \<Rightarrow>
     (u8 list option \<times> 's) \<times> 'w" where
  "serve_peer sj derive events handler st w =
     (let (derived, w') = run_state derive w
      in (serve_connection sj True derived events handler st, w'))"

lemma serve_connection_changes:
  assumes "serve_connection sj t derived events handler st = (out, st')" and "st' \<noteq> st"
  shows "\<exists>peer body envelope.
    derived = Inr peer \<and> fst (read_frame events) = FrameOk body \<and> decode_request sj body = Inr envelope \<and>
    st' = snd (handler st (rqb_body (v_payload envelope)) peer) \<and>
    (\<forall>answer. fst (handler st (rqb_body (v_payload envelope)) peer) = Some answer \<longrightarrow>
       out = send sj (Some (rqb_request_id (v_payload envelope))) answer)"
  using assms
  by (auto simp: serve_connection_def Let_def split_beta
      split: if_splits sum.splits frame_read.splits protocol_error.splits framing_error.splits)

section \<open>New leases\<close>

text \<open>How a lease gets into the store: by a request that was granted it.\<close>

lemma request_new_lease:
  assumes "(lid, l) \<in> set (ls_leases (fst (snd (handle_request_lease h ops now reply_now rq peer st))))"
    and "(lid, l) \<notin> set (ls_leases (fst st))"
  shows "\<exists>obs. authorizable peer = Some obs \<and> cl_origin l = provenance_for rq obs \<and> lease_justified h l \<and>
    fst (handle_request_lease h ops now reply_now rq peer st) =
      (Granted lid (cl_expires_at l),
       LeaseGranted \<lparr>lv_lease_id = lid, lv_remaining = unat (cl_expires_at l) - unat reply_now\<rparr>)"
proof (cases "authorizable peer")
  case None
  then show ?thesis using assms by (simp add: handle_request_lease_def)
next
  case (Some obs)
  show ?thesis
  proof (cases rule: issue_cap_cases [of h now "provenance_for rq obs" "fst st"])
    case (fail f)
    then show ?thesis using assms by (simp add: handle_request_lease_def Some prune_def)
  next
    case (issued new)
    have origin: "cl_origin new = provenance_for rq obs" "lease_justified h new"
      using issued issue_cap_justified [OF issued] by (auto simp: issue_cap_Inr issue_Inr_iff)
    let ?r = "fst (bo_enforce ops (snd st) (prov_request (cl_origin new)))"
    show ?thesis
    proof (cases "?r = Inr Allowed \<and> reply_now < cl_expires_at new")
      case True
      then have "(lid, l) = (cl_id new, new)"
        using assms issued
        by (auto simp: handle_request_lease_def Some Let_def split_beta finish_request_simps prune_def
            dest: set_update_subset [THEN subsetD])
      then show ?thesis
        using True issued origin
        by (simp add: handle_request_lease_def Some Let_def split_beta finish_request_simps)
    next
      case False
      then show ?thesis
        using assms issued
        by (auto simp: handle_request_lease_def Some Let_def split_beta finish_request_cases prune_def)
    qed
  qed
qed

lemma handle_event:
  "ev_outcome (fst (snd (handle h ops now reply_now request peer st))) =
     (case request of
        AgentStatus \<Rightarrow> StatusReported
      | RequestLease r \<Rightarrow> fst (fst (handle_request_lease h ops now reply_now r peer st))
      | ReleaseLease r \<Rightarrow> fst (fst (handle_release_lease ops now r peer st)))"
  "ev_request (fst (snd (handle h ops now reply_now request peer st))) = request"
  "ev_peer (fst (snd (handle h ops now reply_now request peer st))) = peer"
  "ev_response (fst (snd (handle h ops now reply_now request peer st))) =
     fst (handle h ops now reply_now request peer st)"
  by (simp_all add: handle_def handle_status_def Let_def split_beta split: client_request.splits)

lemma handle_new_lease:
  assumes "(lid, l) \<in> set (ls_leases (fst (snd (snd (handle h ops now reply_now request peer st)))))"
    and "(lid, l) \<notin> set (ls_leases (fst st))"
  shows "\<exists>rq obs. request = RequestLease rq \<and> authorizable peer = Some obs \<and>
    cl_origin l = provenance_for rq obs \<and> lease_justified h l \<and>
    fst (handle h ops now reply_now request peer st) =
      LeaseGranted \<lparr>lv_lease_id = lid, lv_remaining = unat (cl_expires_at l) - unat reply_now\<rparr> \<and>
    ev_outcome (fst (snd (handle h ops now reply_now request peer st))) = Granted lid (cl_expires_at l)"
proof (cases request)
  case (RequestLease rq)
  then show ?thesis
    using request_new_lease [of lid l h ops now reply_now rq peer st] assms
    by (auto simp: handle_state handle_response handle_event)
next
  case (ReleaseLease rr)
  then show ?thesis
    using assms handle_release_lease_leases [of lid l ops now rr peer st] by (simp add: handle_state)
qed (use assms in \<open>simp add: handle_state\<close>)

section \<open>Where the evidence comes from\<close>

text \<open>A condition that a value of the kernel satisfies. No collector computes the hash of an executable,
  so a condition on it is never satisfied.\<close>

fun kernel_satisfied :: "condition \<Rightarrow> execution_context \<Rightarrow> bool" where
  "kernel_satisfied (CondUid m) ctx \<longleftrightarrow> wi_uid (ec_workload ctx) = Present (em_expected m) KernelObserved"
| "kernel_satisfied (CondGid m) ctx \<longleftrightarrow> wi_gid (ec_workload ctx) = Present (em_expected m) KernelObserved"
| "kernel_satisfied (CondExecutablePath m) ctx \<longleftrightarrow>
     wi_executable_path (ec_workload ctx) = Present (em_expected m) KernelObserved"
| "kernel_satisfied (CondExecutableHash m) ctx \<longleftrightarrow> False"
| "kernel_satisfied (CondCgroupPath m) ctx \<longleftrightarrow> ec_cgroup_path ctx = Present (em_expected m) KernelObserved"

lemma kernel_satisfied:
  assumes "context_from_kernel ctx" and "\<not> is_present (wi_executable_hash (ec_workload ctx))"
    and "condition_satisfied c ctx"
  shows "kernel_satisfied c ctx"
  using assms by (cases c) (auto simp: context_from_kernel_def from_kernel_only_def Let_def)

locale peer_source =
  fixes derive :: "('w, (peer_credential_error, peer_context) result) state"
  assumes kernel: "fst (run_state derive w) = Inr peer \<Longrightarrow> context_from_kernel (pc_observed peer)"
    and no_hash: "fst (run_state derive w) = Inr peer \<Longrightarrow>
      \<not> is_present (wi_executable_hash (ec_workload (pc_observed peer)))"
    and same_process: "fst (run_state derive w) = Inr peer \<Longrightarrow>
      wi_pid (ec_workload (pc_observed peer)) = cred_pid (pc_credential peer)"
begin

lemma allowed_by_kernel_evidence:
  assumes "from_document d = Inr policy" and "fst (run_state derive w) = Inr peer"
    and "pd_effect (policy_evaluate policy (pc_observed peer) request) = Allow"
  shows "\<exists>r\<in>set (doc_rules d). rule_effect r = Allow \<and> rule_resource r = cr_resource request \<and>
    rule_conditions r \<noteq> [] \<and> (\<forall>c\<in>set (rule_conditions r). kernel_satisfied c (pc_observed peer))"
proof -
  have d: "ps_document policy = d" and ok: "check_rules {} (doc_rules d) = Inr ()"
    using assms(1) by (auto simp: from_document_Inr_iff)
  from assms(3) obtain r where r: "r \<in> set (doc_rules d)" "rule_effect r = Allow"
      "rule_applies r request" "\<forall>c\<in>set (rule_conditions r). condition_satisfied c (pc_observed peer)"
    by (auto simp: evaluate_Allow_iff d)
  moreover have "rule_conditions r \<noteq> []"
    using ok r(1,2) by (auto simp: check_rules_well_formed)
  ultimately show ?thesis
    using kernel_satisfied [OF kernel [OF assms(2)] no_hash [OF assms(2)]]
    by (auto simp: rule_applies_def)
qed

lemma new_lease_reasons:
  assumes "from_document d = Inr (ah_policy h)"
    and "serve_peer sj derive events
      (\<lambda>st r p. map_prod Some id (authorization_serve h ops now reply_now st r p)) st w = ((out, st'), w')"
    and "(lid, l) \<in> set (ls_leases (fst st'))" and "(lid, l) \<notin> set (ls_leases (fst st))"
  shows "\<exists>peer body envelope rq.
    fst (run_state derive w) = Inr peer \<and> authorizable peer = Some (pc_observed peer) \<and>
    wi_pid (ec_workload (pc_observed peer)) = cred_pid (pc_credential peer) \<and>
    fst (read_frame events) = FrameOk body \<and> decode_request sj body = Inr envelope \<and>
    rqb_body (v_payload envelope) = RequestLease rq \<and> cl_origin l = provenance_for rq (pc_observed peer) \<and>
    out = send sj (Some (rqb_request_id (v_payload envelope)))
      (LeaseGranted \<lparr>lv_lease_id = lid, lv_remaining = unat (cl_expires_at l) - unat reply_now\<rparr>) \<and>
    (\<exists>r\<in>set (doc_rules d). rule_effect r = Allow \<and> rule_resource r = lr_resource rq \<and>
       rule_conditions r \<noteq> [] \<and> (\<forall>c\<in>set (rule_conditions r). kernel_satisfied c (pc_observed peer)))"
proof -
  have served: "serve_connection sj True (fst (run_state derive w)) events
      (\<lambda>st r p. map_prod Some id (authorization_serve h ops now reply_now st r p)) st = (out, st')"
    using assms(2) by (simp add: serve_peer_def split_beta)
  moreover have "st' \<noteq> st" using assms(3,4) by auto
  ultimately obtain peer body envelope where peer: "fst (run_state derive w) = Inr peer"
    and frame: "fst (read_frame events) = FrameOk body" "decode_request sj body = Inr envelope"
    and st': "st' = snd (authorization_serve h ops now reply_now st (rqb_body (v_payload envelope)) peer)"
    and out: "out = send sj (Some (rqb_request_id (v_payload envelope)))
      (fst (authorization_serve h ops now reply_now st (rqb_body (v_payload envelope)) peer))"
    using serve_connection_changes [OF served] by (auto simp: map_prod_def split_beta)
  obtain rq obs where rq: "rqb_body (v_payload envelope) = RequestLease rq" "authorizable peer = Some obs"
      "cl_origin l = provenance_for rq obs" "lease_justified h l"
    and granted: "fst (handle h ops now reply_now (rqb_body (v_payload envelope)) peer st) =
      LeaseGranted \<lparr>lv_lease_id = lid, lv_remaining = unat (cl_expires_at l) - unat reply_now\<rparr>"
    using handle_new_lease [of lid l h ops now reply_now "rqb_body (v_payload envelope)" peer st] assms(3,4)
    by (auto simp: st' authorization_serve_simps)
  have obs: "obs = pc_observed peer" using rq(2) by (simp add: authorizable_Some)
  have "pd_effect (policy_evaluate (ah_policy h) (pc_observed peer) (prov_request (cl_origin l))) = Allow"
    using rq(3,4) obs by (simp add: lease_justified_def Let_def provenance_for_def provenance_new_def)
  from allowed_by_kernel_evidence [OF assms(1) peer this]
  show ?thesis
    using peer frame rq granted obs out same_process [OF peer]
    by (auto simp: authorization_serve_simps provenance_for_def provenance_new_def)
qed

end

text \<open>The collectors of the two platforms satisfy the laws.\<close>

interpretation linux_peers: peer_source "collect_peer_context fs peercred" for fs peercred
proof unfold_locales
  fix w peer
  assume run: "fst (run_state (collect_peer_context fs peercred) w) = Inr peer"
  have "\<exists>pid s. pc_observed peer = fst (run_state (collect_execution_context fs pid) s) \<and>
      pid = cred_pid (pc_credential peer)"
    using run
    by (auto simp: collect_peer_context_def peer_unmapped_def from_kernel_observation_def from_kernel_def
        Let_def split_beta split: sum.splits prod.splits if_splits)
  then obtain pid s where obs: "pc_observed peer = fst (run_state (collect_execution_context fs pid) s)"
    and pid: "pid = cred_pid (pc_credential peer)" by blast
  show "context_from_kernel (pc_observed peer)"
    unfolding obs by (rule collected_context_from_kernel)
  show "wi_pid (ec_workload (pc_observed peer)) = cred_pid (pc_credential peer)"
    unfolding obs pid [symmetric] by (rule collected_context_pid)
  show "\<not> is_present (wi_executable_hash (ec_workload (pc_observed peer)))"
    using collect_workload_fields [of fs pid s]
    by (simp add: obs collect_execution_context_def split_beta Let_def executable_hash_def)
qed

lemma mac_context_hash:
  "\<not> is_present (wi_executable_hash (ec_workload (fst (run_state (mac_collect_execution_context lp pid) s))))"
  by (auto simp: mac_collect_execution_context_def mac_collect_workload_identity_def split_beta
      mac_executable_hash_def split: sum.split)

interpretation macos_peers: peer_source "mac_collect_peer_context lp version peercred peerpid"
  for lp version peercred peerpid
proof unfold_locales
  fix w peer
  assume run: "fst (run_state (mac_collect_peer_context lp version peercred peerpid) w) = Inr peer"
  have "\<exists>pid s. pc_observed peer = fst (run_state (mac_collect_execution_context lp pid) s) \<and>
      pid = cred_pid (pc_credential peer)"
    using run
    by (auto simp: mac_collect_peer_context_def peer_unmapped_def from_kernel_observation_def from_kernel_def
        Let_def split_beta split: sum.splits if_splits list.splits)
  then obtain pid s where obs: "pc_observed peer = fst (run_state (mac_collect_execution_context lp pid) s)"
    and pid: "pid = cred_pid (pc_credential peer)" by blast
  show "context_from_kernel (pc_observed peer)"
    and "wi_pid (ec_workload (pc_observed peer)) = cred_pid (pc_credential peer)"
    using mac_context_shape [of lp pid s] by (simp_all add: obs pid Let_def)
  show "\<not> is_present (wi_executable_hash (ec_workload (pc_observed peer)))"
    unfolding obs by (rule mac_context_hash)
qed

section \<open>Concrete inputs\<close>

text \<open>A process 7 of the user 5 that runs with the effective uid 6, and a policy that allows the user 5.\<close>

definition linux_demo_fs :: "unit proc_fs" where
  "linux_demo_fs = demo_fs [] (''Uid: 5 6'' @ [newline])"

definition linux_demo_document :: policy_document where
  "linux_demo_document = demo_document
     \<lparr>doc_rules := [demo_allow_rule
        \<lparr>rule_conditions := [CondUid \<lparr>em_expected = 5, em_min_trust = FloorKernelObserved\<rparr>]\<rparr>]\<rparr>"

definition linux_demo_handler :: authorization_handler where
  "linux_demo_handler = demo_handler\<lparr>ah_policy := \<lparr>ps_document = linux_demo_document\<rparr>\<rparr>"

definition linux_demo_json :: serde_json where
  "linux_demo_json = demo_json
     \<lparr>sj_request_from_slice := (\<lambda>b. Some (client_request_envelope 9 (RequestLease demo_lease_request)))\<rparr>"

lemma linux_demo_document_ok:
  "from_document linux_demo_document = Inr (ah_policy linux_demo_handler)"
  by (simp add: linux_demo_document_def linux_demo_handler_def demo_handler_def from_document_def eltanin_eval)

lemma linux_demo_status:
  "read_status_ids linux_demo_fs 7 ''Uid:'' =
     State_Monad.return (Present 5 KernelObserved, Present 6 KernelObserved)"
proof -
  have "text_lines (''Uid: 5 6'' @ [newline]) = [''Uid: 5 6'']"
    by (simp add: text_lines_def newline_def strip_cr_def)
  moreover have "split_whitespace ''Uid: 5 6'' = [''Uid:'', ''5'', ''6'']"
    by (simp add: split_whitespace_def ascii_space_def)
  moreover have "parse_u32 ''5'' = Some 5" "parse_u32 ''6'' = Some 6"
    by (simp_all add: parse_u32_def parse_unsigned_def digit_val_def)
  ultimately show ?thesis
    by (simp add: read_status_ids_def linux_demo_fs_def demo_fs_def proc_path_def status_ids_from_text_def
        starts_with_def status_id_def nth_option_def parse_u32_or_def)
qed

lemma linux_demo_observed:
  obtains peer where
    "run_state (collect_peer_context linux_demo_fs (Inr (7, 6, 6))) () = (Inr peer, ())"
    and "authorizable peer = Some (pc_observed peer)"
    and "wi_uid (ec_workload (pc_observed peer)) = Present 5 KernelObserved"
proof -
  obtain obs where obs: "run_state (collect_execution_context linux_demo_fs 7) () = (obs, ())"
    by (cases "run_state (collect_execution_context linux_demo_fs 7) ()") auto
  have uid: "wi_uid (ec_workload obs) = Present 5 KernelObserved"
    using obs linux_demo_status
    by (auto simp: collect_execution_context_def collect_workload_identity_def read_status_id_def split_beta)
  let ?peer = "from_kernel_observation (from_kernel 7 6 6) obs (Present 5 KernelObserved) (Present 6 KernelObserved)"
  have "run_state (collect_peer_context linux_demo_fs (Inr (7, 6, 6))) () = (Inr ?peer, ())"
    using obs by (simp add: collect_peer_context_def Let_def linux_demo_status)
  moreover have "pc_observed ?peer = obs" by (simp add: from_kernel_observation_def)
  ultimately show ?thesis
    using that [of ?peer] uid by (simp add: authorizable_observation from_kernel_def)
qed

lemma update_mem: "(k, v) \<in> set (AList.update k v m)"
  by (induction m) auto

text \<open>The first request of a released peer to a fresh agent.\<close>

lemma fresh_agent_new_lease:
  assumes "authorizable peer = Some obs"
    and "pd_effect (policy_evaluate (ah_policy h) obs demo_request) = Allow" and "ah_lease_ttl h = 30"
  obtains l where "(cl_id l, l) \<in> set (ls_leases (fst (snd (authorization_serve h fake_ops 100 110
    (demo_state, demo_backend) (RequestLease demo_lease_request) peer))))"
proof -
  let ?prov = "provenance_for demo_lease_request obs"
  have prov: "prov_request ?prov = demo_request" "prov_context ?prov = obs"
    by (simp_all add: provenance_for_def demo_lease_request_def demo_request_def)
  have "time_checked_add 100 30 = Some 130" by (simp add: time_checked_add_Some)
  then have "\<exists>l iss. issue (ls_issuer demo_state) (ah_policy h) ?prov 100 30 = (Inr l, iss) \<and>
      cl_expires_at l = 130 \<and> cl_origin l = ?prov"
    using assms(2)
    by (simp add: issue_Inr_iff prov demo_state_def state_new_def issuer_new_def)
  then obtain l iss where "issue (ls_issuer demo_state) (ah_policy h) ?prov 100 30 = (Inr l, iss)"
    and l: "cl_expires_at l = 130" "cl_origin l = ?prov" by blast
  moreover have "\<not> is_at_capacity (prune 100 demo_state)"
    by (simp add: is_at_capacity_def prune_def demo_state_def state_new_def)
  ultimately obtain ls1 where "issue_reserving_capacity h 100 ?prov demo_state = (Inr l, ls1)"
    using assms(3) by (auto simp: issue_cap_Inr)
  then show ?thesis
    using l by (intro that [of l])
      (simp add: authorization_serve_simps handle_state handle_request_lease_def assms(1) fake_ops_def
         prov demo_enforce finish_request_simps state_insert_def update_mem)
qed

section \<open>The agent and its audit trail\<close>

text \<open>One request with the record of its event: the wall clock and the outcome of the write come with the
  request.\<close>

type_synonym audited_call = "(wall_clock_time \<times> write_outcome) \<times> agent_call"

definition audited_handle ::
  "'v audit_json \<Rightarrow> authorization_handler \<Rightarrow> 'b backend_ops \<Rightarrow> audited_call \<Rightarrow>
     (lease_state \<times> 'b) \<times> audit_sink \<Rightarrow> (lease_state \<times> 'b) \<times> audit_sink" where
  "audited_handle j h ops call state =
     (case (call, state) of (((t, w), now, reply_now, request, peer), st, sink) \<Rightarrow>
        (let (response, event, st') = handle h ops now reply_now request peer st
         in (st', record_event j t w event sink)))"

fun audit_entries ::
  "authorization_handler \<Rightarrow> 'b backend_ops \<Rightarrow> audited_call list \<Rightarrow> lease_state \<times> 'b \<Rightarrow> append_call list"
where
  "audit_entries h ops [] st = []"
| "audit_entries h ops (((t, w), now, reply_now, request, peer) # calls) st =
     (t, w, recorded_entry (fst (snd (handle h ops now reply_now request peer st)))) #
       audit_entries h ops calls (agent_step h ops (now, reply_now, request, peer) st)"

lemma length_audit_entries [simp]: "length (audit_entries h ops calls st) = length calls"
  by (induction h ops calls st rule: audit_entries.induct) simp_all

lemma audited_history:
  "fold (audited_handle j h ops) calls (st, sink) =
     (fold (agent_step h ops) (map snd calls) st, sink_run j (audit_entries h ops calls st) sink)"
  by (induction h ops calls st arbitrary: sink rule: audit_entries.induct)
     (simp_all add: audited_handle_def agent_step_def record_event_def sink_run_def split_beta)

lemma audit_entries_outcomes:
  "c \<in> set (audit_entries h ops calls st) \<Longrightarrow> \<exists>t w e call. c = (t, w, e) \<and> ((t, w), call) \<in> set calls"
  by (induction h ops calls st rule: audit_entries.induct) fastforce+

text \<open>The event of a request names a grant exactly when the answer is one.\<close>

lemma handle_granted:
  "(\<exists>e. ev_outcome (fst (snd (handle h ops now reply_now request peer st))) = Granted lid e) \<longleftrightarrow>
   (\<exists>n. ev_response (fst (snd (handle h ops now reply_now request peer st))) =
      LeaseGranted \<lparr>lv_lease_id = lid, lv_remaining = n\<rparr>)"
proof -
  have failure: "fst (issue_failure_reply f) \<noteq> Granted lid e \<and> snd (issue_failure_reply f) \<noteq> LeaseGranted v"
    for f e v
    by (cases f) auto
  have finish: "(\<exists>e. fst (fst (finish_request reply_now l r ls)) = Granted lid e) \<longleftrightarrow>
      (\<exists>n. snd (fst (finish_request reply_now l r ls)) = LeaseGranted \<lparr>lv_lease_id = lid, lv_remaining = n\<rparr>)"
    for l r ls
    by (auto simp: finish_request_def Let_def split: sum.splits enforcement_result.splits)
  have release: "fst (fst (handle_release_lease ops now rr peer st)) \<noteq> Granted lid e \<and>
      snd (fst (handle_release_lease ops now rr peer st)) \<noteq> LeaseGranted v" for rr e v
    by (auto simp: handle_release_lease_def Let_def split_beta split: option.splits)
  show ?thesis
    using finish failure release
    by (auto simp: handle_event handle_response handle_request_lease_def Let_def split_beta
        split: client_request.splits option.splits sum.splits prod.splits)
qed

lemma audit_entries_granted:
  "c \<in> set (audit_entries h ops calls st) \<Longrightarrow>
    (\<exists>e. ae_outcome (snd (snd c)) = RecGranted lid e) \<longleftrightarrow>
    (\<exists>n. ae_response (snd (snd c)) = LeaseGranted \<lparr>lv_lease_id = lid, lv_remaining = n\<rparr>)"
proof (induction h ops calls st rule: audit_entries.induct)
  case (2 h ops t w now reply_now request peer calls st)
  have "recorded_outcome_of out = RecGranted lid e \<longleftrightarrow> out = Granted lid e" for out e
    by (cases out) auto
  then show ?case
    using 2 handle_granted [of h ops now reply_now request peer st lid] by (auto simp: recorded_entry_def)
qed simp

text \<open>A lease that is in the store after a history and was not before has its grant among the entries.\<close>

definition records_grant :: "lease_id \<Rightarrow> compute_lease \<Rightarrow> audit_entry \<Rightarrow> bool" where
  "records_grant lid l e \<longleftrightarrow>
     ae_outcome e = RecGranted lid (cl_expires_at l) \<and>
     ae_requested e = RecRequestLease (lease_resource l) (cr_action (prov_request (cl_origin l))) \<and>
     rp_observed (ae_peer e) = prov_context (cl_origin l)"

lemma lease_has_entry:
  assumes "(lid, l) \<in> set (ls_leases (fst (fold (agent_step h ops) (map snd calls) st)))"
    and "(lid, l) \<notin> set (ls_leases (fst st))"
  shows "\<exists>c\<in>set (audit_entries h ops calls st). records_grant lid l (snd (snd c))"
  using assms
proof (induction h ops calls st rule: audit_entries.induct)
  case (2 h ops t w now reply_now request peer calls st)
  let ?st = "agent_step h ops (now, reply_now, request, peer) st"
  show ?case
  proof (cases "(lid, l) \<in> set (ls_leases (fst ?st))")
    case True
    then obtain rq obs where "request = RequestLease rq" "authorizable peer = Some obs"
        "cl_origin l = provenance_for rq obs"
      and "ev_outcome (fst (snd (handle h ops now reply_now request peer st))) = Granted lid (cl_expires_at l)"
      using handle_new_lease [of lid l h ops now reply_now request peer st] 2(3)
      by (auto simp: agent_step_def)
    then have "records_grant lid l (recorded_entry (fst (snd (handle h ops now reply_now request peer st))))"
      by (auto simp: records_grant_def recorded_entry_def handle_event lease_resource_def provenance_for_def
          provenance_new_def recorded_peer_of_def authorizable_Some)
    then show ?thesis by simp
  next
    case False
    then show ?thesis using 2 by simp
  qed
qed simp

text \<open>The failed writes are counted.\<close>

lemma clean_history_failures:
  assumes "\<forall>r\<in>set (written_records inst calls). record_faithful j r"
  shows "as_failed_writes (sink_run j calls (sink_from_writer [] inst)) =
    of_nat (length calls - length (written_records inst calls)) \<and>
    length (written_records inst calls) \<le> length calls"
  using assms
proof (induction calls rule: rev_induct)
  case Nil
  then show ?case by (simp add: sink_run_def sink_from_writer_def written_records_def)
next
  case (snoc c calls)
  obtain t w e where c: "c = (t, w, e)" by (cases c)
  let ?s = "sink_run j calls (sink_from_writer [] inst)"
  have state: "as_instance ?s = inst" "as_next_sequence ?s = of_nat (length calls)"
    using sink_run_state [of j calls "sink_from_writer [] inst"] by (simp_all add: sink_from_writer_def)
  have IH: "as_failed_writes ?s = of_nat (length calls - length (written_records inst calls))"
    "length (written_records inst calls) \<le> length calls"
    using snoc by (simp_all add: c written_records_snoc)
  show ?case
  proof (cases w)
    case Written
    then obtain ln where "aj_to_string j (versioned_current (minted_record inst (of_nat (length calls)) t e)) = Inr ln"
      using snoc.prems by (auto simp: c written_records_snoc record_faithful_def)
    then have "as_failed_writes (sink_run j (calls @ [c]) (sink_from_writer [] inst)) = as_failed_writes ?s"
      by (simp add: c sink_run_snoc audit_append_def state Written write_line_def minted_record_def)
    then show ?thesis using IH by (simp add: c written_records_snoc Written)
  next
    case (WriteFailed n err)
    then have "as_failed_writes (sink_run j (calls @ [c]) (sink_from_writer [] inst)) = as_failed_writes ?s + 1"
      by (simp add: c sink_run_snoc audit_append_def write_line_def Let_def split_beta split: sum.split)
    then show ?thesis using IH by (simp add: c written_records_snoc WriteFailed Suc_diff_le)
  qed
qed

lemma written_records_all:
  assumes "length (written_records inst calls) = length calls" and "i < length calls"
  shows "fst (snd (calls ! i)) = Written"
proof -
  have all: "length (filter P xs) = length xs \<Longrightarrow> x \<in> set xs \<Longrightarrow> P x" for P and xs :: "'x list" and x
    using length_filter_less [of x xs P] by fastforce
  have "length (filter (\<lambda>(i, t, w, e). w = Written) (enumerate 0 calls)) = length (enumerate 0 calls)"
    using assms(1) by (simp add: written_records_def)
  then have "\<forall>x\<in>set (enumerate 0 calls). case x of (i, t, w, e) \<Rightarrow> w = Written"
    by (intro ballI) (rule all)
  moreover have "(i, calls ! i) \<in> set (enumerate 0 calls)"
    using assms(2) by (simp add: in_set_enumerate_eq)
  ultimately show ?thesis by (cases "calls ! i") auto
qed

section \<open>Properties\<close>

text \<open>C12. The whole path of a grant on Linux, from the socket to the store. A lease that a connection
  put into the agent's store was asked for by a well-formed request frame on that connection; the
  peer's context, collected from the kernel for the process of the kernel's credential, was released
  for authorization, and the lease is bound to that context; the authored policy has an allow rule for
  exactly the resource, each of whose conditions compares with a value the kernel reported (so none of
  them is on the hash of the executable, which is never collected); and the bytes written back tell the
  identifier of the lease and the time it has left.\<close>

theorem linux_lease_has_its_reasons:
  assumes "from_document d = Inr (ah_policy h)"
    and "serve_peer sj (collect_peer_context fs peercred) events
      (\<lambda>st r p. map_prod Some id (authorization_serve h ops now reply_now st r p)) st w = ((out, st'), w')"
    and "(lid, l) \<in> set (ls_leases (fst st'))" and "(lid, l) \<notin> set (ls_leases (fst st))"
  shows "\<exists>peer body envelope rq.
    fst (run_state (collect_peer_context fs peercred) w) = Inr peer \<and>
    authorizable peer = Some (pc_observed peer) \<and>
    wi_pid (ec_workload (pc_observed peer)) = cred_pid (pc_credential peer) \<and>
    fst (read_frame events) = FrameOk body \<and> decode_request sj body = Inr envelope \<and>
    rqb_body (v_payload envelope) = RequestLease rq \<and> cl_origin l = provenance_for rq (pc_observed peer) \<and>
    out = send sj (Some (rqb_request_id (v_payload envelope)))
      (LeaseGranted \<lparr>lv_lease_id = lid, lv_remaining = unat (cl_expires_at l) - unat reply_now\<rparr>) \<and>
    (\<exists>r\<in>set (doc_rules d). rule_effect r = Allow \<and> rule_resource r = lr_resource rq \<and>
       rule_conditions r \<noteq> [] \<and> (\<forall>c\<in>set (rule_conditions r). kernel_satisfied c (pc_observed peer)))"
  using assms by (rule linux_peers.new_lease_reasons)

lemma linux_lease_has_its_reasons_witness:
  "\<exists>out st' w' l. serve_peer linux_demo_json (collect_peer_context linux_demo_fs (Inr (7, 6, 6)))
      [Chunk [0, 0, 0, 1, 1]]
      (\<lambda>st r p. map_prod Some id (authorization_serve linux_demo_handler fake_ops 100 110 st r p))
      (demo_state, demo_backend) () = ((out, st'), w') \<and>
    (cl_id l, l) \<in> set (ls_leases (fst st')) \<and>
    cr_resource (prov_request (cl_origin l)) = demo_gpu"
proof -
  obtain peer where run: "run_state (collect_peer_context linux_demo_fs (Inr (7, 6, 6))) () = (Inr peer, ())"
    and released: "authorizable peer = Some (pc_observed peer)"
    and uid: "wi_uid (ec_workload (pc_observed peer)) = Present 5 KernelObserved"
    by (rule linux_demo_observed)
  have "pd_effect (policy_evaluate (ah_policy linux_demo_handler) (pc_observed peer) demo_request) = Allow"
    using uid by (simp add: evaluate_Allow_iff linux_demo_handler_def linux_demo_document_def rule_applies_def
        eltanin_eval)
  from fresh_agent_new_lease [OF released this] obtain l where
    l: "(cl_id l, l) \<in> set (ls_leases (fst (snd (authorization_serve linux_demo_handler fake_ops 100 110
      (demo_state, demo_backend) (RequestLease demo_lease_request) peer))))"
    by (auto simp: linux_demo_handler_def demo_handler_def)
  have frame: "fst (read_frame [Chunk [0, 0, 0, 1, 1]]) = FrameOk [1]"
    by (simp add: read_frame_spec frame_spec_def decode_frame_len_def u32_from_be_bytes_def MAX_FRAME_BYTES_def)
  have decoded: "decode_request linux_demo_json [1] =
      Inr (client_request_envelope 9 (RequestLease demo_lease_request))"
    by (simp add: decode_request_def linux_demo_json_def demo_json_def peek_version_def MAX_FRAME_BYTES_def)
  let ?served = "serve_peer linux_demo_json (collect_peer_context linux_demo_fs (Inr (7, 6, 6)))
      [Chunk [0, 0, 0, 1, 1]]
      (\<lambda>st r p. map_prod Some id (authorization_serve linux_demo_handler fake_ops 100 110 st r p))
      (demo_state, demo_backend) ()"
  obtain out st' w' where served: "?served = ((out, st'), w')" by (metis surj_pair)
  then have new: "(cl_id l, l) \<in> set (ls_leases (fst st'))"
    using l by (auto simp: serve_peer_def run serve_connection_def frame decoded Let_def split_beta
        client_request_envelope_def versioned_current_def)
  have "(cl_id l, l) \<notin> set (ls_leases (fst (demo_state, demo_backend)))"
    by (simp add: demo_state_def state_new_def)
  from linux_lease_has_its_reasons [OF linux_demo_document_ok served new this]
  obtain envelope rq where "rqb_body (v_payload envelope) = RequestLease rq" "cl_origin l = provenance_for rq (pc_observed peer)"
    and "decode_request linux_demo_json [1] = Inr envelope"
    by (auto simp: run frame)
  then have "cr_resource (prov_request (cl_origin l)) = demo_gpu"
    by (auto simp: decoded client_request_envelope_def versioned_current_def provenance_for_def
        provenance_new_def demo_lease_request_def)
  then show ?thesis using served new by blast
qed

text \<open>The audit trail accounts for the agent. After any history of requests in which no failed write
  left part of a line behind, the log reads back without an unreadable line, and the records and the
  failed writes together are as many as the requests. A record names a grant of a lease exactly when
  the answer it records granted that lease. And when no write failed, every lease in the store has the
  record of its grant in the log, with its expiry, the resource and the action it was asked for and the
  evidence it is bound to, and a selection by the lease finds that record.\<close>

theorem audit_trail_accounts_for_leases:
  assumes "handler_new inst policy config = (h, ls0)"
    and "fold (audited_handle j h ops) calls ((ls0, b0), sink_from_writer [] inst) = ((ls, b), sink)"
    and "\<forall>((t, w), c)\<in>set calls. w = Written \<or> (\<exists>e. w = WriteFailed 0 e)"
    and "\<forall>r\<in>set (written_records inst (audit_entries h ops calls (ls0, b0))). record_faithful j r"
    and "length calls < 2 ^ 64"
  shows "\<exists>scan. read_log j (Inr (as_file sink)) = Inr scan \<and> sc_unreadable scan = [] \<and>
    length (sc_records scan) + unat (as_failed_writes sink) = length calls \<and>
    (\<forall>r\<in>set (sc_records scan). \<forall>lid.
       (\<exists>e. ar_outcome r = RecGranted lid e) \<longleftrightarrow>
       (\<exists>n. ar_response r = LeaseGranted \<lparr>lv_lease_id = lid, lv_remaining = n\<rparr>)) \<and>
    (as_failed_writes sink = 0 \<longrightarrow>
       (\<forall>(lid, l)\<in>set (ls_leases ls). \<exists>r rs.
          select scan (SelLease lid) = Found rs \<and> r \<in> set rs \<and> r \<in> set (sc_records scan) \<and>
          ar_outcome r = RecGranted lid (cl_expires_at l) \<and>
          ar_requested r = RecRequestLease (lease_resource l) (cr_action (prov_request (cl_origin l))) \<and>
          rp_observed (ar_peer r) = prov_context (cl_origin l)))"
proof -
  let ?entries = "audit_entries h ops calls (ls0, b0)"
  let ?records = "written_records inst ?entries"
  have ls: "ls = fst (fold (agent_step h ops) (map snd calls) (ls0, b0))"
    and sink: "sink = sink_run j ?entries (sink_from_writer [] inst)"
    using assms(2) by (simp_all add: audited_history)
  have "\<forall>c\<in>set ?entries. clean_call c"
    using audit_entries_outcomes [of _ h ops calls "(ls0, b0)"] assms(3) by (fastforce simp: clean_call_def)
  from clean_history_file [OF this assms(4)] have lines:
    "read_lines j 0 (text_lines (as_file sink)) ([], []) = (?records, [])" by (simp add: sink)
  define scan where "scan = \<lparr>sc_records = ?records, sc_unreadable = [], sc_gaps = detect_gaps ?records []\<rparr>"
  have scan: "read_log j (Inr (as_file sink)) = Inr scan" "sc_records scan = ?records" "sc_unreadable scan = []"
    by (simp_all add: read_log_def lines scan_def)
  have failed: "unat (as_failed_writes sink) = length calls - length ?records" "length ?records \<le> length calls"
  proof -
    have "length calls - length ?records < 2 ^ 64" using assms(5) by linarith
    from unat_of_nat_u64 [OF this] show "unat (as_failed_writes sink) = length calls - length ?records"
      unfolding sink using clean_history_failures [OF assms(4)] by (simp only: length_audit_entries)
    show "length ?records \<le> length calls"
      using clean_history_failures [OF assms(4)] by simp
  qed
  have granted: "(\<exists>e. ar_outcome r = RecGranted lid e) \<longleftrightarrow>
      (\<exists>n. ar_response r = LeaseGranted \<lparr>lv_lease_id = lid, lv_remaining = n\<rparr>)" if r: "r \<in> set ?records" for r lid
  proof -
    obtain i where i: "i < length ?entries"
      and c: "r = minted_record inst (of_nat i) (fst (?entries ! i)) (snd (snd (?entries ! i)))"
      using r unfolding set_written_records by blast
    show ?thesis
      using audit_entries_granted [OF nth_mem [OF i], of lid] by (simp add: c minted_record_def)
  qed
  have on_record: "\<exists>r rs. select scan (SelLease lid) = Found rs \<and> r \<in> set rs \<and> r \<in> set ?records \<and>
        ar_outcome r = RecGranted lid (cl_expires_at l) \<and>
        ar_requested r = RecRequestLease (lease_resource l) (cr_action (prov_request (cl_origin l))) \<and>
        rp_observed (ar_peer r) = prov_context (cl_origin l)"
    if all: "as_failed_writes sink = 0" and l: "(lid, l) \<in> set (ls_leases ls)" for lid l
  proof -
    have "(lid, l) \<notin> set (ls_leases (fst (ls0, b0)))"
      using handler_new_state [OF assms(1)] by simp
    from lease_has_entry [OF l [unfolded ls] this] obtain i where i: "i < length calls"
        "records_grant lid l (snd (snd (?entries ! i)))"
      by (metis in_set_conv_nth length_audit_entries)
    have "length ?records = length ?entries" using failed all by simp
    then have "fst (snd (?entries ! i)) = Written"
      using i(1) by (simp add: written_records_all)
    then have "minted_record inst (of_nat i) (fst (?entries ! i)) (snd (snd (?entries ! i))) \<in> set ?records"
      (is "?r \<in> _")
      using i(1) by (auto simp: set_written_records)
    moreover have "ar_outcome ?r = RecGranted lid (cl_expires_at l)" "record_lease_id ?r = Some lid"
      "ar_requested ?r = RecRequestLease (lease_resource l) (cr_action (prov_request (cl_origin l)))"
      "rp_observed (ar_peer ?r) = prov_context (cl_origin l)"
      using i(2) by (simp_all add: records_grant_def minted_record_def record_lease_id_def)
    moreover from calculation have "?r \<in> set (filter (\<lambda>r. record_lease_id r = Some lid) ?records)" by simp
    moreover from this have "select scan (SelLease lid) = Found (filter (\<lambda>r. record_lease_id r = Some lid) ?records)"
      by (auto simp: found_or_not_def scan(2) simp del: set_filter)
    ultimately show ?thesis by blast
  qed
  show ?thesis
    using scan failed granted on_record by (intro exI [of _ scan]) auto
qed

definition audit_demo_call :: audited_call where
  "audit_demo_call = ((demo_time, Written), 100, 110, RequestLease demo_lease_request, demo_peer)"

definition audit_demo_json :: "unit audit_json" where
  "audit_demo_json = demo_log_json
     \<lparr>aj_record := (\<lambda>_. Inr (versioned_current (minted_record ''agent-1'' 0 demo_time
        (snd (snd (hd (audit_entries demo_handler fake_ops [audit_demo_call] (demo_state, demo_backend))))))))\<rparr>"

lemma audit_trail_accounts_for_leases_witness:
  "\<exists>scan r rs. read_log audit_demo_json (Inr (as_file (snd (fold (audited_handle audit_demo_json demo_handler fake_ops)
      [audit_demo_call] ((demo_state, demo_backend), sink_from_writer [] ''agent-1''))))) = Inr scan \<and>
    select scan (SelLease (cl_id demo_lease)) = Found rs \<and> r \<in> set rs \<and>
    rp_observed (ar_peer r) = demo_context"
proof -
  have new: "handler_new ''agent-1'' demo_policy \<lparr>ac_lease_ttl = 30, ac_max_outstanding_leases = 2\<rparr> =
      (demo_handler, demo_state)"
    by (simp add: handler_new_def demo_handler_def demo_state_def)
  let ?run = "fold (audited_handle audit_demo_json demo_handler fake_ops)
      [audit_demo_call] ((demo_state, demo_backend), sink_from_writer [] ''agent-1'')"
  obtain ls b sink where run: "?run = ((ls, b), sink)" by (metis surj_pair)
  have ls: "ls = demo_granted_state"
    using run unfolding audited_history
    by (simp add: agent_step_def audit_demo_call_def handle_state demo_grant)
  have "\<forall>r\<in>set (written_records ''agent-1''
      (audit_entries demo_handler fake_ops [audit_demo_call] (demo_state, demo_backend))).
      record_faithful audit_demo_json r"
    by (simp add: written_records_def audit_demo_call_def record_faithful_def audit_demo_json_def demo_log_json_def
        plain_line_def blank_line_def split_whitespace_def ascii_space_def newline_def versioned_current_def DOMAIN_SCHEMA_VERSION_def)
  from audit_trail_accounts_for_leases [OF new run _ this]
  obtain scan where scan: "read_log audit_demo_json (Inr (as_file sink)) = Inr scan"
    and count: "length (sc_records scan) + unat (as_failed_writes sink) = 1"
    and records: "as_failed_writes sink = 0 \<longrightarrow> (\<forall>(lid, l)\<in>set (ls_leases ls). \<exists>r rs.
          select scan (SelLease lid) = Found rs \<and> r \<in> set rs \<and> rp_observed (ar_peer r) = prov_context (cl_origin l))"
    by (auto simp: audit_demo_call_def) blast
  have "as_failed_writes sink = 0"
    using run by (auto simp: audited_handle_def audit_demo_call_def record_event_def audit_append_def
        sink_from_writer_def write_line_def audit_demo_json_def demo_log_json_def Let_def split_beta)
  with records have "\<exists>r rs. select scan (SelLease (cl_id demo_lease)) = Found rs \<and> r \<in> set rs \<and>
      rp_observed (ar_peer r) = prov_context (cl_origin demo_lease)"
    by (simp add: ls demo_granted_state_def)
  then show ?thesis
    using scan run by (auto simp: demo_lease_def demo_provenance_def)
qed

end
