(* ===== verification/Eltanin_Service.thy ===== *)
theory Eltanin_Service
  imports Eltanin_Ledger Eltanin_Audit_Log Eltanin_Server Eltanin_System "HOL-Library.Multiset"
begin

text \<open>
  The running agent: the accept loop and the connection threads of \<open>crates/eltanin-agent/src/server.rs\<close>,
  each thread serving a connection (\<open>connection.rs\<close>) whose request goes through the critical sections
  of the handler (\<open>authz/mod.rs\<close>) and is recorded by the sink (\<open>authz/audit.rs\<close>, \<open>event.rs\<close>) before
  its answer goes back. A step is one atomic action of one thread or of the accept loop. The agent of
  \<open>Eltanin_Authz_Concurrent\<close> is what is left of it when the threads, the sink and the server are
  forgotten; its guarantees, and those of the ledger, hold of every run.

  The backend may panic while it enforces, which loses the request's reservation, and while it revokes,
  which loses the revocation: the lease is removed by then, and the client is told of an internal error. A
  thread of the agent may also panic while it prints on a standard error that cannot be written to, as
  \<open>eprintln!\<close> does; the panic is caught by \<open>serve_connection\<close>, after the request has had its effect.
\<close>

section \<open>The threads\<close>

text \<open>Where a connection thread is. \<open>Timed\<close> holds the clock reading that was made before the lock is
  taken for the last time; \<open>Computed\<close> is after every lock is released and before the event is recorded;
  \<open>Answering\<close> is after \<open>handle\<close> has returned, or its panic was caught.\<close>

datatype thread_phase =
    Serving
  | Asked client_request peer_context
  | Issued lease_request peer_context compute_lease
  | Enforced lease_request peer_context compute_lease enforce_answer
  | Timed lease_request peer_context compute_lease enforce_answer monotonic_time
  | Computed authorization_event
  | Answering agent_response
  | Finished

record 'b service =
  svc_server :: server_state
  svc_now :: monotonic_time
  svc_store :: lease_state
  svc_backend :: 'b
  svc_phases :: "thread_phase list"
  svc_sink :: live_sink
  svc_log :: log_file

definition service_new :: "lease_state \<Rightarrow> 'b \<Rightarrow> live_sink \<Rightarrow> log_file \<Rightarrow> 'b service" where
  "service_new ls b sink log =
     \<lparr>svc_server = server_new, svc_now = 0, svc_store = ls, svc_backend = b, svc_phases = [],
      svc_sink = sink, svc_log = log\<rparr>"

text \<open>The event \<open>handle\<close> makes of an outcome and a response.\<close>

definition event_for ::
  "client_request \<Rightarrow> peer_context \<Rightarrow> authorization_outcome \<times> agent_response \<Rightarrow> authorization_event" where
  "event_for request peer reply =
     \<lparr>ev_operation =
        (case request of
           AgentStatus \<Rightarrow> OpAgentStatus
         | RequestLease _ \<Rightarrow> OpRequestLease
         | ReleaseLease _ \<Rightarrow> OpReleaseLease),
      ev_request = request, ev_peer = peer, ev_outcome = fst reply, ev_response = snd reply\<rparr>"

text \<open>What returns to the connection when the event was recorded: the response, unless a line had to be
  printed and could not be.\<close>

definition recorded_answer :: "bool \<Rightarrow> string list \<Rightarrow> authorization_event \<Rightarrow> agent_response" where
  "recorded_answer stderr_ok lines event =
     (if lines \<noteq> [] \<and> \<not> stderr_ok then RespError Internal else ev_response event)"

abbreviation at_phase :: "'b service \<Rightarrow> nat \<Rightarrow> thread_phase \<Rightarrow> bool" where
  "at_phase s t p \<equiv> t < length (svc_phases s) \<and> svc_phases s ! t = p"

abbreviation to_phase :: "nat \<Rightarrow> thread_phase \<Rightarrow> 'b service \<Rightarrow> 'b service" where
  "to_phase t p s \<equiv> s\<lparr>svc_phases := (svc_phases s)[t := p]\<rparr>"

text \<open>What a step shows: the answer of the agent of \<open>Eltanin_Authz_Concurrent\<close> (a revocation that
  panicked among them), a panic of the backend's enforcement, an event a thread handed to the
  sink with the outcome of its write, or a response a connection writes.\<close>

datatype service_label =
    Quiet
  | AgentMoved agent_answer
  | BackendPanicked
  | RecordedEvent nat wall_clock_time write_outcome authorization_event
  | Sent nat agent_response

section \<open>The steps\<close>

inductive service_step ::
  "authorization_handler \<Rightarrow> 'b backend_ops \<Rightarrow> 'v audit_json \<Rightarrow> event_formats \<Rightarrow> nat \<Rightarrow> service_label \<Rightarrow>
     'b service \<Rightarrow> 'b service \<Rightarrow> bool"
  for h :: authorization_handler and ops :: "'b backend_ops" and j :: "'v audit_json"
    and fmt :: event_formats and max_connections :: nat
where
  server_moves:
    "\<lbrakk>server_step max_connections e (svc_server s) = Some sv;
      \<And>t. e = SlotReleased t \<Longrightarrow> at_phase s t Finished;
      phases = svc_phases s @ (if e = ThreadSpawned True then [Serving] else [])\<rbrakk> \<Longrightarrow>
     service_step h ops j fmt max_connections Quiet s (s\<lparr>svc_server := sv, svc_phases := phases\<rparr>)"
| closes:
    "at_phase s t Serving \<Longrightarrow>
     service_step h ops j fmt max_connections Quiet s (to_phase t Finished s)"
| asks:
    "at_phase s t Serving \<Longrightarrow>
     service_step h ops j fmt max_connections Quiet s (to_phase t (Asked request peer) s)"
| reports_status:
    "at_phase s t (Asked AgentStatus peer) \<Longrightarrow>
     service_step h ops j fmt max_connections Quiet s
       (to_phase t (Computed (event_for AgentStatus peer handle_status)) s)"
| turns_away:
    "\<lbrakk>at_phase s t (Asked (RequestLease rq) peer); authorizable peer = None\<rbrakk> \<Longrightarrow>
     service_step h ops j fmt max_connections Quiet s
       (to_phase t (Computed (event_for (RequestLease rq) peer
          (PeerNotAuthorizable, RespLeaseDenied DenialIndeterminateEvidence))) s)"
| issues:
    "\<lbrakk>at_phase s t (Asked (RequestLease rq) peer); authorizable peer = Some obs; svc_now s \<le> now;
      counter_room (svc_store s) 1;
      issue_reserving_capacity h now (provenance_for rq obs) (svc_store s) = (Inr l, ls)\<rbrakk> \<Longrightarrow>
     service_step h ops j fmt max_connections (AgentMoved NoAnswer) s
       (to_phase t (Issued rq peer l) (s\<lparr>svc_now := now, svc_store := ls\<rparr>))"
| refuses:
    "\<lbrakk>at_phase s t (Asked (RequestLease rq) peer); authorizable peer = Some obs; svc_now s \<le> now;
      issue_reserving_capacity h now (provenance_for rq obs) (svc_store s) = (Inl f, ls)\<rbrakk> \<Longrightarrow>
     service_step h ops j fmt max_connections
       (AgentMoved (RequestAnswered now (snd (issue_failure_reply f)))) s
       (to_phase t (Computed (event_for (RequestLease rq) peer (issue_failure_reply f)))
          (s\<lparr>svc_now := now, svc_store := ls\<rparr>))"
| enforces:
    "\<lbrakk>at_phase s t (Issued rq peer l);
      bo_enforce ops (svc_backend s) (prov_request (cl_origin l)) = (r, b)\<rbrakk> \<Longrightarrow>
     service_step h ops j fmt max_connections (AgentMoved NoAnswer) s
       (to_phase t (Enforced rq peer l r) (s\<lparr>svc_backend := b\<rparr>))"
| panics:
    "at_phase s t (Issued rq peer l) \<Longrightarrow>
     service_step h ops j fmt max_connections BackendPanicked s
       (to_phase t (Answering (RespError Internal)) s)"
| reads_clock:
    "\<lbrakk>at_phase s t (Enforced rq peer l r); svc_now s \<le> now\<rbrakk> \<Longrightarrow>
     service_step h ops j fmt max_connections Quiet s
       (to_phase t (Timed rq peer l r now) (s\<lparr>svc_now := now\<rparr>))"
| finishes:
    "\<lbrakk>at_phase s t (Timed rq peer l r reading);
      finish_request reading l r (svc_store s) = (reply, ls)\<rbrakk> \<Longrightarrow>
     service_step h ops j fmt max_connections (AgentMoved (RequestAnswered reading (snd reply))) s
       (to_phase t (Computed (event_for (RequestLease rq) peer reply)) (s\<lparr>svc_store := ls\<rparr>))"
| releases:
    "\<lbrakk>at_phase s t (Asked (ReleaseLease rr) peer); svc_now s \<le> now;
      handle_release_lease ops now rr peer (svc_store s, svc_backend s) = (reply, (ls, b))\<rbrakk> \<Longrightarrow>
     service_step h ops j fmt max_connections
       (AgentMoved (ReleaseAnswered now (rr_lease_id rr) peer (snd reply))) s
       (to_phase t (Computed (event_for (ReleaseLease rr) peer reply))
          (s\<lparr>svc_now := now, svc_store := ls, svc_backend := b\<rparr>))"
| revoke_panics:
    "\<lbrakk>at_phase s t (Asked (ReleaseLease rr) peer); svc_now s \<le> now;
      handle_release_lease ops now rr peer (svc_store s, svc_backend s) = (reply, (ls, b));
      snd reply = LeaseReleased Released;
      \<not> any_other_live_lease_for_same_resource (prune now (svc_store s)) (rr_lease_id rr)\<rbrakk> \<Longrightarrow>
     service_step h ops j fmt max_connections
       (AgentMoved (ReleasePanicked now (rr_lease_id rr) peer)) s
       (to_phase t (Answering (RespError Internal)) (s\<lparr>svc_now := now, svc_store := ls\<rparr>))"
| records:
    "\<lbrakk>at_phase s t (Computed event);
      live_record j fmt recorded_at outcome event (svc_sink s, svc_log s) = (lines, (sink, log))\<rbrakk> \<Longrightarrow>
     service_step h ops j fmt max_connections (RecordedEvent t recorded_at outcome event) s
       (to_phase t (Answering (recorded_answer stderr_ok lines event)) (s\<lparr>svc_sink := sink, svc_log := log\<rparr>))"
| answers:
    "at_phase s t (Answering response) \<Longrightarrow>
     service_step h ops j fmt max_connections (Sent t response) s (to_phase t Finished s)"

inductive service_runs ::
  "authorization_handler \<Rightarrow> 'b backend_ops \<Rightarrow> 'v audit_json \<Rightarrow> event_formats \<Rightarrow> nat \<Rightarrow> 'b service \<Rightarrow>
     service_label list \<Rightarrow> 'b service \<Rightarrow> bool"
  for h :: authorization_handler and ops :: "'b backend_ops" and j :: "'v audit_json"
    and fmt :: event_formats and max_connections :: nat and s0 :: "'b service"
where
  runs_start: "service_runs h ops j fmt max_connections s0 [] s0"
| runs_step:
    "\<lbrakk>service_runs h ops j fmt max_connections s0 tr s;
      service_step h ops j fmt max_connections lab s s'\<rbrakk> \<Longrightarrow>
     service_runs h ops j fmt max_connections s0 (tr @ [lab]) s'"

section \<open>Collecting from the threads\<close>

lemma mset_map_filter:
  "mset (List.map_filter f xs) = (\<Sum>x\<in>#mset xs. case f x of None \<Rightarrow> {#} | Some y \<Rightarrow> {#y#})"
  by (induction xs) (auto simp: map_filter_def split: option.splits)

lemma mset_map_filter_update:
  assumes "t < length xs"
  shows "mset (List.map_filter f (xs[t := p])) + (case f (xs ! t) of None \<Rightarrow> {#} | Some y \<Rightarrow> {#y#}) =
    mset (List.map_filter f xs) + (case f p of None \<Rightarrow> {#} | Some y \<Rightarrow> {#y#})"
proof -
  have "add_mset (xs ! t) (mset (xs[t := p])) = add_mset p (mset xs)"
    using assms by (simp add: mset_update)
  then have "image_mset g (add_mset (xs ! t) (mset (xs[t := p]))) = image_mset g (add_mset p (mset xs))" for g
    by simp
  from this [THEN arg_cong, of sum_mset] show ?thesis
    by (simp add: mset_map_filter union_commute)
qed

lemma map_filter_snoc:
  "List.map_filter f (xs @ [p]) = List.map_filter f xs @ (case f p of None \<Rightarrow> [] | Some y \<Rightarrow> [y])"
  by (simp add: map_filter_def split: option.splits)

fun issued_lease :: "thread_phase \<Rightarrow> compute_lease option" where
  "issued_lease (Issued _ _ l) = Some l"
| "issued_lease _ = None"

fun enforced_lease :: "thread_phase \<Rightarrow> (compute_lease \<times> enforce_answer) option" where
  "enforced_lease (Enforced _ _ l r) = Some (l, r)"
| "enforced_lease (Timed _ _ l r _) = Some (l, r)"
| "enforced_lease _ = None"

section \<open>The service refines the agent\<close>

text \<open>What the agent of \<open>Eltanin_Authz_Concurrent\<close> sees of a step.\<close>

fun agent_label :: "service_label \<Rightarrow> agent_answer option" where
  "agent_label (AgentMoved answer) = Some answer"
| "agent_label BackendPanicked = Some NoAnswer"
| "agent_label _ = None"

definition agent_answers :: "service_label list \<Rightarrow> agent_answer list" where
  "agent_answers tr = List.map_filter agent_label tr"

text \<open>A clock reading is not before the issue of its lease and not after the clock.\<close>

fun phase_timed :: "monotonic_time \<Rightarrow> thread_phase \<Rightarrow> bool" where
  "phase_timed now (Issued _ _ l) \<longleftrightarrow> cl_issued_at l \<le> now"
| "phase_timed now (Enforced _ _ l _) \<longleftrightarrow> cl_issued_at l \<le> now"
| "phase_timed now (Timed _ _ l _ reading) \<longleftrightarrow> cl_issued_at l \<le> reading \<and> reading \<le> now"
| "phase_timed _ _ \<longleftrightarrow> True"

lemma phase_timed_later: "phase_timed now p \<Longrightarrow> now \<le> now' \<Longrightarrow> phase_timed now' p"
  by (cases p) auto

definition service_shows :: "nat \<Rightarrow> 'b service \<Rightarrow> 'b concurrent_agent \<Rightarrow> bool" where
  "service_shows leaked s ca \<longleftrightarrow>
     ca_now ca \<le> svc_now s \<and> ca_store ca = svc_store s \<and> ca_backend ca = svc_backend s \<and>
     ca_leaked ca = leaked \<and>
     mset (ca_issued ca) = mset (List.map_filter issued_lease (svc_phases s)) \<and>
     mset (ca_enforced ca) = mset (List.map_filter enforced_lease (svc_phases s)) \<and>
     (\<forall>p\<in>set (svc_phases s). phase_timed (svc_now s) p)"

lemma service_shows_new: "service_shows 0 (service_new ls b sink log) (concurrent_new ls b)"
  by (simp add: service_shows_def service_new_def concurrent_new_def map_filter_def)

lemma mset_split:
  assumes "add_mset x M = mset xs"
  obtains ys zs where "xs = ys @ x # zs" and "mset (ys @ zs) = M"
proof -
  have "x \<in> set xs" using assms by (metis set_mset_mset union_single_eq_member)
  then obtain ys zs where "xs = ys @ x # zs" by (meson split_list)
  with that assms show ?thesis by simp
qed

lemma phases_timed_update:
  "\<lbrakk>\<forall>p\<in>set ps. phase_timed now p; now \<le> now'; phase_timed now' p\<rbrakk> \<Longrightarrow>
     \<forall>p\<in>set (ps[t := p]). phase_timed now' p"
  using set_update_subset_insert [of ps t p] phase_timed_later by blast

text \<open>The two collections when a thread moves on.\<close>

lemma collections_move:
  assumes "at_phase s t p"
  shows "mset (List.map_filter issued_lease ((svc_phases s)[t := p'])) +
      (case issued_lease p of None \<Rightarrow> {#} | Some l \<Rightarrow> {#l#}) =
      mset (List.map_filter issued_lease (svc_phases s)) +
      (case issued_lease p' of None \<Rightarrow> {#} | Some l \<Rightarrow> {#l#})"
    and "mset (List.map_filter enforced_lease ((svc_phases s)[t := p'])) +
      (case enforced_lease p of None \<Rightarrow> {#} | Some l \<Rightarrow> {#l#}) =
      mset (List.map_filter enforced_lease (svc_phases s)) +
      (case enforced_lease p' of None \<Rightarrow> {#} | Some l \<Rightarrow> {#l#})"
  using assms mset_map_filter_update [of t "svc_phases s" issued_lease p']
    mset_map_filter_update [of t "svc_phases s" enforced_lease p'] by simp_all

text \<open>A step that touches no lease in flight shows nothing to the agent.\<close>

lemma shows_quiet:
  assumes "service_shows k s ca" and "at_phase s t p"
    and "issued_lease p' = issued_lease p" and "enforced_lease p' = enforced_lease p"
    and "svc_now s \<le> now" and "phase_timed now p'"
    and "svc_store s' = svc_store s" and "svc_backend s' = svc_backend s" and "svc_now s' = now"
    and "svc_phases s' = (svc_phases s)[t := p']"
  shows "service_shows k s' ca"
  using assms collections_move [OF assms(2), of p'] phases_timed_update [of "svc_phases s" "svc_now s" now p' t]
  by (auto simp: service_shows_def)

lemma issues_shows:
  assumes sim: "service_shows k s ca" and at: "at_phase s t (Asked request peer)"
    and rq: "authorizable peer = Some obs" "svc_now s \<le> now" "counter_room (svc_store s) 1"
    and issued: "issue_reserving_capacity h now (provenance_for rq obs) (svc_store s) = (Inr l, ls)"
  shows "\<exists>ca'. agent_steps_to h ops NoAnswer ca ca' \<and>
    service_shows k (to_phase t (Issued rq peer l) (s\<lparr>svc_now := now, svc_store := ls\<rparr>)) ca'"
proof (intro exI conjI)
  let ?ca = "ca\<lparr>ca_now := now, ca_store := ls, ca_issued := l # ca_issued ca\<rparr>"
  have now: "ca_now ca \<le> now" "ca_store ca = svc_store s"
    using sim rq(2) by (auto simp: service_shows_def)
  show "agent_steps_to h ops NoAnswer ca ?ca"
    by (rule issue_step [OF now(1) rq(1)]) (use rq(3) issued now(2) in simp_all)
  have "cl_issued_at l = now" using issued by (auto simp: issue_cap_Inr issue_Inr_iff)
  then show "service_shows k (to_phase t (Issued rq peer l) (s\<lparr>svc_now := now, svc_store := ls\<rparr>)) ?ca"
    using sim collections_move [OF at, of "Issued rq peer l"]
      phases_timed_update [of "svc_phases s" "svc_now s" now "Issued rq peer l" t] rq(2)
    by (simp add: service_shows_def)
qed

lemma refuses_shows:
  assumes sim: "service_shows k s ca" and at: "at_phase s t (Asked request peer)"
    and rq: "authorizable peer = Some obs" "svc_now s \<le> now"
    and refused: "issue_reserving_capacity h now (provenance_for rq obs) (svc_store s) = (Inl f, ls)"
  shows "\<exists>ca'. agent_steps_to h ops (RequestAnswered now (snd (issue_failure_reply f))) ca ca' \<and>
    service_shows k (to_phase t (Computed event) (s\<lparr>svc_now := now, svc_store := ls\<rparr>)) ca'"
proof (intro exI conjI)
  let ?ca = "ca\<lparr>ca_now := now, ca_store := ls\<rparr>"
  have now: "ca_now ca \<le> now" "ca_store ca = svc_store s"
    using sim rq(2) by (auto simp: service_shows_def)
  show "agent_steps_to h ops (RequestAnswered now (snd (issue_failure_reply f))) ca ?ca"
    by (rule refuse_step [OF now(1) rq(1)]) (use refused now(2) in simp)
  show "service_shows k (to_phase t (Computed event) (s\<lparr>svc_now := now, svc_store := ls\<rparr>)) ?ca"
    using sim collections_move [OF at, of "Computed event"]
      phases_timed_update [of "svc_phases s" "svc_now s" now "Computed event" t] rq(2)
    by (simp add: service_shows_def)
qed

lemma enforces_shows:
  assumes sim: "service_shows k s ca" and at: "at_phase s t (Issued rq peer l)"
    and enforced: "bo_enforce ops (svc_backend s) (prov_request (cl_origin l)) = (r, b)"
  shows "\<exists>ca'. agent_steps_to h ops NoAnswer ca ca' \<and>
    service_shows k (to_phase t (Enforced rq peer l r) (s\<lparr>svc_backend := b\<rparr>)) ca'"
proof -
  note moved = collections_move [OF at, of "Enforced rq peer l r"]
  have "add_mset l (mset (List.map_filter issued_lease ((svc_phases s)[t := Enforced rq peer l r]))) =
      mset (ca_issued ca)"
    using moved(1) sim by (simp add: service_shows_def)
  then obtain xs ys where issued: "ca_issued ca = xs @ l # ys"
    and rest: "mset (xs @ ys) = mset (List.map_filter issued_lease ((svc_phases s)[t := Enforced rq peer l r]))"
    by (rule mset_split)
  let ?ca = "ca\<lparr>ca_issued := xs @ ys, ca_enforced := (l, r) # ca_enforced ca, ca_backend := b\<rparr>"
  have "Issued rq peer l \<in> set (svc_phases s)" using at by (metis nth_mem)
  then have "phase_timed (svc_now s) (Enforced rq peer l r)"
    using sim by (force simp: service_shows_def)
  then have "service_shows k (to_phase t (Enforced rq peer l r) (s\<lparr>svc_backend := b\<rparr>)) ?ca"
    using sim moved(2) rest
      phases_timed_update [of "svc_phases s" "svc_now s" "svc_now s" "Enforced rq peer l r" t]
    by (simp add: service_shows_def)
  moreover have "agent_steps_to h ops NoAnswer ca ?ca"
    by (rule enforce_step [OF issued]) (use enforced sim in \<open>simp add: service_shows_def\<close>)
  ultimately show ?thesis by blast
qed

lemma panics_shows:
  assumes sim: "service_shows k s ca" and at: "at_phase s t (Issued rq peer l)"
  shows "\<exists>ca'. agent_steps_to h ops NoAnswer ca ca' \<and>
    service_shows (Suc k) (to_phase t (Answering response) s) ca'"
proof -
  note moved = collections_move [OF at, of "Answering response"]
  have "add_mset l (mset (List.map_filter issued_lease ((svc_phases s)[t := Answering response]))) =
      mset (ca_issued ca)"
    using moved(1) sim by (simp add: service_shows_def)
  then obtain xs ys where issued: "ca_issued ca = xs @ l # ys"
    and rest: "mset (xs @ ys) = mset (List.map_filter issued_lease ((svc_phases s)[t := Answering response]))"
    by (rule mset_split)
  let ?ca = "ca\<lparr>ca_issued := xs @ ys, ca_leaked := ca_leaked ca + 1\<rparr>"
  have "service_shows (Suc k) (to_phase t (Answering response) s) ?ca"
    using sim moved(2) rest
      phases_timed_update [of "svc_phases s" "svc_now s" "svc_now s" "Answering response" t]
    by (simp add: service_shows_def)
  moreover have "agent_steps_to h ops NoAnswer ca ?ca"
    by (rule panic_step [OF issued])
  ultimately show ?thesis by blast
qed

lemma finishes_shows:
  assumes sim: "service_shows k s ca" and at: "at_phase s t (Timed rq peer l r reading)"
    and fin: "finish_request reading l r (svc_store s) = (reply, ls)"
  shows "\<exists>ca'. agent_steps_to h ops (RequestAnswered reading (snd reply)) ca ca' \<and>
    service_shows k (to_phase t (Computed event) (s\<lparr>svc_store := ls\<rparr>)) ca'"
proof -
  note moved = collections_move [OF at, of "Computed event"]
  have "add_mset (l, r) (mset (List.map_filter enforced_lease ((svc_phases s)[t := Computed event]))) =
      mset (ca_enforced ca)"
    using moved(2) sim by (simp add: service_shows_def)
  then obtain xs ys where enforced: "ca_enforced ca = xs @ (l, r) # ys"
    and rest: "mset (xs @ ys) = mset (List.map_filter enforced_lease ((svc_phases s)[t := Computed event]))"
    by (rule mset_split)
  let ?ca = "ca\<lparr>ca_now := svc_now s, ca_enforced := xs @ ys, ca_store := ls\<rparr>"
  have "Timed rq peer l r reading \<in> set (svc_phases s)" using at by (metis nth_mem)
  then have timed: "cl_issued_at l \<le> reading" "reading \<le> svc_now s"
    using sim by (force simp: service_shows_def)+
  have "service_shows k (to_phase t (Computed event) (s\<lparr>svc_store := ls\<rparr>)) ?ca"
    using sim moved(1) rest
      phases_timed_update [of "svc_phases s" "svc_now s" "svc_now s" "Computed event" t]
    by (simp add: service_shows_def)
  moreover have "agent_steps_to h ops (RequestAnswered reading (snd reply)) ca ?ca"
    by (rule finish_step [OF enforced timed]) (use fin sim in \<open>simp_all add: service_shows_def\<close>)
  ultimately show ?thesis by blast
qed

lemma releases_shows:
  assumes sim: "service_shows k s ca" and at: "at_phase s t (Asked request peer)"
    and rr: "svc_now s \<le> now"
      "handle_release_lease ops now rr peer (svc_store s, svc_backend s) = (reply, (ls, b))"
  shows "\<exists>ca'. agent_steps_to h ops (ReleaseAnswered now (rr_lease_id rr) peer (snd reply)) ca ca' \<and>
    service_shows k (to_phase t (Computed event)
      (s\<lparr>svc_now := now, svc_store := ls, svc_backend := b\<rparr>)) ca'"
proof (intro exI conjI)
  let ?ca = "ca\<lparr>ca_now := now, ca_store := ls, ca_backend := b\<rparr>"
  have now: "ca_now ca \<le> now" using sim rr(1) by (auto simp: service_shows_def)
  show "agent_steps_to h ops (ReleaseAnswered now (rr_lease_id rr) peer (snd reply)) ca ?ca"
    by (rule release_step [OF now]) (use rr(2) sim in \<open>simp add: service_shows_def\<close>)
  show "service_shows k (to_phase t (Computed event)
      (s\<lparr>svc_now := now, svc_store := ls, svc_backend := b\<rparr>)) ?ca"
    using sim collections_move [OF at, of "Computed event"]
      phases_timed_update [of "svc_phases s" "svc_now s" now "Computed event" t] rr(1)
    by (simp add: service_shows_def)
qed

lemma revoke_panics_shows:
  assumes sim: "service_shows k s ca" and at: "at_phase s t (Asked request peer)"
    and rr: "svc_now s \<le> now"
      "handle_release_lease ops now rr peer (svc_store s, svc_backend s) = (reply, (ls, b))"
      "snd reply = LeaseReleased Released"
      "\<not> any_other_live_lease_for_same_resource (prune now (svc_store s)) (rr_lease_id rr)"
  shows "\<exists>ca'. agent_steps_to h ops (ReleasePanicked now (rr_lease_id rr) peer) ca ca' \<and>
    service_shows k (to_phase t (Answering response) (s\<lparr>svc_now := now, svc_store := ls\<rparr>)) ca'"
proof (intro exI conjI)
  let ?ca = "ca\<lparr>ca_now := now, ca_store := ls\<rparr>"
  have now: "ca_now ca \<le> now" using sim rr(1) by (auto simp: service_shows_def)
  have same: "ca_store ca = svc_store s" "ca_backend ca = svc_backend s"
    using sim by (simp_all add: service_shows_def)
  show "agent_steps_to h ops (ReleasePanicked now (rr_lease_id rr) peer) ca ?ca"
    by (rule release_panic_step [OF now _ rr(3)]) (use rr(2,4) same in simp_all)
  show "service_shows k (to_phase t (Answering response) (s\<lparr>svc_now := now, svc_store := ls\<rparr>)) ?ca"
    using sim collections_move [OF at, of "Answering response"]
      phases_timed_update [of "svc_phases s" "svc_now s" now "Answering response" t] rr(1)
    by (simp add: service_shows_def)
qed

lemma server_moves_shows:
  "service_shows k s ca \<Longrightarrow> phases = svc_phases s @ (if c then [Serving] else []) \<Longrightarrow>
     service_shows k (s\<lparr>svc_server := sv, svc_phases := phases\<rparr>) ca"
  by (auto simp: service_shows_def map_filter_snoc)

lemma service_step_shows:
  assumes "service_step h ops j fmt n lab s s'" and "service_shows k s ca"
  shows "case agent_label lab of
      None \<Rightarrow> service_shows k s' ca
    | Some answer \<Rightarrow> \<exists>ca'. agent_steps_to h ops answer ca ca' \<and>
        service_shows (k + (if lab = BackendPanicked then 1 else 0)) s' ca'"
  using assms(1)
proof (cases rule: service_step.cases)
  case (server_moves e sv phases)
  then show ?thesis using server_moves_shows [OF assms(2)] by simp
next
  case (reads_clock t rq peer l r now)
  have "Enforced rq peer l r \<in> set (svc_phases s)" using reads_clock by (metis nth_mem)
  then have "phase_timed now (Timed rq peer l r now)"
    using assms(2) reads_clock(4) by (force simp: service_shows_def)
  then show ?thesis
    using reads_clock shows_quiet [OF assms(2) reads_clock(3), of "Timed rq peer l r now" now s'] by simp
next
  case (issues t rq peer obs now l ls)
  then show ?thesis using issues_shows [OF assms(2) issues(3)] by simp
next
  case (refuses t rq peer obs now f ls)
  then show ?thesis using refuses_shows [OF assms(2) refuses(3)] by simp
next
  case (enforces t rq peer l r b)
  then show ?thesis using enforces_shows [OF assms(2) enforces(3)] by simp
next
  case (panics t rq peer l)
  then show ?thesis using panics_shows [OF assms(2) panics(3)] by simp
next
  case (finishes t rq peer l r reading reply ls)
  then show ?thesis using finishes_shows [OF assms(2) finishes(3)] by simp
next
  case (releases t rr peer now reply ls b)
  then show ?thesis using releases_shows [OF assms(2) releases(3)] by simp
next
  case (revoke_panics t rr peer now reply ls b)
  then show ?thesis using revoke_panics_shows [OF assms(2) revoke_panics(3)] by simp
next
  case (closes t)
  then show ?thesis using shows_quiet [OF assms(2) closes(3), of _ "svc_now s" s'] by simp
next
  case (asks t request peer)
  then show ?thesis using shows_quiet [OF assms(2) asks(3), of _ "svc_now s" s'] by simp
next
  case (reports_status t peer)
  then show ?thesis using shows_quiet [OF assms(2) reports_status(3), of _ "svc_now s" s'] by simp
next
  case (turns_away t rq peer)
  then show ?thesis using shows_quiet [OF assms(2) turns_away(3), of _ "svc_now s" s'] by simp
next
  case (records t event recorded_at outcome lines sink log stderr_ok)
  then show ?thesis using shows_quiet [OF assms(2) records(3), of _ "svc_now s" s'] by simp
next
  case (answers t response)
  then show ?thesis using shows_quiet [OF assms(2) answers(3), of _ "svc_now s" s'] by simp
qed

lemma agent_answers_snoc [simp]:
  "agent_answers [] = []"
  "agent_answers (tr @ [lab]) =
     agent_answers tr @ (case agent_label lab of None \<Rightarrow> [] | Some answer \<Rightarrow> [answer])"
  by (simp_all add: agent_answers_def map_filter_def split: option.splits)

lemma count_list_snoc [simp]: "count_list (xs @ [x]) y = count_list xs y + (if x = y then 1 else 0)"
  by (induction xs) auto

lemma service_runs_shows:
  assumes "service_runs h ops j fmt n s0 tr s" and "service_shows 0 s0 ca0"
  shows "\<exists>ca. agent_traces h ops ca0 (agent_answers tr) ca \<and>
    service_shows (count_list tr BackendPanicked) s ca"
  using assms(1)
proof (induction rule: service_runs.induct)
  case runs_start
  then show ?case using assms(2) by (auto intro: trace_start)
next
  case (runs_step tr s lab s')
  then obtain ca where ca: "agent_traces h ops ca0 (agent_answers tr) ca"
    "service_shows (count_list tr BackendPanicked) s ca" by blast
  show ?case
    using service_step_shows [OF runs_step.hyps(2) ca(2)] ca(1)
    by (cases lab) (auto intro: trace_step)
qed

section \<open>Threads and slots\<close>

text \<open>A thread that is not finished holds its slot.\<close>

definition threads_hold :: "nat \<Rightarrow> 'b service \<Rightarrow> bool" where
  "threads_hold n s \<longleftrightarrow>
     server_ok n (svc_server s) \<and> length (svc_phases s) = length (sv_threads (svc_server s)) \<and>
     (\<forall>t<length (svc_phases s). svc_phases s ! t \<noteq> Finished \<longrightarrow> t \<in> set (sv_holding (svc_server s)))"

lemma threads_hold_new: "threads_hold n (service_new ls b sink log)"
  by (simp add: threads_hold_def service_new_def) (simp add: server_new_def)

lemma server_step_holding:
  assumes "server_step n e sv = Some sv'" and "server_ok n sv"
  shows "set (sv_holding sv') =
    (case e of
       ThreadSpawned True \<Rightarrow> insert (length (sv_threads sv)) (set (sv_holding sv))
     | SlotReleased t \<Rightarrow> set (sv_holding sv) - {t}
     | _ \<Rightarrow> set (sv_holding sv))"
proof -
  have "distinct (sv_holding sv)" using assms(2) by (simp add: server_ok_def)
  then show ?thesis
    using assms(1)
    by (cases e) (auto simp: shutdown_def set_remove1_eq split: if_splits bool.splits)
qed

lemma server_moves_hold:
  assumes "threads_hold n s" and "server_step n e (svc_server s) = Some sv"
    and "\<And>t. e = SlotReleased t \<Longrightarrow> at_phase s t Finished"
    and "phases = svc_phases s @ (if e = ThreadSpawned True then [Serving] else [])"
  shows "threads_hold n (s\<lparr>svc_server := sv, svc_phases := phases\<rparr>)"
proof -
  have ok: "server_ok n (svc_server s)" and len: "length (svc_phases s) = length (sv_threads (svc_server s))"
    using assms(1) by (simp_all add: threads_hold_def)
  have held: "t \<in> set (sv_holding sv)" if "t < length phases" "phases ! t \<noteq> Finished" for t
  proof (cases "t < length (svc_phases s)")
    case True
    then have "svc_phases s ! t \<noteq> Finished" using that(2) assms(4) by (simp add: nth_append)
    moreover from this True have "t \<in> set (sv_holding (svc_server s))"
      using assms(1) by (simp add: threads_hold_def)
    ultimately show ?thesis
      using server_step_holding [OF assms(2) ok] assms(3)
      by (auto split: server_event.splits bool.splits)
  next
    case False
    then have "e = ThreadSpawned True" "t = length (sv_threads (svc_server s))"
      using that(1) assms(4) len by (auto split: if_splits)
    then show ?thesis using server_step_holding [OF assms(2) ok] by simp
  qed
  moreover have "length phases = length (sv_threads sv)"
    using server_step_threads [OF assms(2)] len assms(4) by simp
  ultimately show ?thesis
    using server_step_ok [OF ok assms(2)] by (simp add: threads_hold_def)
qed

lemma thread_moves_hold:
  assumes "threads_hold n s" and "at_phase s t p" and "p \<noteq> Finished"
    and "svc_server s' = svc_server s" and "svc_phases s' = (svc_phases s)[t := p']"
  shows "threads_hold n s'"
  using assms by (auto simp: threads_hold_def nth_list_update split: if_splits)

lemma service_step_hold:
  assumes "service_step h ops j fmt n lab s s'" and "threads_hold n s"
  shows "threads_hold n s'"
  using assms(1)
proof (cases rule: service_step.cases)
  case (server_moves e sv phases)
  then show ?thesis using server_moves_hold [OF assms(2)] by simp
next
  case (closes t)
  then show ?thesis using thread_moves_hold [OF assms(2) closes(3), of s' Finished] by simp
next
  case (asks t request peer)
  then show ?thesis using thread_moves_hold [OF assms(2) asks(3), of s' "Asked request peer"] by simp
next
  case (reports_status t peer)
  then show ?thesis using thread_moves_hold [OF assms(2) reports_status(3), of s' "Computed (event_for AgentStatus peer handle_status)"] by simp
next
  case (turns_away t rq peer)
  then show ?thesis using thread_moves_hold [OF assms(2) turns_away(3), of s' "Computed (event_for (RequestLease rq) peer (PeerNotAuthorizable, RespLeaseDenied DenialIndeterminateEvidence))"] by simp
next
  case (issues t rq peer obs now l ls)
  then show ?thesis using thread_moves_hold [OF assms(2) issues(3), of s' "Issued rq peer l"] by simp
next
  case (refuses t rq peer obs now f ls)
  then show ?thesis using thread_moves_hold [OF assms(2) refuses(3), of s' "Computed (event_for (RequestLease rq) peer (issue_failure_reply f))"] by simp
next
  case (enforces t rq peer l r b)
  then show ?thesis using thread_moves_hold [OF assms(2) enforces(3), of s' "Enforced rq peer l r"] by simp
next
  case (panics t rq peer l)
  then show ?thesis using thread_moves_hold [OF assms(2) panics(3), of s' "Answering (RespError Internal)"] by simp
next
  case (reads_clock t rq peer l r now)
  then show ?thesis using thread_moves_hold [OF assms(2) reads_clock(3), of s' "Timed rq peer l r now"] by simp
next
  case (finishes t rq peer l r reading reply ls)
  then show ?thesis using thread_moves_hold [OF assms(2) finishes(3), of s' "Computed (event_for (RequestLease rq) peer reply)"] by simp
next
  case (releases t rr peer now reply ls b)
  then show ?thesis using thread_moves_hold [OF assms(2) releases(3), of s' "Computed (event_for (ReleaseLease rr) peer reply)"] by simp
next
  case (revoke_panics t rr peer now reply ls b)
  then show ?thesis using thread_moves_hold [OF assms(2) revoke_panics(3), of s' "Answering (RespError Internal)"] by simp
next
  case (records t event recorded_at outcome lines sink log stderr_ok)
  then show ?thesis using thread_moves_hold [OF assms(2) records(3), of s' "Answering (recorded_answer stderr_ok lines event)"] by simp
next
  case (answers t response)
  then show ?thesis using thread_moves_hold [OF assms(2) answers(3), of s' Finished] by simp
qed

lemma service_runs_hold:
  "service_runs h ops j fmt n s0 tr s \<Longrightarrow> threads_hold n s0 \<Longrightarrow> threads_hold n s"
  by (induction rule: service_runs.induct) (auto intro: service_step_hold)

definition threads_in_flight :: "'b service \<Rightarrow> nat" where
  "threads_in_flight s =
     length (filter (\<lambda>p. issued_lease p \<noteq> None \<or> enforced_lease p \<noteq> None) (svc_phases s))"

lemma length_map_filter: "length (List.map_filter f xs) = length (filter (\<lambda>x. f x \<noteq> None) xs)"
  by (induction xs) (auto simp: map_filter_def)

lemma in_flight_collections:
  "length (List.map_filter issued_lease ps) + length (List.map_filter enforced_lease ps) =
     length (filter (\<lambda>p. issued_lease p \<noteq> None \<or> enforced_lease p \<noteq> None) ps)"
proof -
  have "enforced_lease p = Some x \<Longrightarrow> issued_lease p = None" for p x
    by (cases p) simp_all
  then show ?thesis
    unfolding length_map_filter by (induction ps) auto
qed

lemma threads_in_flight_bound:
  assumes "threads_hold n s"
  shows "threads_in_flight s \<le> length (sv_holding (svc_server s))"
proof -
  let ?P = "\<lambda>p. issued_lease p \<noteq> None \<or> enforced_lease p \<noteq> None"
  have "threads_in_flight s = card {t. t < length (svc_phases s) \<and> ?P (svc_phases s ! t)}"
    by (simp add: threads_in_flight_def length_filter_conv_card)
  also have "\<dots> \<le> card (set (sv_holding (svc_server s)))"
  proof (rule card_mono)
    have "?P p \<Longrightarrow> p \<noteq> Finished" for p by auto
    then show "{t. t < length (svc_phases s) \<and> ?P (svc_phases s ! t)} \<subseteq> set (sv_holding (svc_server s))"
      using assms unfolding threads_hold_def by blast
  qed simp
  also have "\<dots> \<le> length (sv_holding (svc_server s))" by (rule card_length)
  finally show ?thesis .
qed

lemma shown_in_flight:
  assumes "service_shows k s ca"
  shows "length (in_flight ca) = threads_in_flight s"
proof -
  have "length (ca_issued ca) = length (List.map_filter issued_lease (svc_phases s))"
    "length (ca_enforced ca) = length (List.map_filter enforced_lease (svc_phases s))"
    using assms unfolding service_shows_def by (metis size_mset)+
  then show ?thesis
    using in_flight_collections [of "svc_phases s"] by (simp add: in_flight_def threads_in_flight_def)
qed

section \<open>A thread that runs alone\<close>

lemma service_runs_trans:
  assumes "service_runs h ops j fmt n s1 tr' s2" and "service_runs h ops j fmt n s0 tr s1"
  shows "service_runs h ops j fmt n s0 (tr @ tr') s2"
  using assms
proof (induction rule: service_runs.induct)
  case (runs_step tr' s lab s')
  then have "service_runs h ops j fmt n s0 ((tr @ tr') @ [lab]) s'"
    by (blast intro: service_runs.runs_step)
  then show ?case by simp
qed simp

lemma runs_one: "service_step h ops j fmt n lab s s' \<Longrightarrow> service_runs h ops j fmt n s [lab] s'"
  using service_runs.runs_step [OF runs_start] by fastforce

lemma runs_cons:
  "\<lbrakk>service_step h ops j fmt n lab s s1; service_runs h ops j fmt n s1 tr s'\<rbrakk> \<Longrightarrow>
     service_runs h ops j fmt n s (lab # tr) s'"
  using service_runs_trans [OF _ runs_one] by fastforce

lemma computed_ends:
  assumes "at_phase s t (Computed event)"
    and "live_record j fmt recorded_at outcome event (svc_sink s, svc_log s) = (lines, (sink, log))"
  shows "service_runs h ops j fmt n s
    [RecordedEvent t recorded_at outcome event, Sent t (recorded_answer stderr_ok lines event)]
    (to_phase t Finished (s\<lparr>svc_sink := sink, svc_log := log\<rparr>))"
proof -
  let ?s1 = "to_phase t (Answering (recorded_answer stderr_ok lines event)) (s\<lparr>svc_sink := sink, svc_log := log\<rparr>)"
  have "service_step h ops j fmt n (RecordedEvent t recorded_at outcome event) s ?s1"
    using assms by (rule records)
  moreover have "service_step h ops j fmt n (Sent t (recorded_answer stderr_ok lines event)) ?s1
      (to_phase t Finished ?s1)"
    by (rule answers) (use assms(1) in simp)
  ultimately show ?thesis
    using runs_cons [OF _ runs_one] by fastforce
qed

text \<open>Labels of steps that neither record nor answer.\<close>

fun silent_label :: "service_label \<Rightarrow> bool" where
  "silent_label (RecordedEvent _ _ _ _) \<longleftrightarrow> False"
| "silent_label (Sent _ _) \<longleftrightarrow> False"
| "silent_label _ \<longleftrightarrow> True"

definition silent :: "service_label list \<Rightarrow> bool" where
  "silent tr \<longleftrightarrow> list_all silent_label tr"

text \<open>What a run must end in when one thread has served its request whole: the state \<open>handle\<close> leaves, with
  the event recorded and the answer sent.\<close>

definition served_whole ::
  "nat \<Rightarrow> monotonic_time \<Rightarrow> lease_state \<Rightarrow> 'b \<Rightarrow> live_sink \<times> log_file \<Rightarrow> 'b service \<Rightarrow> 'b service \<Rightarrow> bool"
where
  "served_whole t reply_now ls b sink s s' \<longleftrightarrow>
     (\<exists>now. svc_now s \<le> now \<and> now \<le> reply_now \<and> s' = to_phase t Finished (s\<lparr>svc_now := now, svc_store := ls, svc_backend := b,
        svc_sink := fst sink, svc_log := snd sink\<rparr>))"

lemma served_from_computed:
  assumes "at_phase s1 t (Computed event)"
    and "s1 = to_phase t (Computed event) (s\<lparr>svc_now := now, svc_store := ls, svc_backend := b\<rparr>)"
    and "svc_now s \<le> now" and "now \<le> reply_now" and "service_runs h ops j fmt n s tr s1" and "silent tr"
    and "live_record j fmt recorded_at outcome event (svc_sink s, svc_log s) = (lines, (sink, log))"
  shows "\<exists>tr' s'. silent tr' \<and> service_runs h ops j fmt n s
      (tr' @ [RecordedEvent t recorded_at outcome event, Sent t (recorded_answer stderr_ok lines event)]) s' \<and>
    served_whole t reply_now ls b (sink, log) s s'"
proof -
  have "live_record j fmt recorded_at outcome event (svc_sink s1, svc_log s1) = (lines, (sink, log))"
    using assms(2,7) by simp
  from service_runs_trans [OF computed_ends [OF assms(1) this, of h ops n stderr_ok] assms(5)]
  show ?thesis
    using assms(2-4,6) by (fastforce simp: served_whole_def)
qed

lemma lease_request_computes:
  assumes at: "at_phase s t (Asked (RequestLease rq) peer)"
    and le: "svc_now s \<le> now" "now \<le> reply_now" and room: "counter_room (svc_store s) 1"
    and run: "handle_request_lease h ops now reply_now rq peer (svc_store s, svc_backend s) = (reply, (ls, b))"
  shows "\<exists>tr now'. svc_now s \<le> now' \<and> now' \<le> reply_now \<and> silent tr \<and> service_runs h ops j fmt n s tr
    (to_phase t (Computed (event_for (RequestLease rq) peer reply))
       (s\<lparr>svc_now := now', svc_store := ls, svc_backend := b\<rparr>))"
proof (cases "authorizable peer")
  case None
  then have "reply = (PeerNotAuthorizable, RespLeaseDenied DenialIndeterminateEvidence)"
    "ls = svc_store s" "b = svc_backend s"
    using run by (simp_all add: handle_request_lease_def)
  then show ?thesis
    using runs_one [OF turns_away [OF at None]] le
    by (intro exI [of _ "[Quiet]"] exI [of _ "svc_now s"]) (auto simp: silent_def)
next
  case (Some obs)
  obtain r ls1 where iss: "issue_reserving_capacity h now (provenance_for rq obs) (svc_store s) = (r, ls1)"
    by fastforce
  show ?thesis
  proof (cases r)
    case (Inl f)
    have "reply = issue_failure_reply f" "ls = ls1" "b = svc_backend s"
      using run iss Inl by (auto simp: handle_request_lease_def Some)
    then show ?thesis
      using runs_one [OF refuses [OF at Some le(1) iss [unfolded Inl]]] le
      by (intro exI [of _ "[AgentMoved (RequestAnswered now (snd (issue_failure_reply f)))]"] exI [of _ now])
         (simp add: silent_def)
  next
    case (Inr l)
    obtain a b1 where enf: "bo_enforce ops (svc_backend s) (prov_request (cl_origin l)) = (a, b1)"
      by fastforce
    have fin: "finish_request reply_now l a ls1 = (reply, ls)" and b: "b = b1"
      using run iss Inr enf by (auto simp: handle_request_lease_def Some split_beta prod_eq_iff)
    let ?s1 = "to_phase t (Issued rq peer l) (s\<lparr>svc_now := now, svc_store := ls1\<rparr>)"
    let ?s2 = "to_phase t (Enforced rq peer l a) (?s1\<lparr>svc_backend := b1\<rparr>)"
    let ?s3 = "to_phase t (Timed rq peer l a reply_now) (?s2\<lparr>svc_now := reply_now\<rparr>)"
    let ?s4 = "to_phase t (Computed (event_for (RequestLease rq) peer reply)) (?s3\<lparr>svc_store := ls\<rparr>)"
    have r1: "service_step h ops j fmt n (AgentMoved NoAnswer) s ?s1"
      by (rule issues [OF at Some le(1) room]) (use iss Inr in simp)
    have r2: "service_step h ops j fmt n (AgentMoved NoAnswer) ?s1 ?s2"
      by (rule enforces) (use at enf in simp_all)
    have r3: "service_step h ops j fmt n Quiet ?s2 ?s3"
      by (rule reads_clock) (use at le(2) in simp_all)
    have r4: "service_step h ops j fmt n (AgentMoved (RequestAnswered reply_now (snd reply))) ?s3 ?s4"
      by (rule finishes) (use at fin in simp_all)
    have "service_runs h ops j fmt n s
        [AgentMoved NoAnswer, AgentMoved NoAnswer, Quiet, AgentMoved (RequestAnswered reply_now (snd reply))] ?s4"
      by (rule runs_cons [OF r1 runs_cons [OF r2 runs_cons [OF r3 runs_one [OF r4]]]])
    moreover have "?s4 = to_phase t (Computed (event_for (RequestLease rq) peer reply))
        (s\<lparr>svc_now := reply_now, svc_store := ls, svc_backend := b\<rparr>)"
      by (simp add: b)
    ultimately show ?thesis
      using le by (intro exI [of _ "[AgentMoved NoAnswer, AgentMoved NoAnswer, Quiet,
          AgentMoved (RequestAnswered reply_now (snd reply))]"] exI [of _ reply_now])
        (simp add: silent_def)
  qed
qed

text \<open>From a thread that has its request, the steps of that thread alone do what \<open>handle\<close> does.\<close>

lemma request_computes:
  assumes at: "at_phase s t (Asked request peer)"
    and le: "svc_now s \<le> now" "now \<le> reply_now" and room: "counter_room (svc_store s) 1"
    and run: "handle h ops now reply_now request peer (svc_store s, svc_backend s) = (response, event, (ls, b))"
  shows "\<exists>tr now'. svc_now s \<le> now' \<and> now' \<le> reply_now \<and> silent tr \<and> service_runs h ops j fmt n s tr
    (to_phase t (Computed event) (s\<lparr>svc_now := now', svc_store := ls, svc_backend := b\<rparr>))"
proof (cases request)
  case (RequestLease rq)
  obtain reply where "handle_request_lease h ops now reply_now rq peer (svc_store s, svc_backend s) = (reply, (ls, b))"
    and "event = event_for request peer reply"
    using run by (auto simp: handle_def event_for_def RequestLease Let_def split_beta prod_eq_iff)
  then show ?thesis
    using lease_request_computes [OF at [unfolded RequestLease] le room] by (simp add: RequestLease)
next
  case (ReleaseLease rr)
  obtain reply where rel: "handle_release_lease ops now rr peer (svc_store s, svc_backend s) = (reply, (ls, b))"
    and "event = event_for request peer reply"
    using run by (auto simp: handle_def event_for_def ReleaseLease Let_def split_beta prod_eq_iff)
  then show ?thesis
    using runs_one [OF releases [OF at [unfolded ReleaseLease] le(1) rel]] le
    by (intro exI [of _ "[AgentMoved (ReleaseAnswered now (rr_lease_id rr) peer (snd reply))]"] exI [of _ now])
       (simp add: ReleaseLease silent_def)
next
  case AgentStatus
  then have "event = event_for AgentStatus peer handle_status" "ls = svc_store s" "b = svc_backend s"
    using run by (auto simp: handle_def event_for_def split_beta)
  then show ?thesis
    using runs_one [OF reports_status [OF at [unfolded AgentStatus]]] le
    by (intro exI [of _ "[Quiet]"] exI [of _ "svc_now s"]) (auto simp: silent_def)
qed

section \<open>A request of a small agent\<close>

definition demo_formats :: event_formats where
  "demo_formats =
     \<lparr>ef_operation = (\<lambda>_. ''RequestLease''), ef_request = (\<lambda>_. ''request''), ef_outcome = (\<lambda>_. ''outcome''),
      ef_response = (\<lambda>_. ''response'')\<rparr>"

definition demo_live_sink :: live_sink where
  "demo_live_sink = LiveAudit (sink_from_writer [] ''agent-1'')"

definition demo_service :: "fake_backend service" where
  "demo_service = service_new demo_state demo_backend demo_live_sink \<lparr>lf_mode = 384, lf_contents = []\<rparr>"

definition demo_asked :: "fake_backend service" where
  "demo_asked = demo_service
     \<lparr>svc_server := \<lparr>sv_phase = Waiting, sv_active = 1, sv_threads = [0], sv_holding = [0], sv_ended = [],
                     sv_shutdown = False\<rparr>,
      svc_phases := [Asked (RequestLease demo_lease_request) demo_peer]\<rparr>"

lemma quiet_server_step:
  assumes "service_runs h ops j fmt n s0 tr s" and "server_step n e (svc_server s) = Some sv"
    and "\<And>t. e \<noteq> SlotReleased t"
    and "s' = s\<lparr>svc_server := sv, svc_phases := svc_phases s @ (if e = ThreadSpawned True then [Serving] else [])\<rparr>"
  shows "service_runs h ops j fmt n s0 (tr @ [Quiet]) s'"
  unfolding assms(4) by (rule runs_step [OF assms(1)]) (rule server_moves [OF assms(2)], use assms(3) in simp_all)

lemma demo_run_asked:
  "service_runs demo_handler ops j fmt 1 demo_service (replicate 5 Quiet) demo_asked"
proof -
  let ?sv = "\<lambda>p a ts hs. \<lparr>sv_phase = p, sv_active = a, sv_threads = ts, sv_holding = hs, sv_ended = [],
    sv_shutdown = False\<rparr>"
  let ?s = "\<lambda>sv ps. demo_service\<lparr>svc_server := sv, svc_phases := ps\<rparr>"
  have "service_runs demo_handler ops j fmt 1 demo_service [] (?s (?sv Waiting 0 [] []) [])"
    by (simp add: demo_service_def service_new_def server_new_def runs_start)
  then have "service_runs demo_handler ops j fmt 1 demo_service ([] @ [Quiet]) (?s (?sv Accepted 0 [] []) [])"
    by (rule quiet_server_step [where e = "Incoming True"]) simp_all
  then have "service_runs demo_handler ops j fmt 1 demo_service (([] @ [Quiet]) @ [Quiet]) (?s (?sv Admitted 0 [] []) [])"
    by (rule quiet_server_step [where e = CapacityChecked]) simp_all
  then have "service_runs demo_handler ops j fmt 1 demo_service ((([] @ [Quiet]) @ [Quiet]) @ [Quiet])
      (?s (?sv Reserved 1 [] []) [])"
    by (rule quiet_server_step [where e = SlotReserved]) simp_all
  then have "service_runs demo_handler ops j fmt 1 demo_service (((([] @ [Quiet]) @ [Quiet]) @ [Quiet]) @ [Quiet])
      (?s (?sv Waiting 1 [0] [0]) [Serving])"
    by (rule quiet_server_step [where e = "ThreadSpawned True"]) simp_all
  moreover have "service_step demo_handler ops j fmt 1 Quiet (?s (?sv Waiting 1 [0] [0]) [Serving]) demo_asked"
    using asks [where s = "?s (?sv Waiting 1 [0] [0]) [Serving]" and t = 0 and
        request = "RequestLease demo_lease_request" and peer = demo_peer]
    by (simp add: demo_asked_def)
  ultimately have "service_runs demo_handler ops j fmt 1 demo_service
      ((((([] @ [Quiet]) @ [Quiet]) @ [Quiet]) @ [Quiet]) @ [Quiet]) demo_asked"
    by (rule runs_step)
  then show ?thesis by (simp add: numeral_eq_Suc)
qed

section \<open>Properties\<close>

text \<open>C3. The running agent keeps the promises of the ledger. Whatever the accept loop, the connection
  threads, their requests, the sink and the clock do, in any interleaving, what the agent answers is a
  run of the ledger, and the leases in its store that are unexpired at the ledger's time are the live
  leases of that run.\<close>

theorem service_refines_ledger:
  assumes "handler_new inst policy config = (h, ls0)"
    and "service_runs h ops j fmt n (service_new ls0 b0 sink log) tr s"
  shows "\<exists>g. ledger_runs h ledger_start (map ledger_event_of (agent_answers tr)) g \<and>
    lg_now g \<le> svc_now s \<and> lg_live g = unexpired (lg_now g) (state_get (svc_store s))"
proof -
  obtain ca where trace: "agent_traces h ops (concurrent_new ls0 b0) (agent_answers tr) ca"
    and sees: "service_shows (count_list tr BackendPanicked) s ca"
    using service_runs_shows [OF assms(2) service_shows_new] by blast
  show ?thesis
    using ledger_of_agent [OF assms(1) trace] sees
    by (auto simp: refines_ledger_def live_leases_def service_shows_def)
qed

lemma service_refines_ledger_witness:
  "\<exists>tr s g. service_runs demo_handler fake_ops audit_demo_json demo_formats 1 demo_service tr s \<and>
     ledger_runs demo_handler ledger_start (map ledger_event_of (agent_answers tr)) g"
  using service_refines_ledger [OF demo_handler_new demo_run_asked [unfolded demo_service_def]]
    demo_run_asked by blast

text \<open>C27. The connection cap bounds the reservations: the slots the lease store holds for leases that are
  not stored yet are those of threads between the issue and the end of their request, and those that
  panics of the backend lost. So they never exceed the connections being served and the panics, and
  when no connection is served only the lost ones are left.\<close>

theorem connections_bound_reservations:
  assumes "handler_new inst policy config = (h, ls0)"
    and "service_runs h ops j fmt n (service_new ls0 b0 sink log) tr s"
  shows "ls_reserved (svc_store s) = threads_in_flight s + count_list tr BackendPanicked \<and>
    threads_in_flight s \<le> length (sv_holding (svc_server s)) \<and>
    length (sv_holding (svc_server s)) \<le> n \<and>
    (sv_holding (svc_server s) = [] \<longrightarrow> ls_reserved (svc_store s) = count_list tr BackendPanicked)"
proof -
  obtain ca where trace: "agent_traces h ops (concurrent_new ls0 b0) (agent_answers tr) ca"
    and sees: "service_shows (count_list tr BackendPanicked) s ca"
    using service_runs_shows [OF assms(2) service_shows_new] by blast
  have "flights_justified h ca"
    using agent_traces_refine [OF trace flights_justified_new [OF assms(1)] refines_ledger_new [OF assms(1)]]
    by blast
  then have "ls_reserved (svc_store s) = threads_in_flight s + count_list tr BackendPanicked"
    using shown_in_flight [OF sees] sees
    by (simp add: flights_justified_def concurrent_ok_def service_shows_def)
  moreover have hold: "threads_hold n s"
    by (rule service_runs_hold [OF assms(2) threads_hold_new])
  moreover have "length (sv_holding (svc_server s)) \<le> n"
    using hold by (auto simp: threads_hold_def server_ok_def)
  ultimately show ?thesis
    using threads_in_flight_bound [OF hold] by auto
qed

lemma connections_bound_reservations_witness:
  "\<exists>tr. service_runs demo_handler fake_ops audit_demo_json demo_formats 1 demo_service tr demo_asked \<and>
     ls_reserved (svc_store demo_asked) = threads_in_flight demo_asked + count_list tr BackendPanicked"
  using connections_bound_reservations [OF demo_handler_new demo_run_asked [unfolded demo_service_def]]
    demo_run_asked by blast

end
