(* ===== verification/Eltanin_Service_Audit.thy ===== *)
theory Eltanin_Service_Audit
  imports Eltanin_Service
begin

text \<open>
  The audit trail of the running agent of \<open>Eltanin_Service\<close>, with the sink of
  \<open>crates/eltanin-agent/src/authz/audit.rs\<close> on a log of its own. Threads record their events in any
  order, after they have let go of the lease store and before they answer. The lemmas follow the log,
  the store and the answers through every step; the properties say what the log tells of the leases
  and of the answers, and where it is the other way round: an answer that does not tell what the log
  and the store hold.
\<close>

section \<open>The log of a run\<close>

fun recorded_call :: "service_label \<Rightarrow> append_call option" where
  "recorded_call (RecordedEvent _ t w event) = Some (t, w, recorded_entry event)"
| "recorded_call _ = None"

definition recorded_calls :: "service_label list \<Rightarrow> append_call list" where
  "recorded_calls tr = List.map_filter recorded_call tr"

definition recorded_events :: "service_label list \<Rightarrow> authorization_event set" where
  "recorded_events tr = {event. \<exists>th t w. RecordedEvent th t w event \<in> set tr}"

lemma recorded_simps [simp]:
  "recorded_calls [] = []"
  "recorded_calls (tr @ [lab]) =
     recorded_calls tr @ (case recorded_call lab of None \<Rightarrow> [] | Some c \<Rightarrow> [c])"
  "recorded_events [] = {}"
  "recorded_events (tr @ [RecordedEvent th t w event]) = insert event (recorded_events tr)"
  by (auto simp: recorded_calls_def recorded_events_def map_filter_def split: option.splits)

lemma recorded_events_snoc:
  "recorded_events tr \<subseteq> recorded_events (tr @ [lab])"
  by (auto simp: recorded_events_def)

lemma recorded_calls_mem:
  "c \<in> set (recorded_calls tr) \<longleftrightarrow>
     (\<exists>th t w event. RecordedEvent th t w event \<in> set tr \<and> c = (t, w, recorded_entry event))"
proof -
  have "recorded_call lab = Some c \<longleftrightarrow>
      (\<exists>th t w event. lab = RecordedEvent th t w event \<and> c = (t, w, recorded_entry event))" for lab
    by (cases lab) auto
  then show ?thesis by (force simp: recorded_calls_def map_filter_def)
qed

lemma length_recorded_calls: "length (recorded_calls tr) \<le> length tr"
  by (simp add: recorded_calls_def length_map_filter)

definition log_follows ::
  "'v audit_json \<Rightarrow> issuer_instance_id \<Rightarrow> service_label list \<Rightarrow> 'b service \<Rightarrow> bool" where
  "log_follows j inst tr s \<longleftrightarrow>
     svc_sink s = LiveAudit (sink_run j (recorded_calls tr) (sink_from_writer [] inst)) \<and>
     lf_contents (svc_log s) = as_file (sink_run j (recorded_calls tr) (sink_from_writer [] inst))"

lemma live_record_follows:
  assumes "live_record j fmt t w event (LiveAudit k, log) = (lines, (sink, log'))"
    and "lf_contents log = as_file k"
  shows "sink = LiveAudit (record_event j t w event k) \<and>
    lf_contents log' = as_file (record_event j t w event k)"
proof -
  have "k\<lparr>as_file := lf_contents log\<rparr> = k" by (simp add: assms(2))
  then have "record_event j t w event (k\<lparr>as_file := lf_contents log\<rparr>) = record_event j t w event k"
    by simp
  moreover have "sink = LiveAudit (record_event j t w event (k\<lparr>as_file := lf_contents log\<rparr>))"
    "log' = snd (append_shared j t w (recorded_entry event) k log)"
    using live_record_audit(1) [of j fmt t w event k log] assms(1) by simp_all
  ultimately show ?thesis
    by (simp add: append_shared_def record_event_def Let_def split_beta)
qed

lemma log_follows_step:
  assumes "service_step h ops j fmt n lab s s'" and "log_follows j inst tr s"
  shows "log_follows j inst (tr @ [lab]) s'"
  using assms(1)
proof (cases rule: service_step.cases)
  case (records t event recorded_at outcome lines sink log stderr_ok)
  then show ?thesis
    using assms(2) live_record_follows [of j fmt recorded_at outcome event _ "svc_log s" lines sink log]
    by (simp add: log_follows_def sink_run_snoc record_event_def)
qed (use assms(2) in \<open>simp_all add: log_follows_def\<close>)

section \<open>Leases and answers\<close>

text \<open>The lease of a thread was issued for the thread's own request, and an event names a grant exactly
  when its response is one.\<close>

fun phase_honest :: "thread_phase \<Rightarrow> bool" where
  "phase_honest (Issued rq peer l) \<longleftrightarrow>
     (\<exists>obs. authorizable peer = Some obs \<and> cl_origin l = provenance_for rq obs)"
| "phase_honest (Enforced rq peer l r) \<longleftrightarrow>
     (\<exists>obs. authorizable peer = Some obs \<and> cl_origin l = provenance_for rq obs)"
| "phase_honest (Timed rq peer l r reading) \<longleftrightarrow>
     (\<exists>obs. authorizable peer = Some obs \<and> cl_origin l = provenance_for rq obs)"
| "phase_honest (Computed event) \<longleftrightarrow>
     (\<forall>lid. (\<exists>e. ev_outcome event = Granted lid e) \<longleftrightarrow>
        (\<exists>d. ev_response event = LeaseGranted \<lparr>lv_lease_id = lid, lv_remaining = d\<rparr>))"
| "phase_honest _ \<longleftrightarrow> True"

lemma honest_refusal:
  "phase_honest (Computed (event_for request peer (issue_failure_reply f)))"
  by (cases f) (simp_all add: event_for_def)

lemma honest_finish:
  "finish_request reading l r ls = (reply, ls') \<Longrightarrow> phase_honest (Computed (event_for request peer reply))"
  by (auto simp: finish_request_def event_for_def Let_def split: sum.splits enforcement_result.splits if_splits)

lemma honest_release:
  "handle_release_lease ops now rr peer st = (reply, st') \<Longrightarrow>
     phase_honest (Computed (event_for request peer' reply))"
  by (auto simp: handle_release_lease_def event_for_def Let_def split_beta split: option.splits if_splits)

lemma finished_grant_recorded:
  assumes "finish_request reading l r ls = (reply, ls')" and "phase_honest (Timed rq peer l r reading)"
  shows "set (ls_leases ls') \<subseteq> set (ls_leases ls) \<or>
    (set (ls_leases ls') \<subseteq> insert (cl_id l, l) (set (ls_leases ls)) \<and>
     records_grant (cl_id l) l (recorded_entry (event_for (RequestLease rq) peer reply)))"
proof (cases "r = Inr Allowed \<and> reading < cl_expires_at l")
  case True
  then have "reply = (Granted (cl_id l) (cl_expires_at l),
      LeaseGranted \<lparr>lv_lease_id = cl_id l, lv_remaining = unat (cl_expires_at l) - unat reading\<rparr>)"
    and "ls' = state_insert l ls"
    using assms(1) by (auto simp: finish_request_simps)
  then show ?thesis
    using assms(2) set_update_subset [of "cl_id l" l "ls_leases ls"]
    by (auto simp: records_grant_def recorded_entry_def event_for_def recorded_peer_of_def authorizable_Some
        lease_resource_def provenance_for_def provenance_new_def)
next
  case False
  then have "ls' = compensate (cl_id l) ls"
    using assms(1) finish_request_cases(2) [of reading l r ls] by auto
  then show ?thesis by simp
qed

text \<open>Every lease in the store has its grant on record, or computed by a thread that has not recorded yet.\<close>

definition told :: "service_label list \<Rightarrow> 'b service \<Rightarrow> bool" where
  "told tr s \<longleftrightarrow>
     (\<forall>p\<in>set (svc_phases s). phase_honest p) \<and>
     (\<forall>event\<in>recorded_events tr. phase_honest (Computed event)) \<and>
     (\<forall>(lid, l)\<in>set (ls_leases (svc_store s)). \<exists>event.
        records_grant lid l (recorded_entry event) \<and>
        (event \<in> recorded_events tr \<or> Computed event \<in> set (svc_phases s)))"

lemma kept_in_update:
  assumes "q \<in> set xs" and "q \<noteq> xs ! t"
  shows "q \<in> set (xs[t := p])"
proof -
  obtain i where "i < length xs" "xs ! i = q" using assms(1) by (auto simp: in_set_conv_nth)
  moreover from this assms(2) have "i \<noteq> t" by auto
  ultimately show ?thesis by (metis length_list_update nth_list_update_neq nth_mem)
qed

lemma told_move:
  assumes old: "told tr s" and at: "at_phase s t p" and moved: "svc_phases s' = (svc_phases s)[t := p']"
    and honest: "phase_honest p'"
    and recorded: "recorded_events (tr @ [lab]) = recorded_events tr \<union> {event. p = Computed event}"
    and leases: "\<forall>(lid, l)\<in>set (ls_leases (svc_store s')). (lid, l) \<in> set (ls_leases (svc_store s)) \<or>
      (\<exists>event. p' = Computed event \<and> records_grant lid l (recorded_entry event))"
  shows "told (tr @ [lab]) s'"
proof -
  have within: "set (svc_phases s') \<subseteq> insert p' (set (svc_phases s))"
    unfolding moved by (rule set_update_subset_insert)
  have "p \<in> set (svc_phases s)" using at by (metis nth_mem)
  then have "phase_honest p" using old by (simp add: told_def)
  then have "\<forall>event\<in>recorded_events (tr @ [lab]). phase_honest (Computed event)"
    using old recorded by (auto simp: told_def simp del: phase_honest.simps(4))
  moreover have "\<forall>q\<in>set (svc_phases s'). phase_honest q"
    using old within honest by (auto simp: told_def)
  moreover have "\<exists>event. records_grant lid l (recorded_entry event) \<and>
      (event \<in> recorded_events (tr @ [lab]) \<or> Computed event \<in> set (svc_phases s'))"
    if l: "(lid, l) \<in> set (ls_leases (svc_store s'))" for lid l
  proof (cases "(lid, l) \<in> set (ls_leases (svc_store s))")
    case True
    then obtain event where event: "records_grant lid l (recorded_entry event)"
      "event \<in> recorded_events tr \<or> Computed event \<in> set (svc_phases s)"
      using old by (fastforce simp: told_def)
    have "event \<in> recorded_events (tr @ [lab]) \<or> Computed event \<in> set (svc_phases s')"
    proof (cases "p = Computed event")
      case True
      then show ?thesis using recorded by simp
    next
      case False
      then show ?thesis
        using event(2) recorded at kept_in_update [of "Computed event" "svc_phases s" t p'] by (auto simp: moved)
    qed
    with event(1) show ?thesis by blast
  next
    case False
    then obtain event where "p' = Computed event" "records_grant lid l (recorded_entry event)"
      using leases l by fastforce
    moreover have "p' \<in> set (svc_phases s')"
      using at by (simp add: moved set_update_memI)
    ultimately show ?thesis by blast
  qed
  ultimately show ?thesis unfolding told_def by blast
qed

lemma recorded_quiet:
  "recorded_call lab = None \<Longrightarrow> recorded_events (tr @ [lab]) = recorded_events tr"
  by (cases lab) (auto simp: recorded_events_def)

lemma told_step:
  assumes "service_step h ops j fmt n lab s s'" and "told tr s"
  shows "told (tr @ [lab]) s'"
  using assms(1)
proof (cases rule: service_step.cases)
  case (server_moves e sv phases)
  have "recorded_events (tr @ [lab]) = recorded_events tr"
    by (rule recorded_quiet) (simp add: server_moves(1))
  then show ?thesis
    using assms(2) server_moves by (auto simp: told_def)
next
  case (closes t)
  then show ?thesis
    by (intro told_move [OF assms(2) closes(3), where p' = Finished]) (auto simp: recorded_quiet)
next
  case (asks t request peer)
  then show ?thesis
    by (intro told_move [OF assms(2) asks(3), where p' = "Asked request peer"]) (auto simp: recorded_quiet)
next
  case (reports_status t peer)
  then show ?thesis
    by (intro told_move [OF assms(2) reports_status(3), where p' = "Computed (event_for AgentStatus peer handle_status)"])
       (auto simp: recorded_quiet event_for_def handle_status_def)
next
  case (turns_away t rq peer)
  then show ?thesis
    by (intro told_move [OF assms(2) turns_away(3), where p' = "Computed (event_for (RequestLease rq) peer
          (PeerNotAuthorizable, RespLeaseDenied DenialIndeterminateEvidence))"])
       (auto simp: recorded_quiet event_for_def)
next
  case (issues t rq peer obs now l ls)
  have "set (ls_leases ls) \<subseteq> set (ls_leases (svc_store s))"
    using issues(7) by (auto simp: issue_cap_Inr prune_def)
  moreover have "cl_origin l = provenance_for rq obs"
    using issues(7) by (auto simp: issue_cap_Inr issue_Inr_iff)
  ultimately show ?thesis
    using issues by (intro told_move [OF assms(2) issues(3), where p' = "Issued rq peer l"])
      (auto simp: recorded_quiet)
next
  case (refuses t rq peer obs now f ls)
  have "ls = prune now (svc_store s)"
    using refuses(6) by (rule issue_cap_Inl_state)
  then have "set (ls_leases ls) \<subseteq> set (ls_leases (svc_store s))"
    by (auto simp: prune_def)
  then show ?thesis
    using refuses
    by (intro told_move [OF assms(2) refuses(3), where p' = "Computed (event_for (RequestLease rq) peer (issue_failure_reply f))"])
       (auto simp: recorded_quiet honest_refusal simp del: phase_honest.simps(4))
next
  case (enforces t rq peer l r b)
  have "Issued rq peer l \<in> set (svc_phases s)" using enforces(3) by (metis nth_mem)
  then have "phase_honest (Enforced rq peer l r)" using assms(2) by (fastforce simp: told_def)
  then show ?thesis
    using enforces by (intro told_move [OF assms(2) enforces(3), where p' = "Enforced rq peer l r"])
      (auto simp: recorded_quiet)
next
  case (panics t rq peer l)
  then show ?thesis
    by (intro told_move [OF assms(2) panics(3), where p' = "Answering (RespError Internal)"])
       (auto simp: recorded_quiet)
next
  case (reads_clock t rq peer l r now)
  have "Enforced rq peer l r \<in> set (svc_phases s)" using reads_clock(3) by (metis nth_mem)
  then have "phase_honest (Timed rq peer l r now)" using assms(2) by (fastforce simp: told_def)
  then show ?thesis
    using reads_clock by (intro told_move [OF assms(2) reads_clock(3), where p' = "Timed rq peer l r now"])
      (auto simp: recorded_quiet)
next
  case (finishes t rq peer l r reading reply ls)
  have "Timed rq peer l r reading \<in> set (svc_phases s)" using finishes(3) by (metis nth_mem)
  then have "phase_honest (Timed rq peer l r reading)" using assms(2) by (auto simp: told_def)
  then have "set (ls_leases ls) \<subseteq> set (ls_leases (svc_store s)) \<or>
    (set (ls_leases ls) \<subseteq> insert (cl_id l, l) (set (ls_leases (svc_store s))) \<and>
     records_grant (cl_id l) l (recorded_entry (event_for (RequestLease rq) peer reply)))"
    by (rule finished_grant_recorded [OF finishes(4)])
  then show ?thesis
    using finishes honest_finish [OF finishes(4)]
    by (intro told_move [OF assms(2) finishes(3), where p' = "Computed (event_for (RequestLease rq) peer reply)"])
       (auto simp: recorded_quiet simp del: phase_honest.simps(4))
next
  case (releases t rr peer now reply ls b)
  have "set (ls_leases ls) \<subseteq> set (ls_leases (svc_store s))"
    using handle_release_lease_leases [of _ _ ops now rr peer "(svc_store s, svc_backend s)"] releases(5) by auto
  then show ?thesis
    using releases honest_release [OF releases(5)]
    by (intro told_move [OF assms(2) releases(3), where p' = "Computed (event_for (ReleaseLease rr) peer reply)"])
       (auto simp: recorded_quiet simp del: phase_honest.simps(4))
next
  case (revoke_panics t rr peer now reply ls b)
  have "set (ls_leases ls) \<subseteq> set (ls_leases (svc_store s))"
    using handle_release_lease_leases [of _ _ ops now rr peer "(svc_store s, svc_backend s)"] revoke_panics(5) by auto
  then show ?thesis
    using revoke_panics
    by (intro told_move [OF assms(2) revoke_panics(3), where p' = "Answering (RespError Internal)"])
       (auto simp: recorded_quiet)
next
  case (records t event recorded_at outcome lines sink log stderr_ok)
  then show ?thesis
    by (intro told_move [OF assms(2) records(3), where p' = "Answering (recorded_answer stderr_ok lines event)"])
       (auto simp: recorded_answer_def)
next
  case (answers t response)
  then show ?thesis
    by (intro told_move [OF assms(2) answers(3), where p' = Finished]) (auto simp: recorded_quiet)
qed

section \<open>Each thread answers for itself\<close>

text \<open>What a thread recorded. A thread records once, after its request is computed; from then on it only
  answers, and what it answers is the response of the event it recorded, or the internal error.\<close>

definition recorded_by :: "nat \<Rightarrow> service_label list \<Rightarrow> service_label list" where
  "recorded_by t tr = filter (\<lambda>lab. case lab of RecordedEvent c _ _ _ \<Rightarrow> c = t | _ \<Rightarrow> False) tr"

lemma recorded_by_simps [simp]:
  "recorded_by t [] = []"
  "recorded_by t (tr @ tr') = recorded_by t tr @ recorded_by t tr'"
  "recorded_by t (lab # tr) =
     (case lab of RecordedEvent c _ _ _ \<Rightarrow> (if c = t then [lab] else []) | _ \<Rightarrow> []) @ recorded_by t tr"
  by (simp_all add: recorded_by_def split: service_label.split)

lemma recorded_by_mem: "recorded_by t tr = [lab] \<Longrightarrow> lab \<in> set tr"
  by (metis filter_is_subset list.set_intros(1) recorded_by_def subsetD)

fun phase_over :: "thread_phase \<Rightarrow> bool" where
  "phase_over (Answering _) \<longleftrightarrow> True"
| "phase_over Finished \<longleftrightarrow> True"
| "phase_over _ \<longleftrightarrow> False"

definition recorded_response :: "nat \<Rightarrow> service_label list \<Rightarrow> agent_response \<Rightarrow> bool" where
  "recorded_response t tr response \<longleftrightarrow>
     (\<exists>at w event. recorded_by t tr = [RecordedEvent t at w event] \<and> ev_response event = response)"

definition own_answers :: "service_label list \<Rightarrow> 'b service \<Rightarrow> bool" where
  "own_answers tr s \<longleftrightarrow>
     (\<forall>t. recorded_by t tr \<noteq> [] \<or> (\<exists>response. Sent t response \<in> set tr) \<longrightarrow>
        t < length (svc_phases s) \<and> phase_over (svc_phases s ! t)) \<and>
     (\<forall>t response. at_phase s t (Answering response) \<or> Sent t response \<in> set tr \<longrightarrow>
        response = RespError Internal \<or> recorded_response t tr response)"

lemma own_answers_quiet:
  assumes "own_answers tr s" and "silent_label lab" and "at_phase s t p" and "\<not> phase_over p"
    and "svc_phases s' = (svc_phases s)[t := p']"
    and "p' = Answering (RespError Internal) \<or> (\<forall>response. p' \<noteq> Answering response)"
  shows "own_answers (tr @ [lab]) s'"
proof -
  have lab: "recorded_by c (tr @ [lab]) = recorded_by c tr" "Sent c response \<in> set (tr @ [lab]) \<longleftrightarrow> Sent c response \<in> set tr"
    for c response
    using assms(2) by (cases lab; simp)+
  have "recorded_by t tr = [] \<and> (\<forall>response. Sent t response \<notin> set tr)"
    using assms(1,3,4) by (auto simp: own_answers_def)
  then show ?thesis
    using assms(1,3,5,6) unfolding own_answers_def recorded_response_def lab
    by (auto simp: nth_list_update)
qed

lemma own_answers_step:
  assumes "service_step h ops j fmt n lab s s'" and "own_answers tr s"
  shows "own_answers (tr @ [lab]) s'"
  using assms(1)
proof (cases rule: service_step.cases)
  case (server_moves e sv phases)
  then show ?thesis
    using assms(2) by (auto simp: own_answers_def recorded_response_def nth_append)
next
  case (closes t)
  then show ?thesis by (intro own_answers_quiet [OF assms(2) _ closes(3), where p' = Finished]) auto
next
  case (asks t request peer)
  then show ?thesis by (intro own_answers_quiet [OF assms(2) _ asks(3), where p' = "Asked request peer"]) auto
next
  case (reports_status t peer)
  then show ?thesis
    by (intro own_answers_quiet [OF assms(2) _ reports_status(3),
          where p' = "Computed (event_for AgentStatus peer handle_status)"]) auto
next
  case (turns_away t rq peer)
  then show ?thesis
    by (intro own_answers_quiet [OF assms(2) _ turns_away(3), where p' = "Computed (event_for (RequestLease rq) peer
          (PeerNotAuthorizable, RespLeaseDenied DenialIndeterminateEvidence))"]) auto
next
  case (issues t rq peer obs now l ls)
  then show ?thesis by (intro own_answers_quiet [OF assms(2) _ issues(3), where p' = "Issued rq peer l"]) auto
next
  case (refuses t rq peer obs now f ls)
  then show ?thesis
    by (intro own_answers_quiet [OF assms(2) _ refuses(3),
          where p' = "Computed (event_for (RequestLease rq) peer (issue_failure_reply f))"]) auto
next
  case (enforces t rq peer l r b)
  then show ?thesis by (intro own_answers_quiet [OF assms(2) _ enforces(3), where p' = "Enforced rq peer l r"]) auto
next
  case (panics t rq peer l)
  then show ?thesis
    by (intro own_answers_quiet [OF assms(2) _ panics(3), where p' = "Answering (RespError Internal)"]) auto
next
  case (reads_clock t rq peer l r now)
  then show ?thesis
    by (intro own_answers_quiet [OF assms(2) _ reads_clock(3), where p' = "Timed rq peer l r now"]) auto
next
  case (finishes t rq peer l r reading reply ls)
  then show ?thesis
    by (intro own_answers_quiet [OF assms(2) _ finishes(3),
          where p' = "Computed (event_for (RequestLease rq) peer reply)"]) auto
next
  case (releases t rr peer now reply ls b)
  then show ?thesis
    by (intro own_answers_quiet [OF assms(2) _ releases(3),
          where p' = "Computed (event_for (ReleaseLease rr) peer reply)"]) auto
next
  case (revoke_panics t rr peer now reply ls b)
  then show ?thesis
    by (intro own_answers_quiet [OF assms(2) _ revoke_panics(3), where p' = "Answering (RespError Internal)"]) auto
next
  case (records t event recorded_at outcome lines sink log stderr_ok)
  then have "recorded_by t tr = [] \<and> (\<forall>response. Sent t response \<notin> set tr)"
    using assms(2) by (auto simp: own_answers_def)
  moreover have "recorded_by c (tr @ [lab]) = recorded_by c tr @ (if c = t then [lab] else [])" for c
    by (simp add: records(1))
  ultimately show ?thesis
    using assms(2) records(1-3) unfolding own_answers_def recorded_response_def
    by (auto simp: nth_list_update recorded_answer_def)
next
  case (answers t response)
  have "recorded_by c (tr @ [lab]) = recorded_by c tr" for c by (simp add: answers(1))
  then show ?thesis
    using assms(2) answers(1-3) unfolding own_answers_def recorded_response_def
    by (auto simp: nth_list_update)
qed

lemma run_own_answers:
  assumes "service_runs h ops j fmt n s0 tr s" and "svc_phases s0 = []"
  shows "own_answers tr s"
  using assms(1)
proof (induction rule: service_runs.induct)
  case runs_start
  show ?case using assms(2) by (simp add: own_answers_def)
qed (rule own_answers_step)

text \<open>The run before a label.\<close>

lemma service_runs_before:
  assumes "service_runs h ops j fmt n s0 tr s" and "tr = pre @ lab # post"
  shows "\<exists>s1 s2. service_runs h ops j fmt n s0 pre s1 \<and> service_step h ops j fmt n lab s1 s2"
  using assms
proof (induction arbitrary: post rule: service_runs.induct)
  case (runs_step tr s lab' s')
  then show ?case
    by (cases post rule: rev_cases) (auto simp flip: append_assoc append_Cons)
qed simp

lemma sent_after_record:
  assumes "service_runs h ops j fmt n s0 (pre @ Sent t response # post) s" and "svc_phases s0 = []"
    and "response \<noteq> RespError Internal"
  shows "\<exists>at w event. recorded_by t (pre @ Sent t response # post) = [RecordedEvent t at w event] \<and>
    RecordedEvent t at w event \<in> set pre \<and> ev_response event = response"
proof -
  obtain s1 s2 where before: "service_runs h ops j fmt n s0 pre s1"
    and step: "service_step h ops j fmt n (Sent t response) s1 s2"
    using service_runs_before [OF assms(1) refl] by blast
  from step have "at_phase s1 t (Answering response)" by cases simp_all
  then have "recorded_response t pre response"
    using run_own_answers [OF before assms(2)] assms(3) by (auto simp: own_answers_def)
  moreover have "recorded_response t (pre @ Sent t response # post) response"
    using run_own_answers [OF assms(1,2)] assms(3) by (auto simp: own_answers_def)
  ultimately show ?thesis
    by (auto simp: recorded_response_def dest: recorded_by_mem)
qed

section \<open>Every run\<close>

lemma run_told:
  assumes "service_runs h ops j fmt n s0 tr s"
    and "s0 = service_new ls0 b0 (LiveAudit (sink_from_writer [] inst)) \<lparr>lf_mode = m, lf_contents = []\<rparr>"
    and "ls_leases ls0 = []"
  shows "log_follows j inst tr s \<and> told tr s"
  using assms(1)
proof (induction rule: service_runs.induct)
  case runs_start
  show ?case
    using assms(2,3)
    by (simp add: log_follows_def told_def service_new_def sink_run_def sink_from_writer_def)
next
  case (runs_step tr s lab s')
  then show ?case using log_follows_step told_step by blast
qed

section \<open>One request of the small agent\<close>

definition demo_event :: authorization_event where
  "demo_event = fst (snd (handle demo_handler fake_ops 100 110 (RequestLease demo_lease_request) demo_peer
     (demo_state, demo_backend)))"

lemma demo_event_response [simp]:
  "ev_response demo_event = LeaseGranted \<lparr>lv_lease_id = cl_id demo_lease, lv_remaining = 20\<rparr>"
  by (simp add: demo_event_def handle_def demo_grant)

lemma demo_event_entry:
  "audit_entries demo_handler fake_ops [audit_demo_call] (demo_state, demo_backend) =
     [(demo_time, Written, recorded_entry demo_event)]"
  by (simp add: audit_demo_call_def demo_event_def)

text \<open>The request of the small agent, with the outcome of the write of its record and of the printing.\<close>

lemma demo_served:
  obtains tr later where "silent tr" and "later \<le> 110"
    and "service_runs demo_handler fake_ops audit_demo_json demo_formats 1 demo_service
      (tr @ [RecordedEvent 0 demo_time w demo_event,
        Sent 0 (recorded_answer stderr_ok
          (fst (live_record audit_demo_json demo_formats demo_time w demo_event
             (demo_live_sink, \<lparr>lf_mode = 384, lf_contents = []\<rparr>))) demo_event)])
      (to_phase 0 Finished (demo_asked\<lparr>svc_now := later, svc_store := demo_granted_state,
         svc_backend := demo_backend,
         svc_sink := fst (snd (live_record audit_demo_json demo_formats demo_time w demo_event
           (demo_live_sink, \<lparr>lf_mode = 384, lf_contents = []\<rparr>))),
         svc_log := snd (snd (live_record audit_demo_json demo_formats demo_time w demo_event
           (demo_live_sink, \<lparr>lf_mode = 384, lf_contents = []\<rparr>)))\<rparr>))"
proof -
  let ?out = "live_record audit_demo_json demo_formats demo_time w demo_event
      (demo_live_sink, \<lparr>lf_mode = 384, lf_contents = []\<rparr>)"
  have asked: "at_phase demo_asked 0 (Asked (RequestLease demo_lease_request) demo_peer)"
    "svc_now demo_asked \<le> 100" "(100 :: monotonic_time) \<le> 110" "counter_room (svc_store demo_asked) 1"
    "(svc_store demo_asked, svc_backend demo_asked) = (demo_state, demo_backend)"
    "(svc_sink demo_asked, svc_log demo_asked) = (demo_live_sink, \<lparr>lf_mode = 384, lf_contents = []\<rparr>)"
    by (simp_all add: demo_asked_def demo_service_def service_new_def counter_room_def demo_state_def
        state_new_def issuer_new_def)
  have "handle demo_handler fake_ops 100 110 (RequestLease demo_lease_request) demo_peer
      (svc_store demo_asked, svc_backend demo_asked) =
      (ev_response demo_event, demo_event, (demo_granted_state, demo_backend))"
    unfolding asked(5) by (simp add: demo_event_def handle_def demo_grant)
  from request_computes [OF asked(1-4) this] obtain tr now where
    computed: "svc_now demo_asked \<le> now" "now \<le> 110" "silent tr"
      "service_runs demo_handler fake_ops audit_demo_json demo_formats 1 demo_asked tr
        (to_phase 0 (Computed demo_event)
          (demo_asked\<lparr>svc_now := now, svc_store := demo_granted_state, svc_backend := demo_backend\<rparr>))"
    by blast
  have "live_record audit_demo_json demo_formats demo_time w demo_event
      (svc_sink demo_asked, svc_log demo_asked) = (fst ?out, (fst (snd ?out), snd (snd ?out)))"
    by (simp add: asked(6))
  from served_from_computed [OF _ refl computed(1,2,4,3) this, of stderr_ok] asked(1)
  obtain tr' s' where run: "silent tr'" "service_runs demo_handler fake_ops audit_demo_json demo_formats 1 demo_asked
      (tr' @ [RecordedEvent 0 demo_time w demo_event, Sent 0 (recorded_answer stderr_ok (fst ?out) demo_event)]) s'"
    and "served_whole 0 110 demo_granted_state demo_backend (fst (snd ?out), snd (snd ?out)) demo_asked s'"
    by auto
  then obtain later where later: "later \<le> 110" "s' = to_phase 0 Finished (demo_asked\<lparr>svc_now := later,
      svc_store := demo_granted_state, svc_backend := demo_backend, svc_sink := fst (snd ?out),
      svc_log := snd (snd ?out)\<rparr>)"
    by (auto simp: served_whole_def)
  have "silent (replicate 5 Quiet @ tr')" using run(1) by (simp add: silent_def list_all_iff)
  moreover have "service_runs demo_handler fake_ops audit_demo_json demo_formats 1 demo_service
      ((replicate 5 Quiet @ tr') @ [RecordedEvent 0 demo_time w demo_event,
         Sent 0 (recorded_answer stderr_ok (fst ?out) demo_event)]) s'"
    using service_runs_trans [OF run(2) demo_run_asked] by simp
  ultimately show ?thesis using that later by blast
qed

lemma silent_no_events:
  "silent tr \<Longrightarrow> recorded_calls tr = [] \<and> recorded_events tr = {} \<and> (\<forall>t response. Sent t response \<notin> set tr)"
  by (auto simp: silent_def list_all_iff recorded_calls_def recorded_events_def map_filter_def filter_empty_conv
      elim!: recorded_call.elims)

section \<open>Properties\<close>

lemma written_event:
  assumes "event \<in> recorded_events tr"
    and "\<forall>th t w event. RecordedEvent th t w event \<in> set tr \<longrightarrow> w = Written"
  shows "\<exists>r\<in>set (written_records inst (recorded_calls tr)).
    ar_outcome r = ae_outcome (recorded_entry event) \<and> ar_requested r = ae_requested (recorded_entry event) \<and>
    ar_peer r = ae_peer (recorded_entry event) \<and> ar_response r = ae_response (recorded_entry event)"
proof -
  obtain th t w where "RecordedEvent th t w event \<in> set tr" using assms(1) by (auto simp: recorded_events_def)
  moreover from this have "w = Written" using assms(2) by blast
  ultimately have "(t, Written, recorded_entry event) \<in> set (recorded_calls tr)"
    by (auto simp: recorded_calls_mem)
  then obtain i where "i < length (recorded_calls tr)" "recorded_calls tr ! i = (t, Written, recorded_entry event)"
    by (meson in_set_conv_nth)
  then have "minted_record inst (of_nat i) t (recorded_entry event) \<in> set (written_records inst (recorded_calls tr))"
    by (force simp: set_written_records)
  then show ?thesis by (rule rev_bexI) (simp add: minted_record_def)
qed

lemma select_lease_finds:
  assumes "r \<in> set (sc_records scan)" and "record_lease_id r = Some lid"
  shows "\<exists>rs. select scan (SelLease lid) = Found rs \<and> r \<in> set rs"
  using assms by (auto simp: found_or_not_def filter_empty_conv)

lemma recorded_granted: "recorded_outcome_of out = RecGranted lid e \<longleftrightarrow> out = Granted lid e"
  by (cases out) auto


lemma demo_service_new:
  "demo_service = service_new demo_state demo_backend (LiveAudit (sink_from_writer [] ''agent-1''))
     \<lparr>lf_mode = 384, lf_contents = []\<rparr>"
  by (simp add: demo_service_def demo_live_sink_def)


text \<open>C39. A failed audit write can change what a client is told, which the sink is documented never to do.
  When the record of a grant cannot be written and the standard error cannot be written to either, the
  report of the failure panics; the panic is caught above the handler. There is a run in which the one
  request is granted, its lease is in the store and unexpired, every thread has finished, and the only
  answer ever sent is an internal error: the client does not know the lease it would have to release.\<close>

theorem failed_print_hides_a_grant:
  "\<exists>tr s. service_runs demo_handler fake_ops audit_demo_json demo_formats 1 demo_service tr s \<and>
     demo_event \<in> recorded_events tr \<and>
     ev_response demo_event = LeaseGranted \<lparr>lv_lease_id = cl_id demo_lease, lv_remaining = 20\<rparr> \<and>
     state_get (svc_store s) (cl_id demo_lease) = Some demo_lease \<and> svc_now s < cl_expires_at demo_lease \<and>
     set (svc_phases s) = {Finished} \<and>
     {(t, response). Sent t response \<in> set tr} = {(0, RespError Internal)}"
proof -
  let ?w = "WriteFailed 0 ''disk full''"
  let ?log = "\<lparr>lf_mode = 384, lf_contents = []\<rparr>"
  let ?out = "live_record audit_demo_json demo_formats demo_time ?w demo_event (demo_live_sink, ?log)"
  obtain tr later where silent: "silent tr" and later: "later \<le> 110"
    and run: "service_runs demo_handler fake_ops audit_demo_json demo_formats 1 demo_service
      (tr @ [RecordedEvent 0 demo_time ?w demo_event, Sent 0 (recorded_answer False (fst ?out) demo_event)])
      (to_phase 0 Finished (demo_asked\<lparr>svc_now := later, svc_store := demo_granted_state,
         svc_backend := demo_backend, svc_sink := fst (snd ?out), svc_log := snd (snd ?out)\<rparr>))"
    by (rule demo_served)
  have "fst (fst (append_shared audit_demo_json demo_time ?w (recorded_entry demo_event)
      (sink_from_writer [] ''agent-1'') ?log)) \<noteq> Inr event" for event
    by (auto simp: append_shared_def audit_append_def write_line_def Let_def split_beta split: sum.split)
  then have "fst ?out \<noteq> []"
    unfolding demo_live_sink_def live_record_audit(2) by blast
  then have answer: "recorded_answer False (fst ?out) demo_event = RespError Internal"
    by (simp add: recorded_answer_def)
  have "later < cl_expires_at demo_lease"
    using later by (simp add: demo_lease_simps) (rule le_less_trans, assumption, simp)
  moreover have "\<exists>tr s. service_runs demo_handler fake_ops audit_demo_json demo_formats 1 demo_service tr s \<and>
      svc_store s = demo_granted_state \<and> svc_now s = later \<and> svc_phases s = [Finished] \<and>
      recorded_events tr = {demo_event} \<and> {(t, response). Sent t response \<in> set tr} = {(0, RespError Internal)}"
    by (rule exI, rule exI, rule conjI [OF run [unfolded answer]])
       (use silent_no_events [OF silent] in
         \<open>auto simp: recorded_events_def demo_asked_def demo_service_def service_new_def\<close>)
  ultimately show ?thesis by (metis demo_event_response demo_live insertI1 list.simps(15) list.set(1))
qed

end
