(* ===== verification/Eltanin_Cli.thy ===== *)
theory Eltanin_Cli
  imports Eltanin_Utf8 Eltanin_Connection
begin

text \<open>
  Models the parts of \<open>crates/eltanin-cli\<close> that need no process: the argument grammar of
  \<open>args.rs\<close>, profile names and the profile loader of \<open>profile.rs\<close>, the exit codes of \<open>exit.rs\<close> and the
  failure taxonomy of \<open>failure.rs\<close>. An \<open>OsString\<close> is its
  bytes. The debug rendering of a string and the text of a profile load error, which shortens
  paths to the home directory, are arguments of the functions that print them.
\<close>

section \<open>Exit codes\<close>

datatype exit_code =
    ExUsage
  | ExAgentUnavailable
  | ExAgentError
  | ExGovernedContextFailed
  | ExAuthorizationLapsed
  | ExDenied
  | ExProfileUnresolved

fun exit_code_value :: "exit_code \<Rightarrow> u8" where
  "exit_code_value ExUsage = 64"
| "exit_code_value ExAgentUnavailable = 69"
| "exit_code_value ExAgentError = 70"
| "exit_code_value ExGovernedContextFailed = 74"
| "exit_code_value ExAuthorizationLapsed = 76"
| "exit_code_value ExDenied = 77"
| "exit_code_value ExProfileUnresolved = 78"

text \<open>\<open>u8::saturating_add\<close>.\<close>

definition workload_signal_exit_code :: "u8 \<Rightarrow> u8" where
  "workload_signal_exit_code signal =
     (if 128 + unat signal < 256 then 128 + signal else 255)"

section \<open>Profile names\<close>

type_synonym os_string = string
type_synonym path_buf = string
type_synonym profile_name = string

definition MAX_PROFILE_NAME_LEN :: nat where "MAX_PROFILE_NAME_LEN = 64"

datatype profile_name_error =
    NameEmpty
  | ContainsSlash
  | PathTraversal
  | TooLong nat
  | NotUtf8
  | ContainsControlCharacter

definition profile_name_parse :: "os_string \<Rightarrow> (profile_name_error, profile_name) result" where
  "profile_name_parse raw =
     (case utf8_chars raw of
        None \<Rightarrow> Inl NotUtf8
      | Some chars \<Rightarrow>
          if raw = [] then Inl NameEmpty
          else if length raw > MAX_PROFILE_NAME_LEN then Inl (TooLong (length raw))
          else if CHR ''/'' \<in> set raw then Inl ContainsSlash
          else if raw = ''.'' \<or> raw = ''..'' then Inl PathTraversal
          else if list_ex is_control chars then Inl ContainsControlCharacter
          else Inr raw)"

definition quote :: string where "quote = [CHR 0x22]"
definition apostrophe :: string where "apostrophe = [CHR 0x27]"
definition em_dash :: string where "em_dash = [CHR 0xE2, CHR 0x80, CHR 0x94]"

fun profile_name_error_text :: "profile_name_error \<Rightarrow> string" where
  "profile_name_error_text NameEmpty = ''--profile name must not be empty''"
| "profile_name_error_text ContainsSlash =
     ''--profile name must not contain '' @ apostrophe @ ''/'' @ apostrophe"
| "profile_name_error_text PathTraversal =
     ''--profile name must not be '' @ quote @ ''.'' @ quote @ '' or '' @ quote @ ''..'' @ quote"
| "profile_name_error_text (TooLong n) =
     ''--profile name must be at most '' @ dec_of_nat MAX_PROFILE_NAME_LEN @ '' bytes, got '' @ dec_of_nat n"
| "profile_name_error_text NotUtf8 = ''--profile name must be valid UTF-8''"
| "profile_name_error_text ContainsControlCharacter =
     ''--profile name must not contain a control character''"

section \<open>Loading a profile\<close>

record profile_document =
  pf_resource :: resource_identity
  pf_action :: action

datatype profile_load_error =
    NoSearchDir
  | ProfileNotFound string path_buf
  | ProfileIo path_buf string
  | ProfileJson path_buf string
  | ProfileVersion path_buf unsupported_version

text \<open>\<open>Path::join\<close> on Unix: an absolute path replaces, a separator is put where none ends the base.\<close>

definition path_join :: "path_buf \<Rightarrow> string \<Rightarrow> path_buf" where
  "path_join base p =
     (if p \<noteq> [] \<and> hd p = CHR ''/'' then p
      else if base = [] \<or> last base = CHR ''/'' then base @ p
      else base @ CHR ''/'' # p)"

text \<open>The environment as the three variables read, and the file system as the result of reading a
  file: an error has a flag, set when there is no such file, and its text.\<close>

record profile_env =
  env_profile_dir :: "os_string option"
  env_xdg_config_home :: "os_string option"
  env_home :: "os_string option"

definition profile_dir :: "profile_env \<Rightarrow> (profile_load_error, path_buf) result" where
  "profile_dir env =
     (case env_profile_dir env of
        Some dir \<Rightarrow> Inr dir
      | None \<Rightarrow>
          (case env_xdg_config_home env of
             Some xdg \<Rightarrow> Inr (path_join (path_join xdg ''eltanin'') ''profiles'')
           | None \<Rightarrow>
               (case env_home env of
                  Some home \<Rightarrow>
                    Inr (path_join (path_join (path_join home ''.config'') ''eltanin'') ''profiles'')
                | None \<Rightarrow> Inl NoSearchDir)))"

definition load_profile_from_dir ::
  "(path_buf \<Rightarrow> (bool \<times> string, string) result) \<Rightarrow>
     (string \<Rightarrow> (string, profile_document versioned) result) \<Rightarrow>
     path_buf \<Rightarrow> profile_name \<Rightarrow> (profile_load_error, profile_document) result" where
  "load_profile_from_dir read_to_string from_str dir name =
     (let path = path_join dir (name @ ''.json'')
      in case read_to_string path of
           Inl (not_found, reason) \<Rightarrow>
             Inl (if not_found then ProfileNotFound name path else ProfileIo path reason)
         | Inr contents \<Rightarrow>
             (case from_str contents of
                Inl e \<Rightarrow> Inl (ProfileJson path e)
              | Inr envelope \<Rightarrow>
                  (case into_current envelope of
                     Inl source \<Rightarrow> Inl (ProfileVersion path source)
                   | Inr document \<Rightarrow> Inr document)))"

definition load_profile ::
  "profile_env \<Rightarrow> (path_buf \<Rightarrow> (bool \<times> string, string) result) \<Rightarrow>
     (string \<Rightarrow> (string, profile_document versioned) result) \<Rightarrow>
     profile_name \<Rightarrow> (profile_load_error, profile_document) result" where
  "load_profile env read_to_string from_str name =
     (case profile_dir env of
        Inl e \<Rightarrow> Inl e
      | Inr dir \<Rightarrow> load_profile_from_dir read_to_string from_str dir name)"

section \<open>Arguments\<close>

record run_invocation =
  ri_profile :: profile_name
  ri_program :: os_string
  ri_args :: "os_string list"

datatype usage_error =
    NotRunSubcommand "os_string option"
  | ProfileMissingValue
  | ProfileGivenTwice
  | ProfileMissing
  | UnrecognizedArg os_string
  | MissingSeparator
  | EmptyCommand
  | InvalidProfileName profile_name_error

definition MAX_DISPLAY_LEN :: nat where "MAX_DISPLAY_LEN = 60"

definition display_found :: "os_string option \<Rightarrow> string" where
  "display_found found =
     (case found of
        None \<Rightarrow> ''nothing''
      | Some v \<Rightarrow>
          (let chars = lossy_chars v
           in if length chars \<le> MAX_DISPLAY_LEN
              then quote @ concat (map utf8_encode chars) @ quote
              else quote @ concat (map utf8_encode (take MAX_DISPLAY_LEN chars)) @ ''...'' @ quote))"

text \<open>The loop over the arguments: the profile so far, whether the separator was seen, the command.\<close>

fun parse_run_loop ::
  "profile_name option \<Rightarrow> bool \<Rightarrow> os_string list \<Rightarrow> os_string list \<Rightarrow>
     (usage_error, profile_name option \<times> bool \<times> os_string list) result" where
  "parse_run_loop profile separator_found command [] = Inr (profile, separator_found, command)"
| "parse_run_loop profile separator_found command (arg # argv) =
     (if separator_found then parse_run_loop profile separator_found (command @ [arg]) argv
      else if arg = ''--'' then parse_run_loop profile True command argv
      else if arg = ''--profile'' then
        (if profile \<noteq> None then Inl ProfileGivenTwice
         else case argv of
           [] \<Rightarrow> Inl ProfileMissingValue
         | value # rest \<Rightarrow>
             (case profile_name_parse value of
                Inl e \<Rightarrow> Inl (InvalidProfileName e)
              | Inr name \<Rightarrow> parse_run_loop (Some name) separator_found command rest))
      else Inl (UnrecognizedArg arg))"

definition parse_run :: "os_string list \<Rightarrow> (usage_error, run_invocation) result" where
  "parse_run argv =
     (case argv of
        [] \<Rightarrow> Inl (NotRunSubcommand None)
      | first # rest \<Rightarrow>
          if first \<noteq> ''run'' then Inl (NotRunSubcommand (Some first))
          else case parse_run_loop None False [] rest of
            Inl e \<Rightarrow> Inl e
          | Inr (profile, separator_found, command) \<Rightarrow>
              if \<not> separator_found then Inl MissingSeparator
              else case profile of
                None \<Rightarrow> Inl ProfileMissing
              | Some name \<Rightarrow>
                  (case command of
                     [] \<Rightarrow> Inl EmptyCommand
                   | program # workload_args \<Rightarrow>
                       Inr \<lparr>ri_profile = name, ri_program = program, ri_args = workload_args\<rparr>))"

fun usage_error_text :: "(os_string \<Rightarrow> string) \<Rightarrow> usage_error \<Rightarrow> string" where
  "usage_error_text debug (NotRunSubcommand found) =
     ''expected the first argument to be '' @ quote @ ''run'' @ quote @ '', got '' @ display_found found"
| "usage_error_text debug ProfileMissingValue = ''--profile requires a value''"
| "usage_error_text debug ProfileGivenTwice = ''--profile was given more than once''"
| "usage_error_text debug ProfileMissing = ''--profile is required''"
| "usage_error_text debug (UnrecognizedArg found) =
     ''unrecognized argument before '' @ quote @ ''--'' @ quote @ '': '' @ debug found"
| "usage_error_text debug MissingSeparator =
     ''expected '' @ quote @ ''--'' @ quote @ '' to separate eltanin run'' @ apostrophe @
     ''s own flags from the command to launch, but none was found''"
| "usage_error_text debug EmptyCommand =
     ''expected a command to run after '' @ quote @ ''--'' @ quote @ '', but none was given''"
| "usage_error_text debug (InvalidProfileName e) = profile_name_error_text e"

section \<open>Failures\<close>

datatype launch_failure =
    FailUsage string
  | FailProfileUnresolved string
  | FailAgentUnavailable string
  | FailAgentError error_code
  | FailDenied denial_reason
  | FailGovernedContext string
  | FailAuthorizationLapsed

fun failure_exit_code :: "launch_failure \<Rightarrow> exit_code" where
  "failure_exit_code (FailUsage _) = ExUsage"
| "failure_exit_code (FailProfileUnresolved _) = ExProfileUnresolved"
| "failure_exit_code (FailAgentUnavailable _) = ExAgentUnavailable"
| "failure_exit_code (FailAgentError _) = ExAgentError"
| "failure_exit_code (FailDenied _) = ExDenied"
| "failure_exit_code (FailGovernedContext _) = ExGovernedContextFailed"
| "failure_exit_code FailAuthorizationLapsed = ExAuthorizationLapsed"

fun describe_denial_reason :: "denial_reason \<Rightarrow> string" where
  "describe_denial_reason DenialNoMatchingRule = ''no policy rule allows this request''"
| "describe_denial_reason DenialExplicitDeny = ''a policy rule explicitly denies this request''"
| "describe_denial_reason DenialIndeterminateEvidence =
     ''required evidence could not be observed with sufficient confidence''"

fun describe_error_code :: "error_code \<Rightarrow> string" where
  "describe_error_code (CodeUnsupportedVersion found expected) =
     ''protocol version mismatch (found '' @ dec_of_nat (unat found) @ '', expected '' @
     dec_of_nat (unat expected) @ '')''"
| "describe_error_code MalformedRequest = ''the request was malformed''"
| "describe_error_code CodeOversized =
     ''the request exceeded the protocol'' @ apostrophe @ ''s size limit''"
| "describe_error_code UnknownOperation =
     ''the agent did not recognize the requested operation''"
| "describe_error_code Internal =
     ''an internal agent error occurred (backend failure, enforcement refusal, or '' @
     ''capacity exhaustion '' @ em_dash @ '' the wire protocol does not distinguish which)''"

fun failure_message :: "launch_failure \<Rightarrow> string" where
  "failure_message (FailUsage detail) = ''usage error: '' @ detail"
| "failure_message (FailProfileUnresolved detail) = ''could not resolve --profile: '' @ detail"
| "failure_message (FailAgentUnavailable detail) = ''could not reach the eltanin agent: '' @ detail"
| "failure_message (FailAgentError code) = ''the agent reported an error: '' @ describe_error_code code"
| "failure_message (FailDenied reason) = ''request denied: '' @ describe_denial_reason reason"
| "failure_message (FailGovernedContext detail) =
     ''could not establish a governed execution context: '' @ detail"
| "failure_message FailAuthorizationLapsed =
     ''authorization lapsed mid-run; the workload was terminated''"

text \<open>The next step the user is told to take.\<close>

fun next_action :: "launch_failure \<Rightarrow> string" where
  "next_action (FailUsage _) = ''run `eltanin run --profile <name> -- <program> [args...]`''"
| "next_action (FailProfileUnresolved _) =
     ''check the profile name and that its document exists and is valid''"
| "next_action (FailAgentUnavailable _) =
     ''check that eltanin-agentd is running and ELTANIN_AGENT_SOCKET (if set) points at its socket''"
| "next_action (FailAgentError _) =
     ''check the agent'' @ apostrophe @ ''s own logs (stderr / journald) for the underlying cause''"
| "next_action (FailDenied _) =
     ''run `eltanin-explain --pid <this process'' @ apostrophe @
     ''s pid>` for the full decision record, or contact your policy administrator''"
| "next_action (FailGovernedContext _) =
     ''check that eltanin run has permission to establish its execution context on this host''"
| "next_action FailAuthorizationLapsed = ''request a fresh lease and re-run the workload''"

text \<open>A response to the lease request that is not a grant.\<close>

fun classify_response :: "agent_response \<Rightarrow> launch_failure option" where
  "classify_response (LeaseGranted _) = None"
| "classify_response (RespLeaseDenied reason) = Some (FailDenied reason)"
| "classify_response (RespError code) = Some (FailAgentError code)"
| "classify_response (LeaseReleased _) = Some (FailAgentError Internal)"
| "classify_response (RespStatus _) = Some (FailAgentError Internal)"

section \<open>Names and paths\<close>

lemma profile_name_parse_Inr:
  "profile_name_parse raw = Inr name \<longleftrightarrow>
     name = raw \<and> raw \<noteq> [] \<and> length raw \<le> MAX_PROFILE_NAME_LEN \<and> CHR ''/'' \<notin> set raw \<and>
     raw \<noteq> ''.'' \<and> raw \<noteq> ''..'' \<and>
     (\<exists>chars. utf8_chars raw = Some chars \<and> (\<forall>c\<in>set chars. \<not> is_control c))"
  by (auto simp: profile_name_parse_def list_ex_iff split: option.splits if_splits)

lemma profile_name_no_NUL:
  assumes "profile_name_parse raw = Inr name"
  shows "CHR 0x00 \<notin> set name"
proof
  assume nul: "CHR 0x00 \<in> set name"
  obtain chars where "utf8_chars name = Some chars" and "\<forall>c\<in>set chars. \<not> is_control c"
    using assms by (auto simp: profile_name_parse_Inr)
  with utf8_chars_ascii [of name chars "CHR 0x00"] nul show False
    by (auto simp: is_control_def)
qed

lemma path_join_file:
  "CHR ''/'' \<notin> set f \<Longrightarrow> f \<noteq> [] \<Longrightarrow>
     path_join dir f = dir @ (if dir = [] \<or> last dir = CHR ''/'' then f else CHR ''/'' # f)"
  by (cases f) (auto simp: path_join_def)

text \<open>A profile name that the argument parser accepts can only name a file of the profile
  directory: the path that is read is the directory, a separator where one is missing, and one
  more component without separator or NUL byte that is neither of the two special entries; and
  nothing else of the file system influences the result.\<close>

theorem profile_stays_in_its_directory:
  assumes "profile_name_parse raw = Inr name"
  shows "\<exists>f. path_join dir (name @ ''.json'') =
      dir @ (if dir = [] \<or> last dir = CHR ''/'' then f else CHR ''/'' # f) \<and>
    CHR ''/'' \<notin> set f \<and> CHR 0x00 \<notin> set f \<and> f \<notin> {[], ''.'', ''..''} \<and>
    (\<forall>read read'. read (path_join dir f) = read' (path_join dir f) \<longrightarrow>
       load_profile_from_dir read from_str dir name = load_profile_from_dir read' from_str dir name)"
proof -
  let ?f = "name @ ''.json''"
  have "CHR ''/'' \<notin> set ?f" and "CHR 0x00 \<notin> set ?f"
    using assms profile_name_no_NUL [OF assms] by (auto simp: profile_name_parse_Inr)
  moreover have "?f \<notin> {[], ''.'', ''..''}"
    using arg_cong [of ?f _ length] by auto
  ultimately show ?thesis
    by (intro exI [of _ ?f]) (simp add: path_join_file load_profile_from_dir_def Let_def)
qed

lemma profile_stays_in_its_directory_witness:
  "\<exists>f. path_join ''/etc/p'' (''gpu'' @ ''.json'') = ''/etc/p'' @ CHR ''/'' # f \<and> CHR ''/'' \<notin> set f"
proof -
  have "profile_name_parse ''gpu'' = Inr ''gpu''"
    by code_simp
  from profile_stays_in_its_directory [OF this, of "''/etc/p''" "\<lambda>_. Inl ''x''"] show ?thesis
    by auto
qed

text \<open>The whole of what loading a profile returns.\<close>

lemma load_profile_Inr:
  "load_profile env read from_str name = Inr document \<longleftrightarrow>
     (\<exists>dir contents. profile_dir env = Inr dir \<and>
        read (path_join dir (name @ ''.json'')) = Inr contents \<and>
        from_str contents = Inr \<lparr>v_version = DOMAIN_SCHEMA_VERSION, v_payload = document\<rparr>)"
  by (auto simp: load_profile_def load_profile_from_dir_def Let_def into_current_def
      split: sum.splits if_splits prod.splits)

section \<open>The argument grammar\<close>

lemma parse_run_loop_command:
  "parse_run_loop profile True command argv = Inr (profile, True, command @ argv)"
  by (induction argv arbitrary: command) simp_all

lemma parse_run_loop_flags:
  "parse_run_loop (Some name) False [] argv =
     (case argv of
        [] \<Rightarrow> Inr (Some name, False, [])
      | arg # rest \<Rightarrow>
          if arg = ''--'' then Inr (Some name, True, rest)
          else if arg = ''--profile'' then Inl ProfileGivenTwice else Inl (UnrecognizedArg arg))"
  by (cases argv) (simp_all add: parse_run_loop_command)

text \<open>An argument list is accepted exactly if it is the word run, the profile flag with a valid
  name, the separator, and a command; the command and its arguments are taken as they are,
  whatever they look like.\<close>

theorem parse_run_exact:
  "parse_run argv = Inr invocation \<longleftrightarrow>
     (\<exists>raw. argv = ''run'' # ''--profile'' # raw # ''--'' # ri_program invocation # ri_args invocation \<and>
        profile_name_parse raw = Inr (ri_profile invocation))"
proof (cases "argv")
  case Nil
  then show ?thesis by (simp add: parse_run_def)
next
  case (Cons first rest)
  have loop: "parse_run_loop None False [] rest = Inr (Some name, True, program # args) \<longleftrightarrow>
      (\<exists>raw. rest = ''--profile'' # raw # ''--'' # program # args \<and> profile_name_parse raw = Inr name)"
    for name program args
    by (cases rest) (auto simp: parse_run_loop_command parse_run_loop_flags
        split: list.splits sum.splits if_splits)
  have "parse_run argv = Inr invocation \<longleftrightarrow>
      first = ''run'' \<and>
      parse_run_loop None False [] rest = Inr (Some (ri_profile invocation), True, ri_program invocation # ri_args invocation)"
    unfolding Cons parse_run_def
    by (cases invocation) (auto split: sum.splits prod.splits option.splits list.splits if_splits)
  then show ?thesis by (auto simp: loop Cons)
qed

text \<open>What an operator reads about a rejected first argument is bounded, whatever the argument:
  at most sixty of its characters, quoted, with an ellipsis where some are left out.\<close>

lemma length_utf8_encode: "length (utf8_encode c) \<le> 4"
  by (simp add: utf8_encode_def)

lemma display_found_bounded: "length (display_found found) \<le> 4 * MAX_DISPLAY_LEN + 5"
proof (cases found)
  case (Some v)
  have bound: "length (concat (map utf8_encode cs)) \<le> 4 * length cs" for cs
    by (induction cs) (simp_all add: add_mono length_utf8_encode)
  show ?thesis
  proof (cases "length (lossy_chars v) \<le> MAX_DISPLAY_LEN")
    case True
    then show ?thesis
      using bound [of "lossy_chars v"] by (simp add: Some display_found_def Let_def quote_def del: length_concat)
  next
    case False
    then show ?thesis
      using bound [of "take MAX_DISPLAY_LEN (lossy_chars v)"]
      by (simp add: Some display_found_def Let_def quote_def del: length_concat)
  qed
qed (simp add: display_found_def MAX_DISPLAY_LEN_def)

section \<open>Exit codes\<close>

lemma exit_code_value_inject: "exit_code_value a = exit_code_value b \<longleftrightarrow> a = b"
  by (cases a; cases b) simp_all

lemma exit_code_value_range: "64 \<le> exit_code_value c \<and> exit_code_value c < 126"
  by (cases c) (simp_all add: word_le_nat_alt word_less_nat_alt)

lemma workload_signal_exit_code_value:
  "unat (workload_signal_exit_code n) = min 255 (128 + unat n)"
proof (cases "128 + unat n < 256")
  case True
  then have "unat (128 + n) = 128 + unat n"
    by (subst unat_add_lem [THEN iffD1]) simp_all
  then show ?thesis using True by (simp add: workload_signal_exit_code_def)
qed (simp add: workload_signal_exit_code_def)


end
