(* ===== verification/Eltanin_Supervise.thy ===== *)
theory Eltanin_Supervise
  imports Eltanin_Cli
begin

text \<open>
  Models \<open>crates/eltanin-cli/src/supervise.rs\<close> (the poll loop that forwards signals, renews the
  lease, terminates a workload whose authorization lapsed, and releases the lease), \<open>launch.rs\<close>
  (the launch sequence), \<open>context.rs\<close> and the decision part of \<open>main.rs\<close>. The operations of the
  operating system and the exchange with the agent are the fields of the record \<open>run_ops\<close>, over a
  state of the outside world. The state threaded through also keeps the trace of the calls with
  what they returned. An \<open>Instant\<close> is its nanoseconds. The loops may run forever, and so may the wait for a
  workload that was not killed: they are partial functions, with no result when they do. Messages on standard error are not modelled; neither is
  the panic of adding a constant to a clock reading at the end of its range.
\<close>

section \<open>The outside world\<close>

type_synonym instant = nat

datatype exit_status = ExitedWith int | SignaledBy int | OtherStatus

datatype spawn_error = SpawnNotFound | SpawnOther string

text \<open>Every operation takes the state of the world to its result and the next state: \<open>Instant::now\<close>,
  \<open>thread::sleep\<close>, \<open>AgentClient::exchange\<close>, \<open>signals::install\<close>, \<open>Command::spawn\<close> with the process
  identifier of the child, \<open>try_wait().unwrap_or(None)\<close>, \<open>wait().ok()\<close>, the queued signals, the two
  \<open>kill\<close> calls of the rustix crate and the one of the child; \<open>Signal::from_named_raw\<close> and
  \<open>Pid::from_raw\<close> are pure. The wait blocks until the child has ended: it has no result when the child
  never does.\<close>

record 'w run_ops =
  ro_now :: "'w \<Rightarrow> instant \<times> 'w"
  ro_sleep :: "duration \<Rightarrow> 'w \<Rightarrow> 'w"
  ro_exchange :: "client_request \<Rightarrow> 'w \<Rightarrow> (client_error, agent_response) result \<times> 'w"
  ro_install :: "'w \<Rightarrow> (string, unit) result \<times> 'w"
  ro_spawn :: "os_string \<Rightarrow> os_string list \<Rightarrow> 'w \<Rightarrow> (spawn_error, u32) result \<times> 'w"
  ro_try_wait :: "'w \<Rightarrow> exit_status option \<times> 'w"
  ro_wait :: "'w \<Rightarrow> (exit_status option \<times> 'w) option"
  ro_signals :: "'w \<Rightarrow> int list \<times> 'w"
  ro_kill_process :: "int \<Rightarrow> int \<Rightarrow> 'w \<Rightarrow> 'w"
  ro_kill_group :: "int \<Rightarrow> bool \<Rightarrow> 'w \<Rightarrow> 'w"
  ro_child_kill :: "'w \<Rightarrow> 'w"
  ro_named_signal :: "int \<Rightarrow> bool"
  ro_pid_from_raw :: "int \<Rightarrow> int option"

datatype run_effect =
    DidExchange client_request "(client_error, agent_response) result"
  | DidInstall "(string, unit) result"
  | DidSpawn os_string "os_string list" "(spawn_error, u32) result"
  | DidForward int int
  | DidKillGroup int bool
  | DidExit exit_status
  | DidEstablish
  | DidTeardown

record 'w run_world =
  rw_outer :: 'w
  rw_trace :: "run_effect list"

definition effect_step ::
  "('w \<Rightarrow> 'a \<times> 'w) \<Rightarrow> ('a \<Rightarrow> run_effect list) \<Rightarrow> 'w run_world \<Rightarrow> 'a \<times> 'w run_world" where
  "effect_step f entries w =
     (let (a, outer) = f (rw_outer w)
      in (a, \<lparr>rw_outer = outer, rw_trace = rw_trace w @ entries a\<rparr>))"

definition do_now :: "'w run_ops \<Rightarrow> 'w run_world \<Rightarrow> instant \<times> 'w run_world" where
  "do_now ops = effect_step (ro_now ops) (\<lambda>_. [])"

definition do_sleep :: "'w run_ops \<Rightarrow> duration \<Rightarrow> 'w run_world \<Rightarrow> 'w run_world" where
  "do_sleep ops d w = w\<lparr>rw_outer := ro_sleep ops d (rw_outer w)\<rparr>"

definition do_exchange ::
  "'w run_ops \<Rightarrow> client_request \<Rightarrow> 'w run_world \<Rightarrow>
     (client_error, agent_response) result \<times> 'w run_world" where
  "do_exchange ops request = effect_step (ro_exchange ops request) (\<lambda>r. [DidExchange request r])"

definition do_try_wait :: "'w run_ops \<Rightarrow> 'w run_world \<Rightarrow> exit_status option \<times> 'w run_world" where
  "do_try_wait ops =
     effect_step (ro_try_wait ops) (\<lambda>s. case s of Some status \<Rightarrow> [DidExit status] | None \<Rightarrow> [])"

definition do_wait ::
  "'w run_ops \<Rightarrow> 'w run_world \<Rightarrow> (exit_status option \<times> 'w run_world) option" where
  "do_wait ops w =
     (case ro_wait ops (rw_outer w) of
        None \<Rightarrow> None
      | Some r \<Rightarrow>
          Some (effect_step (\<lambda>_. r) (\<lambda>s. case s of Some status \<Rightarrow> [DidExit status] | None \<Rightarrow> []) w))"

definition do_kill_group :: "'w run_ops \<Rightarrow> int \<Rightarrow> bool \<Rightarrow> 'w run_world \<Rightarrow> 'w run_world" where
  "do_kill_group ops pgid forced w =
     \<lparr>rw_outer = ro_kill_group ops pgid forced (rw_outer w),
      rw_trace = rw_trace w @ [DidKillGroup pgid forced]\<rparr>"

section \<open>Deadlines\<close>

definition POLL_INTERVAL :: duration where "POLL_INTERVAL = 200 * 10 ^ 6"
definition TERMINATION_GRACE :: duration where "TERMINATION_GRACE = 5 * 10 ^ 9"
definition MIN_RENEWAL_RETRY_INTERVAL :: duration where "MIN_RENEWAL_RETRY_INTERVAL = 500 * 10 ^ 6"
definition RENEWAL_RETRY_BACKOFF :: duration where "RENEWAL_RETRY_BACKOFF = 10 ^ 9"
definition RELEASE_RETRY_BACKOFFS :: "duration list" where
  "RELEASE_RETRY_BACKOFFS = [100 * 10 ^ 6, 200 * 10 ^ 6]"
definition MAX_LEASE_REMAINING :: duration where
  "MAX_LEASE_REMAINING = 365 * 24 * 3600 * 10 ^ 9"

text \<open>\<open>Instant::checked_add\<close>: the seconds of an instant are an \<open>i64\<close>.\<close>

definition instant_checked_add :: "instant \<Rightarrow> duration \<Rightarrow> instant option" where
  "instant_checked_add base d = (if (base + d) div 10 ^ 9 < 2 ^ 63 then Some (base + d) else None)"

definition safe_deadline :: "instant \<Rightarrow> duration \<Rightarrow> instant" where
  "safe_deadline base remaining =
     (case instant_checked_add base (min remaining MAX_LEASE_REMAINING) of
        Some t \<Rightarrow> t | None \<Rightarrow> base)"

record renewal =
  rn_lease_id :: lease_id
  rn_deadline :: instant
  rn_renew_at :: instant

datatype run_outcome =
    WorkloadExited exit_status
  | AuthorizationLapsed "exit_status option"

definition next_renewal_retry :: "instant \<Rightarrow> instant \<Rightarrow> instant" where
  "next_renewal_retry attempted_at deadline =
     (let backed_off = attempted_at + RENEWAL_RETRY_BACKOFF;
          floored = attempted_at + MIN_RENEWAL_RETRY_INTERVAL
      in min (max backed_off floored) deadline)"

section \<open>Release and renewal\<close>

text \<open>The attempts of \<open>release\<close>; after the last one only a warning is left.\<close>

fun release_attempts ::
  "'w run_ops \<Rightarrow> lease_id \<Rightarrow> nat list \<Rightarrow> 'w run_world \<Rightarrow> 'w run_world" where
  "release_attempts ops lid [] w = w"
| "release_attempts ops lid (attempt # attempts) w =
     (let (answer, w1) = do_exchange ops (ReleaseLease \<lparr>rr_lease_id = lid\<rparr>) w
      in case answer of
           Inr (LeaseReleased _) \<Rightarrow> w1
         | _ \<Rightarrow>
             release_attempts ops lid attempts
               (if attempt < length RELEASE_RETRY_BACKOFFS
                then do_sleep ops (RELEASE_RETRY_BACKOFFS ! attempt) w1 else w1))"

definition release :: "'w run_ops \<Rightarrow> lease_id \<Rightarrow> 'w run_world \<Rightarrow> 'w run_world" where
  "release ops lid w = release_attempts ops lid [0 ..< 1 + length RELEASE_RETRY_BACKOFFS] w"

definition renew ::
  "'w run_ops \<Rightarrow> lease_request \<Rightarrow> renewal \<Rightarrow> 'w run_world \<Rightarrow> renewal \<times> 'w run_world" where
  "renew ops request renewal w =
     (let (attempted_at, w1) = do_now ops w;
          (answer, w2) = do_exchange ops (RequestLease request) w1
      in case answer of
           Inr (LeaseGranted lease) \<Rightarrow>
             (\<lparr>rn_lease_id = lv_lease_id lease,
               rn_deadline = safe_deadline attempted_at (lv_remaining lease),
               rn_renew_at = safe_deadline attempted_at (lv_remaining lease div 2)\<rparr>,
              release ops (rn_lease_id renewal) w2)
         | _ \<Rightarrow>
             (renewal\<lparr>rn_renew_at := next_renewal_retry attempted_at (rn_deadline renewal)\<rparr>, w2))"

section \<open>Signals and termination\<close>

definition pid_from_u32 :: "'w run_ops \<Rightarrow> u32 \<Rightarrow> int option" where
  "pid_from_u32 ops pid =
     (if unat pid < 2 ^ 31 then ro_pid_from_raw ops (int (unat pid)) else None)"

definition forward_to_child :: "'w run_ops \<Rightarrow> u32 \<Rightarrow> int \<Rightarrow> 'w run_world \<Rightarrow> 'w run_world" where
  "forward_to_child ops child_pid signal w =
     (case pid_from_u32 ops child_pid of
        None \<Rightarrow> w
      | Some pid \<Rightarrow>
          if \<not> ro_named_signal ops signal then w
          else \<lparr>rw_outer = ro_kill_process ops pid signal (rw_outer w),
                rw_trace = rw_trace w @ [DidForward pid signal]\<rparr>)"

definition forward_signals :: "'w run_ops \<Rightarrow> u32 \<Rightarrow> 'w run_world \<Rightarrow> 'w run_world" where
  "forward_signals ops child_pid w =
     (let (signals, w1) = effect_step (ro_signals ops) (\<lambda>_. []) w
      in fold (forward_to_child ops child_pid) signals w1)"

text \<open>The wait of \<open>terminate_for_lapsed_authorization\<close> after the first signal.\<close>

partial_function (option) await_termination ::
  "'w run_ops \<Rightarrow> int \<Rightarrow> instant \<Rightarrow> 'w run_world \<Rightarrow> (exit_status option \<times> 'w run_world) option" where
  "await_termination ops pgid deadline w =
     (case do_now ops w of (now, w1) \<Rightarrow>
        if now < deadline then
          (case do_try_wait ops w1 of
             (Some status, w2) \<Rightarrow> Some (Some status, w2)
           | (None, w2) \<Rightarrow> await_termination ops pgid deadline (do_sleep ops POLL_INTERVAL w2))
        else
          (let w2 = do_kill_group ops pgid True w1;
               w3 = w2\<lparr>rw_outer := ro_child_kill ops (rw_outer w2)\<rparr>
           in do_wait ops w3))"

definition terminate_for_lapsed_authorization ::
  "'w run_ops \<Rightarrow> u32 \<Rightarrow> 'w run_world \<Rightarrow> (exit_status option \<times> 'w run_world) option" where
  "terminate_for_lapsed_authorization ops child_pid w =
     (case pid_from_u32 ops child_pid of
        None \<Rightarrow> Some (do_try_wait ops w)
      | Some pgid \<Rightarrow>
          (case do_now ops (do_kill_group ops pgid False w) of (now, w1) \<Rightarrow>
             await_termination ops pgid (now + TERMINATION_GRACE) w1))"

section \<open>The poll loop\<close>

partial_function (option) supervise_loop ::
  "'w run_ops \<Rightarrow> lease_request \<Rightarrow> u32 \<Rightarrow> renewal \<Rightarrow> 'w run_world \<Rightarrow>
     (run_outcome \<times> 'w run_world) option" where
  "supervise_loop ops request child_pid renewal w =
     (case do_try_wait ops w of
        (Some status, w1) \<Rightarrow> Some (WorkloadExited status, release ops (rn_lease_id renewal) w1)
      | (None, w1) \<Rightarrow>
          (case do_now ops (forward_signals ops child_pid w1) of (now, w2) \<Rightarrow>
             if now \<ge> rn_deadline renewal then
               Option.bind (terminate_for_lapsed_authorization ops child_pid w2)
                 (\<lambda>(suppressed, w3).
                    Some (AuthorizationLapsed suppressed, release ops (rn_lease_id renewal) w3))
             else
               (case (if now \<ge> rn_renew_at renewal then renew ops request renewal w2 else (renewal, w2)) of
                  (renewal', w3) \<Rightarrow>
                    supervise_loop ops request child_pid renewal' (do_sleep ops POLL_INTERVAL w3))))"

definition supervise ::
  "'w run_ops \<Rightarrow> lease_request \<Rightarrow> lease_id \<Rightarrow> duration \<Rightarrow> instant \<Rightarrow> u32 \<Rightarrow> 'w run_world \<Rightarrow>
     (run_outcome \<times> 'w run_world) option" where
  "supervise ops request initial_lease_id initial_remaining grant_observed_at child_pid w =
     supervise_loop ops request child_pid
       \<lparr>rn_lease_id = initial_lease_id,
        rn_deadline = safe_deadline grant_observed_at initial_remaining,
        rn_renew_at = safe_deadline grant_observed_at (initial_remaining div 2)\<rparr> w"

section \<open>The governed context\<close>

record governed_context =
  gc_establish :: "(string, unit) result"
  gc_teardown :: "(string, unit) result"

definition null_context :: governed_context where
  "null_context = \<lparr>gc_establish = Inr (), gc_teardown = Inr ()\<rparr>"

definition do_teardown :: "'w run_world \<Rightarrow> 'w run_world" where
  "do_teardown w = w\<lparr>rw_trace := rw_trace w @ [DidTeardown]\<rparr>"

section \<open>The launch\<close>

datatype launch_outcome = LaunchFailed launch_failure | LaunchExit u8

definition request_initial_lease ::
  "'w run_ops \<Rightarrow> (client_error \<Rightarrow> string) \<Rightarrow> lease_request \<Rightarrow> 'w run_world \<Rightarrow>
     (launch_failure, lease_id \<times> duration \<times> instant) result \<times> 'w run_world" where
  "request_initial_lease ops error_text request w =
     (let (grant_observed_at, w1) = do_now ops w;
          (answer, w2) = do_exchange ops (RequestLease request) w1
      in (case answer of
            Inl e \<Rightarrow> Inl (FailAgentUnavailable (error_text e))
          | Inr (LeaseGranted lease) \<Rightarrow> Inr (lv_lease_id lease, lv_remaining lease, grant_observed_at)
          | Inr other \<Rightarrow>
              Inl (case classify_response other of
                     Some failure \<Rightarrow> failure
                   | None \<Rightarrow>
                       FailAgentUnavailable
                         (''the agent'' @ apostrophe @ ''s response could not be classified'')),
          w2))"

fun status_to_exit_code :: "exit_status \<Rightarrow> u8" where
  "status_to_exit_code (ExitedWith code) =
     (if 0 \<le> code \<and> code < 256 then of_int code else 255)"
| "status_to_exit_code (SignaledBy signal) =
     workload_signal_exit_code (if 0 \<le> signal \<and> signal < 256 then of_int signal else 255)"
| "status_to_exit_code OtherStatus = exit_code_value ExAgentError"

fun outcome_to_exit :: "run_outcome \<Rightarrow> launch_outcome" where
  "outcome_to_exit (WorkloadExited status) = LaunchExit (status_to_exit_code status)"
| "outcome_to_exit (AuthorizationLapsed _) = LaunchExit (exit_code_value ExAuthorizationLapsed)"

fun spawn_failure_code :: "spawn_error \<Rightarrow> u8" where
  "spawn_failure_code SpawnNotFound = 127"
| "spawn_failure_code (SpawnOther _) = 126"

text \<open>The outcome of loading the profile and of reading the socket path are arguments, as are the texts
  of their errors.\<close>

record launch_texts =
  lt_load :: "profile_load_error \<Rightarrow> string"
  lt_client :: "client_error \<Rightarrow> string"

text \<open>From the grant on (S5 to S11).\<close>

definition launch_granted ::
  "'w run_ops \<Rightarrow> lease_request \<Rightarrow> run_invocation \<Rightarrow> lease_id \<times> duration \<times> instant \<Rightarrow>
     'w run_world \<Rightarrow> (launch_outcome \<times> 'w run_world) option" where
  "launch_granted ops request invocation granted w =
     (case granted of (lease_id, remaining, grant_observed_at) \<Rightarrow>
        (case effect_step (ro_install ops) (\<lambda>r. [DidInstall r]) w of
           (Inl e, w1) \<Rightarrow>
             Some (LaunchFailed (FailAgentUnavailable (''failed to install signal handlers: '' @ e)),
                   do_teardown (release ops lease_id w1))
         | (Inr _, w1) \<Rightarrow>
             (case effect_step (ro_spawn ops (ri_program invocation) (ri_args invocation))
                     (\<lambda>r. [DidSpawn (ri_program invocation) (ri_args invocation) r]) w1 of
                (Inl e, w2) \<Rightarrow>
                  Some (LaunchExit (spawn_failure_code e), do_teardown (release ops lease_id w2))
              | (Inr child_pid, w2) \<Rightarrow>
                  Option.bind
                    (supervise ops request lease_id remaining grant_observed_at child_pid w2)
                    (\<lambda>(outcome, w3). Some (outcome_to_exit outcome, do_teardown w3)))))"

definition launch_run ::
  "'w run_ops \<Rightarrow> launch_texts \<Rightarrow> (profile_load_error, profile_document) result \<Rightarrow>
     (client_error, string) result \<Rightarrow> run_invocation \<Rightarrow> 'w run_world \<Rightarrow>
     (launch_outcome \<times> 'w run_world) option" where
  "launch_run ops texts loaded client invocation w =
     (case loaded of
        Inl e \<Rightarrow> Some (LaunchFailed (FailProfileUnresolved (lt_load texts e)), w)
      | Inr profile \<Rightarrow>
          (let request = \<lparr>lr_resource = pf_resource profile, lr_action = pf_action profile\<rparr>
           in case gc_establish null_context of
             Inl e \<Rightarrow> Some (LaunchFailed (FailGovernedContext e), w)
           | Inr _ \<Rightarrow>
               (let w0 = w\<lparr>rw_trace := rw_trace w @ [DidEstablish]\<rparr>
                in case client of
                  Inl e \<Rightarrow>
                    Some (LaunchFailed (FailAgentUnavailable (lt_client texts e)), do_teardown w0)
                | Inr _ \<Rightarrow>
                    (case request_initial_lease ops (lt_client texts) request w0 of
                       (Inl failure, w1) \<Rightarrow> Some (LaunchFailed failure, do_teardown w1)
                     | (Inr granted, w1) \<Rightarrow> launch_granted ops request invocation granted w1))))"

text \<open>The status the process exits with.\<close>

definition main_status :: "launch_outcome \<Rightarrow> u8" where
  "main_status outcome =
     (case outcome of
        LaunchFailed failure \<Rightarrow> exit_code_value (failure_exit_code failure)
      | LaunchExit code \<Rightarrow> code)"

text \<open>What \<open>main\<close> does with its arguments, before a launch.\<close>

datatype main_action =
    PrintHelp
  | PrintVersion
  | ReportFailure launch_failure
  | Launch run_invocation

definition main_action_for :: "(os_string \<Rightarrow> string) \<Rightarrow> os_string list \<Rightarrow> main_action" where
  "main_action_for debug argv =
     (if argv \<noteq> [] \<and> (hd argv = ''--help'' \<or> hd argv = ''-h'') then PrintHelp
      else if argv \<noteq> [] \<and> (hd argv = ''--version'' \<or> hd argv = ''-V'') then PrintVersion
      else case parse_run argv of
        Inl e \<Rightarrow> ReportFailure (FailUsage (usage_error_text debug e))
      | Inr invocation \<Rightarrow> Launch invocation)"

section \<open>What the trace shows of each operation\<close>

lemma effect_step_simps [simp]:
  "fst (effect_step f entries w) = fst (f (rw_outer w))"
  "rw_outer (snd (effect_step f entries w)) = snd (f (rw_outer w))"
  "rw_trace (snd (effect_step f entries w)) = rw_trace w @ entries (fst (f (rw_outer w)))"
  by (simp_all add: effect_step_def split_beta)

lemma do_now_trace [simp]: "rw_trace (snd (do_now ops w)) = rw_trace w"
  by (simp add: do_now_def)

lemma do_sleep_trace [simp]: "rw_trace (do_sleep ops d w) = rw_trace w"
  by (simp add: do_sleep_def)

lemma do_exchange_trace [simp]:
  "rw_trace (snd (do_exchange ops request w)) =
     rw_trace w @ [DidExchange request (fst (do_exchange ops request w))]"
  by (simp add: do_exchange_def)

lemma do_kill_group_trace [simp]:
  "rw_trace (do_kill_group ops pgid forced w) = rw_trace w @ [DidKillGroup pgid forced]"
  by (simp add: do_kill_group_def)

lemma do_teardown_trace [simp]: "rw_trace (do_teardown w) = rw_trace w @ [DidTeardown]"
  by (simp add: do_teardown_def)

text \<open>The entries a part of the run adds, as a relation between its states.\<close>

definition adds :: "(run_effect \<Rightarrow> bool) \<Rightarrow> 'w run_world \<Rightarrow> 'w run_world \<Rightarrow> bool" where
  "adds P w w' \<longleftrightarrow> (\<exists>es. rw_trace w' = rw_trace w @ es \<and> list_all P es)"

lemma adds_refl [simp]: "adds P w w"
  by (simp add: adds_def)

lemma adds_trans [trans]: "adds P w w1 \<Longrightarrow> adds P w1 w2 \<Longrightarrow> adds P w w2"
  by (auto simp: adds_def)

lemma adds_mono: "adds P w w' \<Longrightarrow> (\<And>e. P e \<Longrightarrow> Q e) \<Longrightarrow> adds Q w w'"
  by (auto simp: adds_def intro: list.pred_mono_strong)

lemma adds_same_trace: "rw_trace w' = rw_trace w \<Longrightarrow> adds P w w'"
  by (simp add: adds_def)

lemma adds_entry: "rw_trace w' = rw_trace w @ [e] \<Longrightarrow> P e \<Longrightarrow> adds P w w'"
  by (auto simp: adds_def)

text \<open>The release asks for its lease and for nothing else, at most three times, and stops at the
  first answer that says released or refused.\<close>

definition is_release :: "lease_id \<Rightarrow> run_effect \<Rightarrow> bool" where
  "is_release lid e \<longleftrightarrow> (\<exists>a. e = DidExchange (ReleaseLease \<lparr>rr_lease_id = lid\<rparr>) a)"

definition release_answered :: "run_effect \<Rightarrow> bool" where
  "release_answered e \<longleftrightarrow> (\<exists>r o'. e = DidExchange r (Inr (LeaseReleased o')))"

lemma release_attempts_trace:
  "\<exists>es. rw_trace (release_attempts ops lid ns w) = rw_trace w @ es \<and> length es \<le> length ns \<and>
     list_all (is_release lid) es \<and> list_all (\<lambda>e. \<not> release_answered e) (butlast es) \<and>
     (es = [] \<longleftrightarrow> ns = []) \<and> (length es < length ns \<longrightarrow> release_answered (last es))"
proof (induction ns arbitrary: w)
  case (Cons attempt attempts)
  obtain answer w1 where ex: "do_exchange ops (ReleaseLease \<lparr>rr_lease_id = lid\<rparr>) w = (answer, w1)"
    by fastforce
  then have w1: "rw_trace w1 = rw_trace w @ [DidExchange (ReleaseLease \<lparr>rr_lease_id = lid\<rparr>) answer]"
    by (metis do_exchange_trace fst_conv snd_conv)
  let ?e = "DidExchange (ReleaseLease \<lparr>rr_lease_id = lid\<rparr>) answer"
  show ?case
  proof (cases "\<exists>o'. answer = Inr (LeaseReleased o')")
    case True
    then show ?thesis
      by (intro exI [of _ "[?e]"]) (auto simp: ex w1 is_release_def release_answered_def)
  next
    case False
    let ?w2 = "if attempt < length RELEASE_RETRY_BACKOFFS
                then do_sleep ops (RELEASE_RETRY_BACKOFFS ! attempt) w1 else w1"
    have "release_attempts ops lid (attempt # attempts) w = release_attempts ops lid attempts ?w2"
      using False by (auto simp: ex split: sum.splits agent_response.splits)
    moreover obtain es where "rw_trace (release_attempts ops lid attempts ?w2) = rw_trace ?w2 @ es"
      and es: "length es \<le> length attempts" "list_all (is_release lid) es"
        "list_all (\<lambda>e. \<not> release_answered e) (butlast es)" "es = [] \<longleftrightarrow> attempts = []"
        "length es < length attempts \<longrightarrow> release_answered (last es)"
      using Cons.IH [of ?w2] by blast
    moreover have "rw_trace ?w2 = rw_trace w1" by simp
    ultimately have "rw_trace (release_attempts ops lid (attempt # attempts) w) = rw_trace w @ ?e # es"
      by (simp only: w1 append_assoc append.simps)
    moreover have "is_release lid ?e" and "\<not> release_answered ?e"
      using False by (auto simp: is_release_def release_answered_def)
    ultimately show ?thesis
      using es by (intro exI [of _ "?e # es"]) auto
  qed
qed simp

lemma release_trace:
  "\<exists>es. rw_trace (release ops lid w) = rw_trace w @ es \<and> es \<noteq> [] \<and> length es \<le> 3 \<and>
     list_all (is_release lid) es \<and> list_all (\<lambda>e. \<not> release_answered e) (butlast es) \<and>
     (length es < 3 \<longrightarrow> release_answered (last es))"
  using release_attempts_trace [of ops lid "[0 ..< 1 + length RELEASE_RETRY_BACKOFFS]" w]
  by (simp add: release_def RELEASE_RETRY_BACKOFFS_def numeral_3_eq_3 del: upt_Suc) blast

lemma adds_release: "adds (is_release lid) w (release ops lid w)"
  using release_trace [of ops lid w] by (auto simp: adds_def)

section \<open>Leases held\<close>

text \<open>The leases granted in a trace that no release was asked for since.\<close>

fun held_step :: "run_effect \<Rightarrow> lease_id set \<Rightarrow> lease_id set" where
  "held_step (DidExchange (RequestLease _) (Inr (LeaseGranted v))) held = insert (lv_lease_id v) held"
| "held_step (DidExchange (ReleaseLease r) _) held = held - {rr_lease_id r}"
| "held_step _ held = held"

definition held :: "run_effect list \<Rightarrow> lease_id set" where
  "held tr = fold held_step tr {}"

lemma held_append: "held (tr @ es) = fold held_step es (held tr)"
  by (simp add: held_def)

lemma held_releases:
  "list_all (is_release lid) es \<Longrightarrow> fold held_step es H = (if es = [] then H else H - {lid})"
  by (induction es arbitrary: H) (auto simp: is_release_def)

lemma held_release: "held (rw_trace (release ops lid w)) = held (rw_trace w) - {lid}"
  using release_trace [of ops lid w] by (auto simp: held_append held_releases)

definition lease_neutral :: "run_effect \<Rightarrow> bool" where
  "lease_neutral e \<longleftrightarrow> (\<forall>H. held_step e H = H)"

lemma held_neutral: "adds lease_neutral w w' \<Longrightarrow> held (rw_trace w') = held (rw_trace w)"
proof -
  have "list_all lease_neutral es \<Longrightarrow> fold held_step es H = H" for es H
    by (induction es arbitrary: H) (simp_all add: lease_neutral_def)
  then show "adds lease_neutral w w' \<Longrightarrow> held (rw_trace w') = held (rw_trace w)"
    by (auto simp: adds_def held_append)
qed

lemma renew_held:
  assumes "held (rw_trace w) \<subseteq> {rn_lease_id renewal}"
  shows "held (rw_trace (snd (renew ops request renewal w))) \<subseteq> {rn_lease_id (fst (renew ops request renewal w))}"
proof -
  obtain t w1 where now: "do_now ops w = (t, w1)" by fastforce
  then have w1: "rw_trace w1 = rw_trace w" by (metis do_now_trace snd_conv)
  obtain answer w2 where ex: "do_exchange ops (RequestLease request) w1 = (answer, w2)" by fastforce
  then have "rw_trace w2 = rw_trace w @ [DidExchange (RequestLease request) answer]"
    by (metis do_exchange_trace fst_conv snd_conv w1)
  then show ?thesis
    using assms
    by (auto simp: renew_def now ex held_append held_release split: sum.splits agent_response.splits)
qed

lemma forward_to_child_adds:
  "adds (\<lambda>e. \<exists>p s. e = DidForward p s) w (forward_to_child ops child_pid signal w)"
  by (auto simp: forward_to_child_def adds_def split: option.splits)

lemma forward_signals_adds:
  "adds (\<lambda>e. \<exists>p s. e = DidForward p s) w (forward_signals ops child_pid w)"
proof -
  let ?P = "\<lambda>e. \<exists>p s. e = DidForward p s"
  have "adds ?P w1 (fold (forward_to_child ops child_pid) signals w1)" for signals w1
    by (induction signals arbitrary: w1) (auto intro: adds_trans [OF forward_to_child_adds])
  moreover have "adds ?P w (snd (effect_step (ro_signals ops) (\<lambda>_. []) w))"
    by (simp add: adds_same_trace)
  ultimately show ?thesis
    by (auto simp: forward_signals_def split_beta intro: adds_trans)
qed

text \<open>What supervision does to the workload: the group signals in a trace.\<close>

definition is_kill :: "run_effect \<Rightarrow> bool" where
  "is_kill e \<longleftrightarrow> (\<exists>p forced. e = DidKillGroup p forced)"

definition kills :: "run_effect list \<Rightarrow> run_effect list" where
  "kills tr = filter is_kill tr"

lemma kills_adds: "adds (\<lambda>e. \<not> is_kill e) w w' \<Longrightarrow> kills (rw_trace w') = kills (rw_trace w)"
  by (auto simp: adds_def kills_def list_all_iff)

definition supervision_effect :: "run_effect \<Rightarrow> bool" where
  "supervision_effect e \<longleftrightarrow>
     (case e of DidExchange _ _ \<Rightarrow> True | DidForward _ _ \<Rightarrow> True | DidKillGroup _ _ \<Rightarrow> True
      | DidExit _ \<Rightarrow> True | _ \<Rightarrow> False)"

lemma await_termination_trace:
  assumes "await_termination ops pgid deadline w = Some r"
  shows "\<exists>es. rw_trace (snd r) = rw_trace w @ es @ (case fst r of Some s \<Rightarrow> [DidExit s] | None \<Rightarrow> []) \<and>
       (es = [] \<and> fst r \<noteq> None \<or> es = [DidKillGroup pgid True])"
  using assms
proof (induction rule: await_termination.raw_induct [rotated, consumes 1])
  case (1 await ops pgid deadline w r)
  obtain now w1 where now: "do_now ops w = (now, w1)" by fastforce
  then have w1: "rw_trace w1 = rw_trace w" by (metis do_now_trace snd_conv)
  obtain s w2 where wait: "do_try_wait ops w1 = (s, w2)" by fastforce
  then have w2: "rw_trace w2 = rw_trace w @ (case s of Some s \<Rightarrow> [DidExit s] | None \<Rightarrow> [])"
    by (metis do_try_wait_def effect_step_simps(1,3) fst_conv snd_conv w1)
  show ?case
  proof (cases "now < deadline")
    case True
    show ?thesis
    proof (cases s)
      case None
      then have "await ops pgid deadline (do_sleep ops POLL_INTERVAL w2) = Some r"
        using 1(2) True by (simp add: now wait)
      from 1(1) [OF this] show ?thesis by (simp add: w2 None)
    next
      case (Some t)
      then show ?thesis using 1(2) True w2 by (auto simp: now wait)
    qed
  next
    case False
    then show ?thesis
      using 1(2) by (auto simp: now w1 do_wait_def Let_def split: option.splits)
  qed
qed

lemma terminate_trace:
  assumes "terminate_for_lapsed_authorization ops child_pid w = Some r"
  shows "\<exists>es. rw_trace (snd r) = rw_trace w @ es @ (case fst r of Some s \<Rightarrow> [DidExit s] | None \<Rightarrow> []) \<and>
     (case pid_from_u32 ops child_pid of
        None \<Rightarrow> es = []
      | Some pgid \<Rightarrow>
          es = [DidKillGroup pgid False] \<and> fst r \<noteq> None \<or>
          es = [DidKillGroup pgid False, DidKillGroup pgid True])"
proof (cases "pid_from_u32 ops child_pid")
  case None
  then show ?thesis
    using assms by (auto simp: terminate_for_lapsed_authorization_def do_try_wait_def)
next
  case (Some pgid)
  obtain now w1 where now: "do_now ops (do_kill_group ops pgid False w) = (now, w1)" by fastforce
  then have "rw_trace w1 = rw_trace w @ [DidKillGroup pgid False]"
    by (metis do_kill_group_trace do_now_trace snd_conv)
  moreover have "await_termination ops pgid (now + TERMINATION_GRACE) w1 = Some r"
    using assms by (simp add: terminate_for_lapsed_authorization_def Some now)
  ultimately show ?thesis
    using await_termination_trace [of ops pgid "now + TERMINATION_GRACE" w1 r] by (auto simp: Some)
qed

section \<open>What supervision does\<close>

text \<open>The group signals and the exit a supervision saw, by its outcome.\<close>

definition outcome_effects :: "'w run_ops \<Rightarrow> u32 \<Rightarrow> run_outcome \<Rightarrow> run_effect list \<Rightarrow> bool" where
  "outcome_effects ops child_pid outcome es \<longleftrightarrow>
     (case outcome of
        WorkloadExited st \<Rightarrow> kills es = [] \<and> DidExit st \<in> set es
      | AuthorizationLapsed st \<Rightarrow>
          (\<forall>s. st = Some s \<longrightarrow> DidExit s \<in> set es) \<and>
          (case pid_from_u32 ops child_pid of
             None \<Rightarrow> kills es = []
           | Some pgid \<Rightarrow>
               kills es = [DidKillGroup pgid False] \<and> st \<noteq> None \<or>
               kills es = [DidKillGroup pgid False, DidKillGroup pgid True]))"

lemma outcome_effects_mono:
  "outcome_effects ops child_pid outcome es \<Longrightarrow> kills es' = kills es \<Longrightarrow> set es \<subseteq> set es' \<Longrightarrow>
     outcome_effects ops child_pid outcome es'"
  by (auto simp: outcome_effects_def split: run_outcome.splits option.splits)

lemma renew_adds:
  "adds (\<lambda>e. \<exists>r a. e = DidExchange r a) w (snd (renew ops request renewal w))"
proof -
  let ?P = "\<lambda>e. \<exists>r a. e = DidExchange r a"
  obtain t w1 where now: "do_now ops w = (t, w1)" by fastforce
  obtain answer w2 where ex: "do_exchange ops (RequestLease request) w1 = (answer, w2)" by fastforce
  have "rw_trace w1 = rw_trace w" using now by (metis do_now_trace snd_conv)
  then have "adds ?P w w2"
    using ex by (metis (mono_tags, lifting) adds_entry do_exchange_trace snd_conv)
  moreover have "adds ?P w2 (release ops (rn_lease_id renewal) w2)"
    by (rule adds_mono [OF adds_release]) (auto simp: is_release_def)
  ultimately have "adds ?P w (release ops (rn_lease_id renewal) w2)" by (rule adds_trans)
  then show ?thesis
    using \<open>adds ?P w w2\<close> by (auto simp: renew_def now ex split: sum.splits agent_response.splits)
qed

lemma exchanges_are_supervision: "\<exists>r a. e = DidExchange r a \<Longrightarrow> supervision_effect e \<and> \<not> is_kill e"
  by (auto simp: supervision_effect_def is_kill_def)

lemma adds_release_supervision:
  "adds (\<lambda>e. supervision_effect e \<and> \<not> is_kill e) w (release ops lid w)"
  by (rule adds_mono [OF adds_release]) (auto simp: is_release_def supervision_effect_def is_kill_def)

text \<open>One turn of the loop up to the check of the deadline.\<close>

lemma poll_adds:
  assumes "do_try_wait ops w = (st, w1)" and "do_now ops (forward_signals ops child_pid w1) = (now, w2)"
  shows "adds (\<lambda>e. supervision_effect e \<and> \<not> is_kill e \<and> lease_neutral e) w w1"
    and "adds (\<lambda>e. supervision_effect e \<and> \<not> is_kill e \<and> lease_neutral e) w w2"
proof -
  let ?P = "\<lambda>e. supervision_effect e \<and> \<not> is_kill e \<and> lease_neutral e"
  have "rw_trace w1 = rw_trace w @ (case st of Some s \<Rightarrow> [DidExit s] | None \<Rightarrow> [])"
    using assms(1) by (metis do_try_wait_def effect_step_simps(1,3) fst_conv snd_conv)
  then show w1: "adds ?P w w1"
    by (auto simp: adds_def supervision_effect_def is_kill_def lease_neutral_def split: option.splits)
  have "rw_trace w2 = rw_trace (forward_signals ops child_pid w1)"
    using assms(2) by (metis do_now_trace snd_conv)
  moreover have "adds ?P w1 (forward_signals ops child_pid w1)"
    by (rule adds_mono [OF forward_signals_adds])
       (auto simp: supervision_effect_def is_kill_def lease_neutral_def)
  ultimately show "adds ?P w w2"
    using w1 by (metis (no_types, lifting) adds_same_trace adds_trans)
qed

lemma adds_kills_append:
  assumes "adds (\<lambda>e. supervision_effect e \<and> \<not> is_kill e) w w1"
    and "rw_trace w' = rw_trace w1 @ es" and "list_all supervision_effect es"
  shows "\<exists>es'. rw_trace w' = rw_trace w @ es' \<and> list_all supervision_effect es' \<and>
    kills es' = kills es \<and> set es \<subseteq> set es'"
  using assms by (fastforce simp: adds_def kills_def list_all_iff)

definition supervised_by :: "'w run_ops \<Rightarrow> u32 \<Rightarrow> 'w run_world \<Rightarrow> run_outcome \<times> 'w run_world \<Rightarrow> bool" where
  "supervised_by ops child_pid w r \<longleftrightarrow>
     held (rw_trace (snd r)) = {} \<and>
     (\<exists>es. rw_trace (snd r) = rw_trace w @ es \<and> list_all supervision_effect es \<and>
        outcome_effects ops child_pid (fst r) es)"

lemma supervised_by_prefix:
  assumes "adds (\<lambda>e. supervision_effect e \<and> \<not> is_kill e) w w1" and "supervised_by ops child_pid w1 r"
  shows "supervised_by ops child_pid w r"
proof -
  obtain es where none: "held (rw_trace (snd r)) = {}" and "rw_trace (snd r) = rw_trace w1 @ es"
    "list_all supervision_effect es" and eff: "outcome_effects ops child_pid (fst r) es"
    using assms(2) by (auto simp: supervised_by_def)
  then obtain es' where "rw_trace (snd r) = rw_trace w @ es'" "list_all supervision_effect es'"
    "kills es' = kills es" "set es \<subseteq> set es'"
    using adds_kills_append [OF assms(1)] by blast
  with none outcome_effects_mono [OF eff] show ?thesis
    unfolding supervised_by_def by blast
qed

lemma lapse_supervised:
  assumes "terminate_for_lapsed_authorization ops child_pid w = Some (st, w1)"
    and "held (rw_trace w) \<subseteq> {lid}"
  shows "supervised_by ops child_pid w (AuthorizationLapsed st, release ops lid w1)"
proof -
  obtain es where tr: "rw_trace w1 = rw_trace w @ es @ (case st of Some s \<Rightarrow> [DidExit s] | None \<Rightarrow> [])"
    and es: "case pid_from_u32 ops child_pid of
        None \<Rightarrow> es = []
      | Some pgid \<Rightarrow>
          es = [DidKillGroup pgid False] \<and> st \<noteq> None \<or>
          es = [DidKillGroup pgid False, DidKillGroup pgid True]"
    using terminate_trace [OF assms(1), unfolded fst_conv snd_conv] by blast
  let ?es = "es @ (case st of Some s \<Rightarrow> [DidExit s] | None \<Rightarrow> [])"
  have "held (rw_trace w1) = held (rw_trace w)"
    using es by (auto simp: tr held_append split: option.splits)
  then have none: "held (rw_trace (release ops lid w1)) = {}"
    using assms(2) by (auto simp: held_release)
  obtain es' where "rw_trace (release ops lid w1) = rw_trace w1 @ es'"
    and es': "list_all (\<lambda>e. supervision_effect e \<and> \<not> is_kill e) es'"
    using adds_release_supervision [of w1 ops lid] by (auto simp: adds_def)
  then have "rw_trace (release ops lid w1) = rw_trace w @ ?es @ es'" by (simp add: tr)
  moreover have "list_all supervision_effect (?es @ es')"
    using es es' by (auto simp: supervision_effect_def list_all_iff split: option.splits)
  moreover have "kills (?es @ es') = es"
  proof -
    have "filter is_kill es' = []" using es' by (simp add: filter_empty_conv list_all_iff)
    then show ?thesis using es by (auto simp: kills_def is_kill_def split: option.splits)
  qed
  ultimately show ?thesis
    using es none unfolding supervised_by_def
    by (intro conjI exI [of _ "?es @ es'"]) (auto simp: outcome_effects_def split: option.splits)
qed

lemma supervise_loop_supervised:
  assumes "supervise_loop ops request child_pid renewal w = Some r"
    and "held (rw_trace w) \<subseteq> {rn_lease_id renewal}"
  shows "supervised_by ops child_pid w r"
  using assms
proof (induction rule: supervise_loop.raw_induct [rotated, consumes 1])
  case (1 loop ops request child_pid renewal w r)
  let ?Q = "\<lambda>e. supervision_effect e \<and> \<not> is_kill e"
  obtain st w1 where wait: "do_try_wait ops w = (st, w1)" by fastforce
  obtain now w2 where now: "do_now ops (forward_signals ops child_pid w1) = (now, w2)" by fastforce
  note polled = poll_adds [OF wait now]
  have polled': "adds ?Q w w1" "adds ?Q w w2"
    using polled by (auto elim: adds_mono)
  have held: "held (rw_trace w1) = held (rw_trace w)" "held (rw_trace w2) = held (rw_trace w)"
    using polled by (auto intro!: held_neutral elim: adds_mono)
  show ?case
  proof (cases st)
    case (Some s)
    then have r: "r = (WorkloadExited s, release ops (rn_lease_id renewal) w1)"
      using 1(2) by (simp add: wait)
    have "rw_trace w1 = rw_trace w @ [DidExit s]"
      using wait Some by (metis do_try_wait_def effect_step_simps(1,3) fst_conv option.simps(5) snd_conv)
    then obtain es' where tr: "rw_trace (snd r) = rw_trace w @ DidExit s # es'" and es': "list_all ?Q es'"
      using adds_release_supervision [of w1 ops "rn_lease_id renewal"] r by (auto simp: adds_def)
    let ?es = "DidExit s # es'"
    have es: "list_all ?Q ?es" using es' by (simp add: supervision_effect_def is_kill_def)
    have "held (rw_trace (snd r)) = {}"
      using 1(3) by (auto simp: r held_release held)
    moreover have "list_all supervision_effect ?es" and "outcome_effects ops child_pid (fst r) ?es"
      using es by (auto simp: r outcome_effects_def kills_def filter_empty_conv list_all_iff)
    ultimately show ?thesis
      unfolding supervised_by_def using tr by blast
  next
    case None
    show ?thesis
    proof (cases "now \<ge> rn_deadline renewal")
      case True
      then obtain st' w3 where "terminate_for_lapsed_authorization ops child_pid w2 = Some (st', w3)"
        and "r = (AuthorizationLapsed st', release ops (rn_lease_id renewal) w3)"
        using 1(2) None by (auto simp: wait now bind_eq_Some_conv)
      then show ?thesis
        using lapse_supervised [of ops child_pid w2] held 1(3) supervised_by_prefix [OF polled'(2)] by metis
    next
      case False
      define next_state where "next_state =
        (if now \<ge> rn_renew_at renewal then renew ops request renewal w2 else (renewal, w2))"
      obtain renewal' w3 where next_eq: "next_state = (renewal', w3)" by fastforce
      have "loop ops request child_pid renewal' (do_sleep ops POLL_INTERVAL w3) = Some r"
        using 1(2) None False next_eq by (simp add: wait now next_state_def)
      moreover have "held (rw_trace w2) \<subseteq> {rn_lease_id renewal}"
        using 1(3) held(2) by simp
      then have "held (rw_trace w3) \<subseteq> {rn_lease_id renewal'}"
        using next_eq renew_held [of w2 renewal ops request]
        by (cases "now \<ge> rn_renew_at renewal") (simp_all add: next_state_def)
      ultimately have "supervised_by ops child_pid (do_sleep ops POLL_INTERVAL w3) r"
        using 1(1) by simp
      moreover have "adds ?Q w2 w3"
        using next_eq renew_adds [of w2 ops request renewal] exchanges_are_supervision
        by (auto simp: next_state_def split: if_splits elim!: adds_mono)
      then have "adds ?Q w (do_sleep ops POLL_INTERVAL w3)"
        using polled'(2) by (meson adds_same_trace adds_trans do_sleep_trace)
      ultimately show ?thesis by (rule supervised_by_prefix [rotated])
    qed
  qed
qed

section \<open>What a launch does\<close>

text \<open>The traces of a launch, by how far it came.\<close>

inductive launch_shape ::
  "'w run_ops \<Rightarrow> launch_texts \<Rightarrow> run_invocation \<Rightarrow> (profile_load_error, profile_document) result \<Rightarrow>
     launch_outcome \<Rightarrow> run_effect list \<Rightarrow> bool"
  for ops texts invocation where
  no_profile:
    "launch_shape ops texts invocation (Inl e)
       (LaunchFailed (FailProfileUnresolved (lt_load texts e))) []"
| no_client:
    "launch_shape ops texts invocation (Inr profile) (LaunchFailed (FailAgentUnavailable detail))
       [DidEstablish, DidTeardown]"
| no_grant:
    "\<forall>v. a \<noteq> Inr (LeaseGranted v) \<Longrightarrow>
     failure = (case a of Inl e \<Rightarrow> FailAgentUnavailable (lt_client texts e)
                | Inr response \<Rightarrow> the (classify_response response)) \<Longrightarrow>
     launch_shape ops texts invocation (Inr profile) (LaunchFailed failure)
       [DidEstablish,
        DidExchange (RequestLease \<lparr>lr_resource = pf_resource profile, lr_action = pf_action profile\<rparr>) a,
        DidTeardown]"
| not_spawned:
    "begun = DidInstall (Inl e) # [] \<and> outcome = LaunchFailed (FailAgentUnavailable
        (''failed to install signal handlers: '' @ e)) \<or>
     begun = [DidInstall (Inr ()), DidSpawn (ri_program invocation) (ri_args invocation) (Inl se)] \<and>
       outcome = LaunchExit (spawn_failure_code se) \<Longrightarrow>
     list_all (is_release (lv_lease_id v)) rel \<Longrightarrow> rel \<noteq> [] \<Longrightarrow>
     launch_shape ops texts invocation (Inr profile) outcome
       ([DidEstablish,
         DidExchange (RequestLease \<lparr>lr_resource = pf_resource profile, lr_action = pf_action profile\<rparr>)
           (Inr (LeaseGranted v))] @ begun @ rel @ [DidTeardown])"
| spawned:
    "list_all supervision_effect es \<Longrightarrow> outcome_effects ops child_pid ended es \<Longrightarrow>
     fold held_step es {lv_lease_id v} = {} \<Longrightarrow>
     \<exists>lid remaining t0 w w'. supervise ops
       \<lparr>lr_resource = pf_resource profile, lr_action = pf_action profile\<rparr> lid remaining t0 child_pid w =
         Some (ended, w') \<Longrightarrow>
     launch_shape ops texts invocation (Inr profile) (outcome_to_exit ended)
       ([DidEstablish,
         DidExchange (RequestLease \<lparr>lr_resource = pf_resource profile, lr_action = pf_action profile\<rparr>)
           (Inr (LeaseGranted v)), DidInstall (Inr ()),
         DidSpawn (ri_program invocation) (ri_args invocation) (Inr child_pid)] @ es @ [DidTeardown])"

lemma classify_response_None: "classify_response response = None \<longleftrightarrow> (\<exists>v. response = LeaseGranted v)"
  by (cases response) simp_all

lemma held_step_no_grant:
  "\<forall>v. a \<noteq> Inr (LeaseGranted v) \<Longrightarrow> held_step (DidExchange (RequestLease q) a) H = H"
proof (cases a)
  case (Inr b)
  then show "\<forall>v. a \<noteq> Inr (LeaseGranted v) \<Longrightarrow> ?thesis" by (cases b) simp_all
qed simp

lemma request_initial_lease_trace:
  assumes "request_initial_lease ops error_text request w = (r, w1)"
  obtains a where "rw_trace w1 = rw_trace w @ [DidExchange (RequestLease request) a]"
    and "case r of
        Inr (lid, remaining, _) \<Rightarrow>
          a = Inr (LeaseGranted \<lparr>lv_lease_id = lid, lv_remaining = remaining\<rparr>)
      | Inl failure \<Rightarrow>
          (\<forall>v. a \<noteq> Inr (LeaseGranted v)) \<and>
          failure = (case a of Inl e \<Rightarrow> FailAgentUnavailable (error_text e)
                     | Inr response \<Rightarrow> the (classify_response response))"
proof -
  obtain t w' where now: "do_now ops w = (t, w')" by fastforce
  then have w': "rw_trace w' = rw_trace w" by (metis do_now_trace snd_conv)
  obtain a w'' where ex: "do_exchange ops (RequestLease request) w' = (a, w'')" by fastforce
  then have "rw_trace w'' = rw_trace w @ [DidExchange (RequestLease request) a]"
    by (metis do_exchange_trace fst_conv snd_conv w')
  then show thesis
    using assms that [of a]
    by (auto simp: request_initial_lease_def now ex split: sum.splits agent_response.splits)
qed

lemma launch_granted_shape:
  assumes "launch_granted ops \<lparr>lr_resource = pf_resource profile, lr_action = pf_action profile\<rparr>
      invocation (lid, remaining, t0) w = Some (outcome, w')"
    and tr: "rw_trace w = [DidEstablish,
      DidExchange (RequestLease \<lparr>lr_resource = pf_resource profile, lr_action = pf_action profile\<rparr>)
        (Inr (LeaseGranted \<lparr>lv_lease_id = lid, lv_remaining = remaining\<rparr>))]"
  shows "launch_shape ops texts invocation (Inr profile) outcome (rw_trace w')"
proof -
  let ?v = "\<lparr>lv_lease_id = lid, lv_remaining = remaining\<rparr>"
  let ?program = "ri_program invocation" and ?args = "ri_args invocation"
  obtain ri w1 where install: "effect_step (ro_install ops) (\<lambda>r. [DidInstall r]) w = (ri, w1)"
    by fastforce
  then have w1: "rw_trace w1 = rw_trace w @ [DidInstall ri]"
    by (metis effect_step_simps(1,3) fst_conv snd_conv)
  obtain rs w2 where spawn: "effect_step (ro_spawn ops ?program ?args) (\<lambda>r. [DidSpawn ?program ?args r]) w1 = (rs, w2)"
    by fastforce
  then have w2: "rw_trace w2 = rw_trace w1 @ [DidSpawn ?program ?args rs]"
    by (metis effect_step_simps(1,3) fst_conv snd_conv)
  note run = assms(1) [unfolded launch_granted_def prod.case install]
  have rel: "\<exists>rel. rw_trace (release ops lid w0) = rw_trace w0 @ rel \<and> rel \<noteq> [] \<and>
      list_all (is_release (lv_lease_id ?v)) rel" for w0
    using release_trace [of ops lid w0] by auto
  consider (failed) e where "ri = Inl e" | (no_child) e where "ri = Inr ()" "rs = Inl e"
    | (child) child_pid where "ri = Inr ()" "rs = Inr child_pid"
    by (cases ri; cases rs) auto
  then show ?thesis
  proof cases
    case failed
    then have "outcome = LaunchFailed (FailAgentUnavailable (''failed to install signal handlers: '' @ e))"
      and w': "w' = do_teardown (release ops lid w1)"
      using run by simp_all
    moreover obtain r where r: "rw_trace (release ops lid w1) = rw_trace w1 @ r" "r \<noteq> []"
      "list_all (is_release (lv_lease_id ?v)) r"
      using rel [of w1] by blast
    ultimately have "launch_shape ops texts invocation (Inr profile) outcome
        (rw_trace w @ [DidInstall (Inl e)] @ r @ [DidTeardown])"
      unfolding tr by (intro not_spawned [where e = e]) simp_all
    then show ?thesis by (simp add: w' r(1) w1 failed)
  next
    case no_child
    then have "outcome = LaunchExit (spawn_failure_code e)" and w': "w' = do_teardown (release ops lid w2)"
      using run by (simp_all add: spawn)
    moreover obtain r where r: "rw_trace (release ops lid w2) = rw_trace w2 @ r" "r \<noteq> []"
      "list_all (is_release (lv_lease_id ?v)) r"
      using rel [of w2] by blast
    ultimately have "launch_shape ops texts invocation (Inr profile) outcome
        (rw_trace w @ [DidInstall (Inr ()), DidSpawn ?program ?args (Inl e)] @ r @ [DidTeardown])"
      unfolding tr by (intro not_spawned [where se = e]) simp_all
    then show ?thesis by (simp add: w' r(1) w2 w1 no_child)
  next
    case child
    then obtain ended w3 where sup: "supervise ops \<lparr>lr_resource = pf_resource profile,
        lr_action = pf_action profile\<rparr> lid remaining t0 child_pid w2 = Some (ended, w3)"
      and out: "outcome = outcome_to_exit ended" "w' = do_teardown w3"
      using run by (auto simp: spawn bind_eq_Some_conv)
    have held: "held (rw_trace w2) = {lid}" by (simp add: held_def w1 w2 tr child)
    then obtain es where "rw_trace w3 = rw_trace w2 @ es" "list_all supervision_effect es"
        "outcome_effects ops child_pid ended es" "held (rw_trace w3) = {}"
      using supervise_loop_supervised [OF sup [unfolded supervise_def]] by (auto simp: supervised_by_def)
    moreover from this have "fold held_step es {lv_lease_id ?v} = {}"
      using held by (simp add: held_append)
    ultimately show ?thesis
      using sup by (fastforce simp: out w1 w2 tr child intro: spawned [where v = ?v, simplified])
  qed
qed

lemma launch_run_shape:
  assumes "launch_run ops texts loaded client invocation w = Some (outcome, w')" and "rw_trace w = []"
  shows "launch_shape ops texts invocation loaded outcome (rw_trace w')"
proof (cases loaded)
  case (Inl e)
  then show ?thesis using assms by (auto simp: launch_run_def intro: no_profile)
next
  case (Inr profile)
  note loaded = Inr
  let ?request = "\<lparr>lr_resource = pf_resource profile, lr_action = pf_action profile\<rparr>"
  let ?w0 = "w\<lparr>rw_trace := rw_trace w @ [DidEstablish]\<rparr>"
  show ?thesis
  proof (cases client)
    case (Inl e)
    then show ?thesis
      using assms loaded by (auto simp: launch_run_def null_context_def intro: no_client)
  next
    case (Inr path)
    obtain r w1 where initial: "request_initial_lease ops (lt_client texts) ?request ?w0 = (r, w1)"
      by fastforce
    obtain a where w1: "rw_trace w1 = [DidEstablish, DidExchange (RequestLease ?request) a]"
      and a: "case r of
        Inr (lid, remaining, _) \<Rightarrow>
          a = Inr (LeaseGranted \<lparr>lv_lease_id = lid, lv_remaining = remaining\<rparr>)
      | Inl failure \<Rightarrow>
          (\<forall>v. a \<noteq> Inr (LeaseGranted v)) \<and>
          failure = (case a of Inl e \<Rightarrow> FailAgentUnavailable (lt_client texts e)
                     | Inr response \<Rightarrow> the (classify_response response))"
      using request_initial_lease_trace [OF initial] assms(2) by auto
    note run = assms(1) [unfolded launch_run_def loaded Inr null_context_def Let_def, simplified,
        unfolded initial, simplified]
    show ?thesis
    proof (cases r)
      case (Inl failure)
      then show ?thesis
        using run a by (auto simp: loaded w1 intro: no_grant)
    next
      case (Inr granted)
      then show ?thesis
        using run a w1 by (cases granted) (auto simp: loaded intro: launch_granted_shape)
    qed
  qed
qed

text \<open>C16. A workload is spawned only after the agent granted the lease the profile asks for: if a launch
  spawns anything, it spawns the command it was given, once, and what came before is exactly the
  establishment of the context, the request answered by a grant, and the installation of the
  signal handlers.\<close>

theorem workload_runs_only_under_a_grant:
  assumes "launch_run ops texts loaded client invocation \<lparr>rw_outer = outer, rw_trace = []\<rparr> = Some (outcome, w')"
    and "DidSpawn program args r \<in> set (rw_trace w')"
  shows "program = ri_program invocation \<and> args = ri_args invocation \<and>
    (\<exists>profile v rest. loaded = Inr profile \<and>
       rw_trace w' =
         [DidEstablish,
          DidExchange (RequestLease \<lparr>lr_resource = pf_resource profile, lr_action = pf_action profile\<rparr>)
            (Inr (LeaseGranted v)),
          DidInstall (Inr ()), DidSpawn program args r] @ rest @ [DidTeardown] \<and>
       list_all supervision_effect rest)"
proof -
  have rel: "list_all (is_release lid) rel \<Longrightarrow>
      list_all supervision_effect rel \<and> DidSpawn program args r \<notin> set rel" for lid rel
    by (auto simp: list_all_iff is_release_def supervision_effect_def)
  have sup: "list_all supervision_effect es \<Longrightarrow> DidSpawn program args r \<notin> set es" for es
    by (auto simp: list_all_iff supervision_effect_def)
  have "launch_shape ops texts invocation loaded outcome (rw_trace w')"
    using launch_run_shape [OF assms(1)] by simp
  then show ?thesis
    using assms(2)
    by cases (auto dest: rel sup)
qed

text \<open>C15. Whatever happens in between, when a launch is over every lease it was granted, the initial one
  and every renewal, has been the subject of a release request after its grant, and an established
  context was torn down, last.\<close>

theorem every_granted_lease_is_released:
  assumes "launch_run ops texts loaded client invocation \<lparr>rw_outer = outer, rw_trace = []\<rparr> = Some (outcome, w')"
  shows "held (rw_trace w') = {} \<and>
    (DidEstablish \<in> set (rw_trace w') \<longrightarrow>
       last (rw_trace w') = DidTeardown \<and> count_list (rw_trace w') DidTeardown = 1)"
proof -
  have none: "list_all (is_release lid) rel \<Longrightarrow> DidTeardown \<notin> set rel"
    "list_all supervision_effect rel \<Longrightarrow> DidTeardown \<notin> set rel" for lid rel
    by (auto simp: list_all_iff is_release_def supervision_effect_def)
  have "launch_shape ops texts invocation loaded outcome (rw_trace w')"
    using launch_run_shape [OF assms(1)] by simp
  then show ?thesis
  proof cases
    case (no_grant a failure profile)
    then show ?thesis by (simp add: held_def held_step_no_grant)
  next
    case (not_spawned begun e se v rel profile)
    then show ?thesis
      using none(1) [of "lv_lease_id v" rel]
      by (auto simp: held_def held_releases count_list_0_iff)
  next
    case (spawned es child_pid ended v profile)
    then show ?thesis
      using none(2) [of es] by (auto simp: held_def count_list_0_iff)
  qed (auto simp: held_def)
qed

text \<open>C35. The exit status of a launch whose workload ran follows what the supervision did. If it never told
  the process group of the workload to end, the workload was seen to exit and the status is the workload's
  own. If it did, because the authorization had lapsed, the status is the one reserved for that, 76,
  whatever the workload returned meanwhile, and the group was killed unless the workload was seen to
  exit after the first signal. The number alone does not tell the two apart: a workload may itself exit
  with 76.\<close>

theorem exit_status_tells_the_lapse:
  assumes "launch_run ops texts loaded client invocation \<lparr>rw_outer = outer, rw_trace = []\<rparr> = Some (outcome, w')"
    and "DidSpawn program args (Inr child_pid) \<in> set (rw_trace w')"
    and "pid_from_u32 ops child_pid = Some pgid"
  shows "if kills (rw_trace w') = []
    then \<exists>st. DidExit st \<in> set (rw_trace w') \<and> main_status outcome = status_to_exit_code st
    else main_status outcome = 76 \<and>
      (kills (rw_trace w') = [DidKillGroup pgid False] \<and> (\<exists>st. DidExit st \<in> set (rw_trace w')) \<or>
       kills (rw_trace w') = [DidKillGroup pgid False, DidKillGroup pgid True])"
proof -
  have "launch_shape ops texts invocation loaded outcome (rw_trace w')"
    using launch_run_shape [OF assms(1)] by simp
  then show ?thesis
  proof cases
    case (not_spawned begun e se v rel profile)
    then show ?thesis using assms(2) by (auto simp: list_all_iff is_release_def)
  next
    case (spawned es pid ended v profile)
    have "pid = child_pid"
      using assms(2) spawned by (auto simp: list_all_iff supervision_effect_def)
    moreover have "kills (rw_trace w') = kills es" and "set es \<subseteq> set (rw_trace w')"
      by (auto simp: spawned kills_def is_kill_def)
    ultimately show ?thesis
      using spawned(5) assms(3)
      by (cases ended) (auto simp: outcome_effects_def main_status_def spawned(2))
  qed (use assms(2) in auto)
qed

section \<open>Deadlines of a renewed lease\<close>

lemma next_renewal_retry_eq:
  "next_renewal_retry attempted_at deadline = min (attempted_at + RENEWAL_RETRY_BACKOFF) deadline"
  by (simp add: next_renewal_retry_def MIN_RENEWAL_RETRY_INTERVAL_def RENEWAL_RETRY_BACKOFF_def)

lemma safe_deadline_bounds:
  "base \<le> safe_deadline base remaining" "safe_deadline base remaining \<le> base + remaining"
  "safe_deadline base remaining \<le> base + MAX_LEASE_REMAINING"
  by (auto simp: safe_deadline_def instant_checked_add_def)


section \<open>A small run\<close>

text \<open>A workload that has exited at the first poll, and an agent that grants and releases.\<close>

definition demo_run_ops :: "unit run_ops" where
  "demo_run_ops =
     \<lparr>ro_now = (\<lambda>s. (0, s)), ro_sleep = (\<lambda>_ s. s),
      ro_exchange = (\<lambda>r s.
        (case r of
           RequestLease _ \<Rightarrow>
             Inr (LeaseGranted \<lparr>lv_lease_id = \<lparr>lid_issuer = ''agent'', lid_sequence = 0\<rparr>, lv_remaining = 30\<rparr>)
         | ReleaseLease _ \<Rightarrow> Inr (LeaseReleased Released)
         | AgentStatus \<Rightarrow> Inr (RespError Internal), s)),
      ro_install = (\<lambda>s. (Inr (), s)), ro_spawn = (\<lambda>_ _ s. (Inr 5, s)),
      ro_try_wait = (\<lambda>s. (Some (ExitedWith 3), s)), ro_wait = (\<lambda>s. Some (None, s)),
      ro_signals = (\<lambda>s. ([], s)), ro_kill_process = (\<lambda>_ _ s. s), ro_kill_group = (\<lambda>_ _ s. s),
      ro_child_kill = (\<lambda>s. s), ro_named_signal = (\<lambda>_. True), ro_pid_from_raw = Some\<rparr>"

definition demo_profile :: profile_document where
  "demo_profile = \<lparr>pf_resource = lr_resource demo_lease_request, pf_action = lr_action demo_lease_request\<rparr>"

definition demo_invocation :: run_invocation where
  "demo_invocation = \<lparr>ri_profile = ''gpu'', ri_program = ''train'', ri_args = [''--fast'']\<rparr>"

definition demo_texts :: launch_texts where
  "demo_texts = \<lparr>lt_load = (\<lambda>_. []), lt_client = (\<lambda>_. [])\<rparr>"

definition demo_trace :: "run_effect list" where
  "demo_trace =
     [DidEstablish,
      DidExchange (RequestLease \<lparr>lr_resource = pf_resource demo_profile, lr_action = pf_action demo_profile\<rparr>)
        (Inr (LeaseGranted \<lparr>lv_lease_id = \<lparr>lid_issuer = ''agent'', lid_sequence = 0\<rparr>, lv_remaining = 30\<rparr>)),
      DidInstall (Inr ()), DidSpawn ''train'' [''--fast''] (Inr 5), DidExit (ExitedWith 3),
      DidExchange (ReleaseLease \<lparr>rr_lease_id = \<lparr>lid_issuer = ''agent'', lid_sequence = 0\<rparr>\<rparr>)
        (Inr (LeaseReleased Released)),
      DidTeardown]"

lemma demo_launch:
  "launch_run demo_run_ops demo_texts (Inr demo_profile) (Inr []) demo_invocation
     \<lparr>rw_outer = (), rw_trace = []\<rparr> = Some (LaunchExit 3, \<lparr>rw_outer = (), rw_trace = demo_trace\<rparr>)"
  by (simp add: launch_run_def null_context_def request_initial_lease_def do_now_def do_exchange_def
      effect_step_def launch_granted_def supervise_def supervise_loop.simps do_try_wait_def
      release_def RELEASE_RETRY_BACKOFFS_def upt_rec do_teardown_def demo_run_ops_def demo_invocation_def demo_trace_def)

lemma workload_runs_only_under_a_grant_witness:
  "\<exists>v rest. demo_trace =
     [DidEstablish,
      DidExchange (RequestLease \<lparr>lr_resource = pf_resource demo_profile, lr_action = pf_action demo_profile\<rparr>)
        (Inr (LeaseGranted v)),
      DidInstall (Inr ()), DidSpawn ''train'' [''--fast''] (Inr 5)] @ rest @ [DidTeardown] \<and>
     list_all supervision_effect rest"
  using workload_runs_only_under_a_grant [OF demo_launch, of "''train''" "[''--fast'']" "Inr 5"]
  by (auto simp: demo_trace_def)

lemma every_granted_lease_is_released_witness: "held demo_trace = {} \<and> last demo_trace = DidTeardown"
  using every_granted_lease_is_released [OF demo_launch] by (simp add: demo_trace_def)

lemma exit_status_tells_the_lapse_witness:
  "\<exists>st. DidExit st \<in> set demo_trace \<and> main_status (LaunchExit 3) = status_to_exit_code st"
proof -
  have "DidSpawn ''train'' [''--fast''] (Inr 5) \<in> set demo_trace" by (simp add: demo_trace_def)
  moreover have "pid_from_u32 demo_run_ops 5 = Some 5"
    by (simp add: pid_from_u32_def demo_run_ops_def)
  moreover have "kills demo_trace = []" by (simp add: demo_trace_def kills_def is_kill_def)
  ultimately show ?thesis
    using exit_status_tells_the_lapse [OF demo_launch, of "''train''" "[''--fast'']" 5 5]
    by (auto simp: demo_trace_def)
qed

section \<open>The supervision returns\<close>

text \<open>What the code relies on: clock readings do not go back, a sleep lasts at least as long as asked,
  no other call takes the clock back, and a child that was killed ends, so that waiting for it returns.\<close>

lemma POLL_INTERVAL_pos: "0 < POLL_INTERVAL"
  by (simp add: POLL_INTERVAL_def)

locale run_clock =
  fixes ops :: "'w run_ops"
    and clock :: "'w \<Rightarrow> nat"
  assumes now_reading: "clock s \<le> fst (ro_now ops s)" "fst (ro_now ops s) \<le> clock (snd (ro_now ops s))"
    and sleep_lasts: "clock s + d \<le> clock (ro_sleep ops d s)"
    and exchange_clock: "clock s \<le> clock (snd (ro_exchange ops r s))"
    and try_wait_clock: "clock s \<le> clock (snd (ro_try_wait ops s))"
    and signals_clock: "clock s \<le> clock (snd (ro_signals ops s))"
    and kill_process_clock: "clock s \<le> clock (ro_kill_process ops p sig s)"
    and kill_group_clock: "clock s \<le> clock (ro_kill_group ops p forced s)"
    and killed_child_ends: "\<exists>status s'. ro_wait ops (ro_child_kill ops s) = Some (Some status, s')"
begin

text \<open>The wait for the end of the workload returns, with the status of the workload.\<close>

lemma await_termination_returns: "\<exists>status w'. await_termination ops pgid deadline w = Some (Some status, w')"
proof (induction "deadline - clock (rw_outer w)" arbitrary: w rule: less_induct)
  case less
  obtain now w1 where now: "do_now ops w = (now, w1)" by fastforce
  obtain st w2 where wait: "do_try_wait ops w1 = (st, w2)" by fastforce
  have w1: "clock (rw_outer w) \<le> now" "now \<le> clock (rw_outer w1)"
    using now now_reading [of "rw_outer w"] by (auto simp: do_now_def effect_step_def split_beta)
  have w2: "clock (rw_outer w1) \<le> clock (rw_outer w2)"
    using wait try_wait_clock [of "rw_outer w1"] by (auto simp: do_try_wait_def effect_step_def split_beta)
  show ?case
  proof (cases "now < deadline \<and> st = None")
    case True
    have "clock (rw_outer w2) + POLL_INTERVAL \<le> clock (rw_outer (do_sleep ops POLL_INTERVAL w2))"
      by (simp add: do_sleep_def sleep_lasts)
    then have "deadline - clock (rw_outer (do_sleep ops POLL_INTERVAL w2)) < deadline - clock (rw_outer w)"
      using conjunct1 [OF True] w1 w2 POLL_INTERVAL_pos by linarith
    then show ?thesis
      using less [of "do_sleep ops POLL_INTERVAL w2"] True
      by (simp add: await_termination.simps [of ops pgid deadline w] now wait)
  next
    case False
    obtain status s' where "ro_wait ops (ro_child_kill ops (ro_kill_group ops pgid True (rw_outer w1))) =
        Some (Some status, s')"
      using killed_child_ends by blast
    then show ?thesis
      using False
      by (auto simp: await_termination.simps [of ops pgid deadline w] now wait do_wait_def do_kill_group_def
          effect_step_def Let_def split: option.splits)
  qed
qed

lemma terminate_returns:
  "\<exists>st w'. terminate_for_lapsed_authorization ops child_pid w = Some (st, w') \<and>
     (pid_from_u32 ops child_pid \<noteq> None \<longrightarrow> st \<noteq> None)"
proof (cases "pid_from_u32 ops child_pid")
  case (Some pgid)
  obtain now w1 where "do_now ops (do_kill_group ops pgid False w) = (now, w1)" by fastforce
  then show ?thesis
    using await_termination_returns [of pgid "now + TERMINATION_GRACE" w1]
    by (auto simp: terminate_for_lapsed_authorization_def Some)
next
  case None
  then show ?thesis
    by (cases "do_try_wait ops w") (simp add: terminate_for_lapsed_authorization_def)
qed

text \<open>A supervision that ends knows how the workload ended.\<close>

lemma supervise_loop_told:
  assumes "supervise_loop ops' request child_pid renewal w = Some r" and "ops' = ops"
    and "pid_from_u32 ops child_pid \<noteq> None"
  shows "fst r \<noteq> AuthorizationLapsed None"
  using assms
proof (induction rule: supervise_loop.raw_induct [rotated, consumes 1])
  case (1 loop ops' request child_pid renewal w r)
  have "terminate_for_lapsed_authorization ops child_pid v \<noteq> Some (None, v')" for v v'
    using terminate_returns [of child_pid v] 1(4) by auto
  moreover obtain st w1 where wait: "do_try_wait ops w = (st, w1)" by fastforce
  moreover obtain now w2 where clock: "do_now ops (forward_signals ops child_pid w1) = (now, w2)" by fastforce
  moreover obtain renewal' w3 where "(if now \<ge> rn_renew_at renewal then renew ops request renewal w2
      else (renewal, w2)) = (renewal', w3)" by fastforce
  ultimately show ?case
    using 1(1) [of ops' request child_pid renewal' "do_sleep ops POLL_INTERVAL w3" r] 1(2,3,4)
    by (cases st; cases "now \<ge> rn_deadline renewal") (auto simp: bind_eq_Some_conv)
qed

lemma launch_sees_the_exit:
  assumes "launch_run ops texts loaded client invocation \<lparr>rw_outer = outer, rw_trace = []\<rparr> = Some (outcome, w')"
    and "DidSpawn program args (Inr child_pid) \<in> set (rw_trace w')"
    and "pid_from_u32 ops child_pid \<noteq> None"
  shows "\<exists>st. DidExit st \<in> set (rw_trace w')"
proof -
  have "launch_shape ops texts invocation loaded outcome (rw_trace w')"
    using launch_run_shape [OF assms(1)] by simp
  then show ?thesis
  proof cases
    case (not_spawned begun e se v rel profile)
    then show ?thesis using assms(2) by (auto simp: list_all_iff is_release_def)
  next
    case (spawned es pid ended v profile)
    have "pid = child_pid"
      using assms(2) spawned by (auto simp: list_all_iff supervision_effect_def)
    then have "ended \<noteq> AuthorizationLapsed None"
      using spawned(7) supervise_loop_told [OF _ refl assms(3)] by (fastforce simp: supervise_def)
    then have "\<exists>st. DidExit st \<in> set es"
      using spawned(5) by (cases ended) (auto simp: outcome_effects_def)
    then show ?thesis by (auto simp: spawned)
  qed (use assms(2) in auto)
qed

end

text \<open>An agent that grants only finitely often: a number that no call raises and every grant lowers.\<close>

locale finite_grants = run_clock +
  fixes budget :: "'a \<Rightarrow> nat"
  assumes now_budget: "budget (snd (ro_now ops s)) \<le> budget s"
    and sleep_budget: "budget (ro_sleep ops d s) \<le> budget s"
    and exchange_budget: "budget (snd (ro_exchange ops r s)) \<le> budget s"
    and grant_budget: "fst (ro_exchange ops (RequestLease q) s) = Inr (LeaseGranted v) \<Longrightarrow>
          budget (snd (ro_exchange ops (RequestLease q) s)) < budget s"
    and try_wait_budget: "budget (snd (ro_try_wait ops s)) \<le> budget s"
    and signals_budget: "budget (snd (ro_signals ops s)) \<le> budget s"
    and kill_process_budget: "budget (ro_kill_process ops p sig s) \<le> budget s"
begin

text \<open>Neither bound is worse after a part of the run.\<close>

definition no_worse :: "'a run_world \<Rightarrow> 'a run_world \<Rightarrow> bool" where
  "no_worse w w' \<longleftrightarrow>
     clock (rw_outer w) \<le> clock (rw_outer w') \<and> budget (rw_outer w') \<le> budget (rw_outer w)"

lemma no_worse_refl [simp]: "no_worse w w"
  by (simp add: no_worse_def)

lemma no_worse_trans: "no_worse w w1 \<Longrightarrow> no_worse w1 w2 \<Longrightarrow> no_worse w w2"
  by (auto simp: no_worse_def)

lemma no_worse_steps:
  "no_worse w (snd (do_now ops w))" "no_worse w (do_sleep ops d w)"
  "no_worse w (snd (do_exchange ops r w))" "no_worse w (snd (do_try_wait ops w))"
  "no_worse w (forward_to_child ops child_pid signal w)"
  using now_reading [of "rw_outer w"] now_budget [of "rw_outer w"]
    sleep_lasts [of "rw_outer w" d] sleep_budget [of d "rw_outer w"]
    exchange_clock [of "rw_outer w" r] exchange_budget [of r "rw_outer w"]
    try_wait_clock [of "rw_outer w"] try_wait_budget [of "rw_outer w"]
    kill_process_clock [of "rw_outer w"] kill_process_budget [of _ _ "rw_outer w"]
  by (auto simp: no_worse_def do_now_def do_sleep_def do_exchange_def do_try_wait_def
      forward_to_child_def split: option.splits)

lemma no_worse_forward: "no_worse w (forward_signals ops child_pid w)"
proof -
  have "no_worse w1 (fold (forward_to_child ops child_pid) signals w1)" for signals w1
    by (induction signals arbitrary: w1) (auto intro: no_worse_trans [OF no_worse_steps(5)])
  moreover have "no_worse w (snd (effect_step (ro_signals ops) (\<lambda>_. []) w))"
    using signals_clock [of "rw_outer w"] signals_budget [of "rw_outer w"] by (simp add: no_worse_def)
  ultimately show ?thesis
    by (auto simp: forward_signals_def split_beta intro: no_worse_trans)
qed

lemma no_worse_release_attempts: "no_worse w (release_attempts ops lid ns w)"
proof (induction ns arbitrary: w)
  case (Cons n ns)
  let ?w1 = "snd (do_exchange ops (ReleaseLease \<lparr>rr_lease_id = lid\<rparr>) w)"
  have "no_worse ?w1 (if n < length RELEASE_RETRY_BACKOFFS then do_sleep ops (RELEASE_RETRY_BACKOFFS ! n) ?w1 else ?w1)"
    by (simp add: no_worse_steps)
  then have "no_worse w (release_attempts ops lid ns
      (if n < length RELEASE_RETRY_BACKOFFS then do_sleep ops (RELEASE_RETRY_BACKOFFS ! n) ?w1 else ?w1))"
    using no_worse_steps(3) Cons.IH no_worse_trans by blast
  then show ?case
    using no_worse_steps(3) by (auto simp: split_beta split: sum.splits agent_response.splits)
qed simp

lemma renew_progress:
  assumes "renew ops request renewal w = (renewal', w')"
  shows "no_worse w w' \<and>
    (rn_deadline renewal' = rn_deadline renewal \<or> budget (rw_outer w') < budget (rw_outer w))"
proof -
  obtain t w1 where now: "do_now ops w = (t, w1)" by fastforce
  obtain answer w2 where ex: "do_exchange ops (RequestLease request) w1 = (answer, w2)" by fastforce
  have w1: "no_worse w w1" using no_worse_steps(1) [of w] now by simp
  have w2: "no_worse w1 w2" using no_worse_steps(3) [of w1 "RequestLease request"] ex by simp
  show ?thesis
  proof (cases "\<exists>v. answer = Inr (LeaseGranted v)")
    case True
    then have "budget (rw_outer w2) < budget (rw_outer w1)"
      using ex grant_budget [of request "rw_outer w1"]
      by (auto simp: do_exchange_def effect_step_def split_beta)
    moreover have "w' = release ops (rn_lease_id renewal) w2"
      using True assms by (auto simp: renew_def now ex)
    moreover have "no_worse w2 w'"
      using no_worse_release_attempts [of w2] by (simp add: \<open>w' = _\<close> release_def)
    ultimately show ?thesis using w1 w2 by (auto simp: no_worse_def)
  next
    case False
    then have "w' = w2 \<and> rn_deadline renewal' = rn_deadline renewal"
      using assms by (auto simp: renew_def now ex split: sum.splits agent_response.splits)
    then show ?thesis using no_worse_trans [OF w1 w2] by simp
  qed
qed

lemma supervise_loop_returns: "\<exists>r. supervise_loop ops request child_pid renewal w = Some r"
proof (induction "(renewal, w)" arbitrary: renewal w
    rule: wf_induct_rule [OF wf_measures [of "[\<lambda>(ren, w). budget (rw_outer w),
      \<lambda>(ren, w). rn_deadline ren - clock (rw_outer w)]"]])
  case less: (1 renewal w)
  obtain st w1 where wait: "do_try_wait ops w = (st, w1)" by fastforce
  obtain now w2 where now: "do_now ops (forward_signals ops child_pid w1) = (now, w2)" by fastforce
  note unfold = supervise_loop.simps [of ops request child_pid renewal w] wait now
  have w1: "no_worse w w1" using no_worse_steps(4) [of w] wait by simp
  have w2: "no_worse w w2"
    using no_worse_trans [OF w1 no_worse_trans [OF no_worse_forward no_worse_steps(1)]] now by (metis snd_conv)
  have early: "clock (rw_outer w) \<le> now"
    using now_reading(1) [of "rw_outer (forward_signals ops child_pid w1)"] now w1 no_worse_forward [of w1 child_pid]
    by (auto simp: no_worse_def do_now_def effect_step_def split_beta)
  obtain t where lapse: "terminate_for_lapsed_authorization ops child_pid w2 = Some t"
    using terminate_returns by blast
  show ?case
  proof (cases "st = None \<and> now < rn_deadline renewal")
    case True
    obtain renewal' w3 where next_eq: "(if now \<ge> rn_renew_at renewal then renew ops request renewal w2
        else (renewal, w2)) = (renewal', w3)" by fastforce
    let ?w4 = "do_sleep ops POLL_INTERVAL w3"
    have progress: "no_worse w2 w3 \<and>
        (rn_deadline renewal' = rn_deadline renewal \<or> budget (rw_outer w3) < budget (rw_outer w2))"
      using next_eq renew_progress [of request renewal w2] by (auto split: if_splits)
    have slept: "clock (rw_outer w3) + POLL_INTERVAL \<le> clock (rw_outer ?w4)"
      "budget (rw_outer ?w4) \<le> budget (rw_outer w3)"
      by (simp_all add: do_sleep_def sleep_lasts sleep_budget)
    have "budget (rw_outer ?w4) < budget (rw_outer w) \<or>
        budget (rw_outer ?w4) = budget (rw_outer w) \<and>
        rn_deadline renewal' - clock (rw_outer ?w4) < rn_deadline renewal - clock (rw_outer w)"
      using progress slept w2 early conjunct2 [OF True] POLL_INTERVAL_pos
      unfolding no_worse_def by linarith
    then have "\<exists>r. supervise_loop ops request child_pid renewal' ?w4 = Some r"
      by (intro less) auto
    then show ?thesis using True next_eq by (simp add: unfold)
  next
    case False
    then show ?thesis using lapse by (cases st) (auto simp: unfold split: prod.splits)
  qed
qed

lemma supervise_returns:
  "\<exists>r. supervise ops request lid remaining granted_at child_pid w = Some r"
  unfolding supervise_def by (rule supervise_loop_returns)

lemma launch_granted_returns: "\<exists>r. launch_granted ops request invocation granted w = Some r"
proof -
  obtain lid remaining t0 where granted: "granted = (lid, remaining, t0)" by (cases granted)
  obtain ri w1 where install: "effect_step (ro_install ops) (\<lambda>r. [DidInstall r]) w = (ri, w1)"
    by fastforce
  obtain rs w2 where spawn: "effect_step (ro_spawn ops (ri_program invocation) (ri_args invocation))
      (\<lambda>r. [DidSpawn (ri_program invocation) (ri_args invocation) r]) w1 = (rs, w2)"
    by fastforce
  obtain outcome w3 where "supervise ops request lid remaining t0 child_pid w2 = Some (outcome, w3)"
    if "rs = Inr child_pid" for child_pid
    using supervise_returns [of request lid remaining t0 "projr rs" w2] that by (cases rs) auto
  then show ?thesis
    by (cases ri; cases rs) (simp_all add: launch_granted_def granted install spawn)
qed

lemma launch_run_returns: "\<exists>r. launch_run ops texts loaded client invocation w = Some r"
proof -
  have "\<exists>r. (case request_initial_lease ops error_text request w0 of
      (Inl failure, w1) \<Rightarrow> Some (LaunchFailed failure, do_teardown w1)
    | (Inr granted, w1) \<Rightarrow> launch_granted ops request invocation granted w1) = Some r" for error_text request w0
    using launch_granted_returns by (cases "request_initial_lease ops error_text request w0" rule: prod.exhaust)
      (simp split: sum.split)
  then show ?thesis
    by (cases loaded; cases client) (simp_all add: launch_run_def null_context_def Let_def)
qed

end

end
