(* ===== verification/Eltanin_Stages.thy ===== *)
theory Eltanin_Stages
  imports Eltanin_Supervise
begin

text \<open>
  The stages of a launch, \<open>crates/eltanin-cli/src/sequence.rs\<close>, with the order the code derives for
  them. The type has no behaviour in the code: what it claims is that a launch goes through its
  stages in that order. Here an effect of a launch is assigned the stages it may belong to, and
  every run of \<open>launch_run\<close> is shown to go through them in ascending order.
\<close>

section \<open>The stages\<close>

datatype launch_stage =
    StParseArgv
  | StResolveProfile
  | StEstablishGovernedContext
  | StConnectToAgent
  | StRequestLease
  | StInstallSignalHandlers
  | StSpawnWorkload
  | StSupervise
  | StWorkloadExited
  | StReleaseLease
  | StTeardownGovernedContext
  | StExit

text \<open>The derived order is the one of the declarations.\<close>

primrec stage_number :: "launch_stage \<Rightarrow> nat" where
  "stage_number StParseArgv = 0"
| "stage_number StResolveProfile = 1"
| "stage_number StEstablishGovernedContext = 2"
| "stage_number StConnectToAgent = 3"
| "stage_number StRequestLease = 4"
| "stage_number StInstallSignalHandlers = 5"
| "stage_number StSpawnWorkload = 6"
| "stage_number StSupervise = 7"
| "stage_number StWorkloadExited = 8"
| "stage_number StReleaseLease = 9"
| "stage_number StTeardownGovernedContext = 10"
| "stage_number StExit = 11"

lemma stage_number_inject: "stage_number s = stage_number t \<longleftrightarrow> s = t"
  by (cases s; cases t) simp_all

instantiation launch_stage :: linorder
begin

definition less_eq_launch_stage :: "launch_stage \<Rightarrow> launch_stage \<Rightarrow> bool" where
  "less_eq_launch_stage s t \<longleftrightarrow> stage_number s \<le> stage_number t"

definition less_launch_stage :: "launch_stage \<Rightarrow> launch_stage \<Rightarrow> bool" where
  "less_launch_stage s t \<longleftrightarrow> stage_number s < stage_number t"

instance
  by intro_classes
     (auto simp: less_eq_launch_stage_def less_launch_stage_def stage_number_inject [symmetric])

end

lemmas stage_order = less_eq_launch_stage_def less_launch_stage_def

text \<open>The effects a stage may have. A renewal, with the release of the lease it replaces, belongs to
  the supervision; argument parsing, the profile, the choice of the socket path and the exit have no
  effect of this kind.\<close>

fun effect_stages :: "run_effect \<Rightarrow> launch_stage list" where
  "effect_stages DidEstablish = [StEstablishGovernedContext]"
| "effect_stages (DidExchange (RequestLease _) _) = [StRequestLease, StSupervise]"
| "effect_stages (DidExchange (ReleaseLease _) _) = [StSupervise, StReleaseLease]"
| "effect_stages (DidExchange AgentStatus _) = []"
| "effect_stages (DidInstall _) = [StInstallSignalHandlers]"
| "effect_stages (DidSpawn _ _ _) = [StSpawnWorkload]"
| "effect_stages (DidForward _ _) = [StSupervise]"
| "effect_stages (DidKillGroup _ _) = [StSupervise]"
| "effect_stages (DidExit _) = [StWorkloadExited]"
| "effect_stages DidTeardown = [StTeardownGovernedContext]"

definition stage_allows :: "launch_stage \<Rightarrow> run_effect \<Rightarrow> bool" where
  "stage_allows s e \<longleftrightarrow> s \<in> set (effect_stages e)"

lemma stage_allows_simps [simp]:
  "stage_allows s DidEstablish \<longleftrightarrow> s = StEstablishGovernedContext"
  "stage_allows s (DidExchange (RequestLease q) a) \<longleftrightarrow> s = StRequestLease \<or> s = StSupervise"
  "stage_allows s (DidExchange (ReleaseLease r) a) \<longleftrightarrow> s = StSupervise \<or> s = StReleaseLease"
  "\<not> stage_allows s (DidExchange AgentStatus a)"
  "stage_allows s (DidInstall i) \<longleftrightarrow> s = StInstallSignalHandlers"
  "stage_allows s (DidSpawn p args c) \<longleftrightarrow> s = StSpawnWorkload"
  "stage_allows s (DidForward pid signal) \<longleftrightarrow> s = StSupervise"
  "stage_allows s (DidKillGroup pid forced) \<longleftrightarrow> s = StSupervise"
  "stage_allows s (DidExit st) \<longleftrightarrow> s = StWorkloadExited"
  "stage_allows s DidTeardown \<longleftrightarrow> s = StTeardownGovernedContext"
  by (auto simp: stage_allows_def)

section \<open>The stages of a supervision\<close>

lemma list_all2_replicate:
  "list_all2 P (replicate (length es) s) es \<longleftrightarrow> list_all (P s) es"
  by (induction es) auto

text \<open>A supervision is work of its own stage, at most one exit, and the release of one lease.\<close>

definition supervision_stages :: "run_effect list \<Rightarrow> bool" where
  "supervision_stages es \<longleftrightarrow>
     (\<exists>work exits rel lid. es = work @ exits @ rel \<and> list_all (stage_allows StSupervise) work \<and>
        (exits = [] \<or> (\<exists>st. exits = [DidExit st])) \<and> rel \<noteq> [] \<and> length rel \<le> 3 \<and>
        list_all (is_release lid) rel)"

lemma supervision_stages_prefix:
  assumes "list_all (stage_allows StSupervise) before" and "supervision_stages es"
  shows "supervision_stages (before @ es)"
proof -
  obtain work exits rel lid where es: "es = work @ exits @ rel" "list_all (stage_allows StSupervise) work"
    and rest: "exits = [] \<or> (\<exists>st. exits = [DidExit st])" "rel \<noteq> []" "length rel \<le> 3"
      "list_all (is_release lid) rel"
    using assms(2) unfolding supervision_stages_def by blast
  have "before @ es = (before @ work) @ exits @ rel \<and> list_all (stage_allows StSupervise) (before @ work)"
    using assms(1) es by simp
  with rest show ?thesis unfolding supervision_stages_def by blast
qed

definition staged_from :: "'w run_world \<Rightarrow> 'w run_world \<Rightarrow> bool" where
  "staged_from w w' \<longleftrightarrow> (\<exists>es. rw_trace w' = rw_trace w @ es \<and> supervision_stages es)"

lemma staged_from_prefix:
  "adds (stage_allows StSupervise) w w1 \<Longrightarrow> staged_from w1 w' \<Longrightarrow> staged_from w w'"
  by (auto simp: adds_def staged_from_def intro: supervision_stages_prefix)

lemma staged_from_release:
  assumes "rw_trace w1 = rw_trace w @ work @ exits" and "list_all (stage_allows StSupervise) work"
    and "exits = [] \<or> (\<exists>st. exits = [DidExit st])"
  shows "staged_from w (release ops lid w1)"
proof -
  obtain rel where "rw_trace (release ops lid w1) = rw_trace w1 @ rel" "rel \<noteq> []" "length rel \<le> 3"
    "list_all (is_release lid) rel"
    using release_trace [of ops lid w1] by blast
  then show ?thesis
    using assms unfolding staged_from_def supervision_stages_def by (metis append.assoc)
qed

lemma release_in_supervision: "is_release lid e \<Longrightarrow> stage_allows StSupervise e"
  by (auto simp: is_release_def)

lemma renew_staged: "adds (stage_allows StSupervise) w (snd (renew ops request renewal w))"
proof -
  let ?P = "stage_allows StSupervise"
  obtain t w1 where now: "do_now ops w = (t, w1)" by fastforce
  obtain answer w2 where ex: "do_exchange ops (RequestLease request) w1 = (answer, w2)" by fastforce
  have "rw_trace w1 = rw_trace w" using now by (metis do_now_trace snd_conv)
  moreover have "rw_trace w2 = rw_trace w1 @ [DidExchange (RequestLease request) answer]"
    using ex by (metis do_exchange_trace fst_conv snd_conv)
  ultimately have w2: "adds ?P w w2" by (simp add: adds_def)
  moreover have "adds ?P w2 (release ops (rn_lease_id renewal) w2)"
    by (rule adds_mono [OF adds_release release_in_supervision])
  ultimately have "adds ?P w (release ops (rn_lease_id renewal) w2)" by (rule adds_trans)
  then show ?thesis
    using w2 by (auto simp: renew_def now ex split: sum.splits agent_response.splits)
qed

lemma poll_staged:
  assumes "do_try_wait ops w = (None, w1)" and "do_now ops (forward_signals ops child_pid w1) = (now, w2)"
  shows "adds (stage_allows StSupervise) w w2"
proof -
  have "rw_trace w1 = rw_trace w"
    using assms(1) by (metis append_Nil2 do_try_wait_def effect_step_simps(1,3) fst_conv
        option.simps(4) snd_conv)
  moreover have "adds (stage_allows StSupervise) w1 (forward_signals ops child_pid w1)"
    by (rule adds_mono [OF forward_signals_adds]) auto
  moreover have "rw_trace w2 = rw_trace (forward_signals ops child_pid w1)"
    using assms(2) by (metis do_now_trace snd_conv)
  ultimately show ?thesis by (simp add: adds_def)
qed

lemma lapse_staged:
  assumes "terminate_for_lapsed_authorization ops child_pid w = Some (st, w1)"
  shows "staged_from w (release ops lid w1)"
proof -
  obtain es where "rw_trace w1 = rw_trace w @ es @ (case st of Some s \<Rightarrow> [DidExit s] | None \<Rightarrow> [])"
    and "list_all (stage_allows StSupervise) es"
    using terminate_trace [OF assms, unfolded fst_conv snd_conv] by (force split: option.splits)
  then show ?thesis
    by (rule staged_from_release) (simp split: option.splits)
qed

lemma supervise_loop_staged:
  "supervise_loop ops request child_pid renewal w = Some r \<Longrightarrow> staged_from w (snd r)"
proof (induction rule: supervise_loop.raw_induct [rotated, consumes 1])
  case (1 loop ops request child_pid renewal w r)
  obtain st w1 where wait: "do_try_wait ops w = (st, w1)" by fastforce
  show ?case
  proof (cases st)
    case (Some s)
    have "rw_trace w1 = rw_trace w @ [] @ [DidExit s]"
      using wait Some by (metis append_Nil do_try_wait_def effect_step_simps(1,3) fst_conv option.simps(5) snd_conv)
    then have "staged_from w (release ops (rn_lease_id renewal) w1)"
      by (rule staged_from_release) simp_all
    then show ?thesis using 1(2) by (auto simp: wait Some)
  next
    case None
    obtain now w2 where now: "do_now ops (forward_signals ops child_pid w1) = (now, w2)" by fastforce
    note polled = poll_staged [OF wait [unfolded None] now]
    show ?thesis
    proof (cases "now \<ge> rn_deadline renewal")
      case True
      then obtain st' w3 where "terminate_for_lapsed_authorization ops child_pid w2 = Some (st', w3)"
        and "r = (AuthorizationLapsed st', release ops (rn_lease_id renewal) w3)"
        using 1(2) None by (auto simp: wait now bind_eq_Some_conv)
      then show ?thesis
        using staged_from_prefix [OF polled lapse_staged] by simp
    next
      case False
      define next_state where "next_state =
        (if now \<ge> rn_renew_at renewal then renew ops request renewal w2 else (renewal, w2))"
      obtain renewal' w3 where next_eq: "next_state = (renewal', w3)" by fastforce
      have "loop ops request child_pid renewal' (do_sleep ops POLL_INTERVAL w3) = Some r"
        using 1(2) None False next_eq by (simp add: wait now next_state_def)
      from 1(1) [OF this] have "staged_from w3 (snd r)" by (simp add: staged_from_def)
      moreover have "adds (stage_allows StSupervise) w2 w3"
        using next_eq renew_staged [of w2 ops request renewal]
        by (auto simp: next_state_def split: if_splits)
      ultimately show ?thesis
        using staged_from_prefix polled by blast
    qed
  qed
qed

section \<open>The stages of a launch\<close>

lemma launch_granted_staged:
  assumes "launch_granted ops request invocation granted w = Some (outcome, w')"
  shows "\<exists>ri spawns es. rw_trace w' = rw_trace w @ DidInstall ri # spawns @ es @ [DidTeardown] \<and>
    (spawns = [] \<or> (\<exists>p args c. spawns = [DidSpawn p args c])) \<and> supervision_stages es"
proof -
  let ?program = "ri_program invocation" and ?args = "ri_args invocation"
  obtain lid remaining t0 where granted: "granted = (lid, remaining, t0)" by (cases granted)
  obtain ri w1 where install: "effect_step (ro_install ops) (\<lambda>r. [DidInstall r]) w = (ri, w1)"
    by fastforce
  then have w1: "rw_trace w1 = rw_trace w @ [DidInstall ri]"
    by (metis effect_step_simps(1,3) fst_conv snd_conv)
  obtain rs w2 where spawn: "effect_step (ro_spawn ops ?program ?args) (\<lambda>r. [DidSpawn ?program ?args r]) w1 = (rs, w2)"
    by fastforce
  then have w2: "rw_trace w2 = rw_trace w1 @ [DidSpawn ?program ?args rs]"
    by (metis effect_step_simps(1,3) fst_conv snd_conv)
  note run = assms [unfolded launch_granted_def granted prod.case install]
  have over: "staged_from w0 (release ops lid w0)" for w0
    by (rule staged_from_release [of _ _ "[]" "[]"]) simp_all
  have closing: "\<exists>ri spawns es. rw_trace w' = rw_trace w @ DidInstall ri # spawns @ es @ [DidTeardown] \<and>
      (spawns = [] \<or> (\<exists>p args c. spawns = [DidSpawn p args c])) \<and> supervision_stages es"
    if "w' = do_teardown w4" "staged_from w0 w4" "rw_trace w0 = rw_trace w @ DidInstall ri # spawns"
      "spawns = [] \<or> (\<exists>p args c. spawns = [DidSpawn p args c])" for w0 w4 ri spawns
  proof -
    from that(2,3) obtain es where "rw_trace w4 = rw_trace w @ DidInstall ri # spawns @ es"
      "supervision_stages es" by (auto simp: staged_from_def)
    with that(1,4) show ?thesis by (intro exI [of _ ri] exI [of _ spawns] exI [of _ es]) simp
  qed
  consider (failed) e where "ri = Inl e" | (no_child) e where "ri = Inr ()" "rs = Inl e"
    | (child) child_pid where "ri = Inr ()" "rs = Inr child_pid"
    by (cases ri; cases rs) auto
  then show ?thesis
  proof cases
    case failed
    then have "w' = do_teardown (release ops lid w1)" using run by simp
    then show ?thesis using closing [OF _ over [of w1], of ri "[]"] by (simp add: w1)
  next
    case no_child
    then have "w' = do_teardown (release ops lid w2)" using run by (simp add: spawn)
    then show ?thesis by (rule closing [OF _ over]) (auto simp: w1 w2)
  next
    case child
    then obtain ended w3 where sup: "supervise ops request lid remaining t0 child_pid w2 = Some (ended, w3)"
      and w': "w' = do_teardown w3"
      using run by (auto simp: spawn bind_eq_Some_conv)
    have "staged_from w2 w3"
      using supervise_loop_staged [OF sup [unfolded supervise_def]] by simp
    then show ?thesis by (rule closing [OF w']) (auto simp: w1 w2)
  qed
qed

text \<open>How far a launch gets, as the parts of its trace.\<close>

inductive staged_trace :: "run_effect list \<Rightarrow> bool" where
  not_governed: "staged_trace []"
| not_connected: "staged_trace [DidEstablish, DidTeardown]"
| not_granted: "staged_trace [DidEstablish, DidExchange (RequestLease q) a, DidTeardown]"
| granted:
    "spawns = [] \<or> (\<exists>p args c. spawns = [DidSpawn p args c]) \<Longrightarrow> supervision_stages es \<Longrightarrow>
     staged_trace
       (DidEstablish # DidExchange (RequestLease q) a # DidInstall ri # spawns @ es @ [DidTeardown])"

lemma launch_run_staged:
  assumes "launch_run ops texts loaded client invocation w = Some (outcome, w')" and "rw_trace w = []"
  shows "staged_trace (rw_trace w')"
proof (cases "\<exists>profile path. loaded = Inr profile \<and> client = Inr path")
  case False
  then show ?thesis
    using assms
    by (cases loaded; cases client)
       (auto simp: launch_run_def null_context_def intro: not_governed not_connected)
next
  case True
  then obtain profile path where loaded: "loaded = Inr profile" "client = Inr path" by blast
  let ?request = "\<lparr>lr_resource = pf_resource profile, lr_action = pf_action profile\<rparr>"
  let ?w0 = "w\<lparr>rw_trace := rw_trace w @ [DidEstablish]\<rparr>"
  obtain r w1 where initial: "request_initial_lease ops (lt_client texts) ?request ?w0 = (r, w1)"
    by fastforce
  obtain a where w1: "rw_trace w1 = [DidEstablish, DidExchange (RequestLease ?request) a]"
    using request_initial_lease_trace [OF initial] assms(2) by auto
  note run = assms(1) [unfolded launch_run_def loaded null_context_def Let_def, simplified,
      unfolded initial, simplified]
  show ?thesis
  proof (cases r)
    case (Inl failure)
    then show ?thesis using run by (auto simp: w1 intro: not_granted)
  next
    case (Inr given)
    then have "launch_granted ops ?request invocation given w1 = Some (outcome, w')"
      using run by simp
    then obtain ri spawns es where "rw_trace w' = rw_trace w1 @ DidInstall ri # spawns @ es @ [DidTeardown]"
      and "spawns = [] \<or> (\<exists>p args c. spawns = [DidSpawn p args c])" "supervision_stages es"
      using launch_granted_staged by blast
    then show ?thesis
      using granted [of spawns es ?request a ri] by (simp add: w1)
  qed
qed

definition goes_through :: "launch_stage list \<Rightarrow> run_effect list \<Rightarrow> bool" where
  "goes_through stages tr \<longleftrightarrow>
     list_all2 stage_allows stages tr \<and> sorted stages \<and>
     distinct (filter (\<lambda>s. s \<noteq> StSupervise \<and> s \<noteq> StReleaseLease) stages) \<and>
     length (filter (\<lambda>s. s = StReleaseLease) stages) \<le> 3 \<and>
     (StEstablishGovernedContext \<in> set stages \<longleftrightarrow> StTeardownGovernedContext \<in> set stages) \<and>
     (StInstallSignalHandlers \<in> set stages \<longleftrightarrow> StReleaseLease \<in> set stages) \<and>
     (\<exists>lid. \<forall>(s, e)\<in>set (zip stages tr). s = StReleaseLease \<longrightarrow> is_release lid e)"

lemma staged_trace_goes_through:
  assumes "staged_trace tr"
  shows "\<exists>stages. goes_through stages tr"
  using assms
proof cases
  case not_governed
  then show ?thesis by (intro exI [of _ "[]"]) (simp add: goes_through_def)
next
  case not_connected
  then show ?thesis
    by (intro exI [of _ "[StEstablishGovernedContext, StTeardownGovernedContext]"])
       (simp add: goes_through_def stage_order)
next
  case (not_granted q a)
  then show ?thesis
    by (intro exI [of _ "[StEstablishGovernedContext, StRequestLease, StTeardownGovernedContext]"])
       (simp add: goes_through_def stage_order)
next
  case (granted spawns es q a ri)
  then obtain work exits rel lid where es: "es = work @ exits @ rel"
    and work: "list_all (stage_allows StSupervise) work"
    and exits: "exits = [] \<or> (\<exists>st. exits = [DidExit st])"
    and rel: "rel \<noteq> []" "list_all (is_release lid) rel" "length rel \<le> 3"
    unfolding supervision_stages_def by blast
  let ?stages = "StEstablishGovernedContext # StRequestLease # StInstallSignalHandlers #
    replicate (length spawns) StSpawnWorkload @ replicate (length work) StSupervise @
    replicate (length exits) StWorkloadExited @ replicate (length rel) StReleaseLease @
    [StTeardownGovernedContext]"
  have "list_all (stage_allows StReleaseLease) rel"
    using rel(2) by (auto simp: list_all_iff is_release_def)
  then have "list_all2 stage_allows ?stages tr"
    using granted(2) work exits
    by (auto simp: granted(1) es list_all2_replicate intro!: list_all2_appendI)
  moreover have "sorted ?stages"
    by (simp add: sorted_append) (auto simp: stage_order)
  moreover have "distinct (filter (\<lambda>s. s \<noteq> StSupervise \<and> s \<noteq> StReleaseLease) ?stages)"
    using granted(2) exits by auto
  moreover have "\<forall>(s, e)\<in>set (zip ?stages tr). s = StReleaseLease \<longrightarrow> is_release lid e"
    using rel(2) granted(2) exits
    by (auto simp: granted(1) es zip_append set_zip list_all_iff)
  moreover have "length (filter (\<lambda>s. s = StReleaseLease) ?stages) \<le> 3"
    using rel(3) by simp
  ultimately show ?thesis
    using rel(1) unfolding goes_through_def by (intro exI [of _ ?stages]) auto
qed

section \<open>Properties\<close>

text \<open>C19. A launch goes through its stages in order: the effects of every run that returns can be
  assigned stages that never go back, renewals with the release of the lease they replace belonging
  to the supervision. Every stage outside supervision and release has at most one effect. A launch
  that establishes the context tears it down, after all other stages; one that gets past the
  request goes through the release, which asks for a single lease,
  at most three times.\<close>

theorem launch_stages_in_order:
  assumes "launch_run ops texts loaded client invocation \<lparr>rw_outer = outer, rw_trace = []\<rparr> = Some (outcome, w')"
  shows "\<exists>stages. goes_through stages (rw_trace w')"
  using launch_run_staged [OF assms] staged_trace_goes_through by simp

lemma launch_stages_in_order_witness: "\<exists>stages. goes_through stages demo_trace"
  using launch_stages_in_order [OF demo_launch] by simp

text \<open>Between the request and the spawn there is a stage, although the code's comments say none exists:
  the installation of the signal handlers, which can fail with the lease granted.\<close>

lemma stage_between_request_and_spawn:
  "StRequestLease < StInstallSignalHandlers \<and> StInstallSignalHandlers < StSpawnWorkload"
  by (simp add: stage_order)

end
