(* ===== verification/Eltanin_Renewal.thy ===== *)
theory Eltanin_Renewal
  imports Eltanin_Stages
begin

text \<open>
  The renewal of a running workload's lease, over the launcher of \<open>Eltanin_Supervise\<close>: the code asks
  for the next lease before it releases the one it has, so that the workload is never without one.
  That holds as long as the agent never grants an identifier twice, which the agent of
  \<open>Eltanin_Authz_Concurrent\<close> does not.
\<close>

section \<open>Grants in a trace\<close>

fun grant_of :: "run_effect \<Rightarrow> lease_id list" where
  "grant_of (DidExchange (RequestLease _) (Inr (LeaseGranted v))) = [lv_lease_id v]"
| "grant_of _ = []"

definition grants :: "run_effect list \<Rightarrow> lease_id list" where
  "grants tr = concat (map grant_of tr)"

lemma grants_simps [simp]:
  "grants [] = []" "grants (e # tr) = grant_of e @ grants tr" "grants (tr @ es) = grants tr @ grants es"
  by (simp_all add: grants_def)

lemma held_granted: "held tr \<subseteq> set (grants tr)"
proof (induction tr rule: rev_induct)
  case Nil
  show ?case by (simp add: held_def)
next
  case (snoc e tr)
  have "held_step e H \<subseteq> H \<union> set (grant_of e)" for H
    by (cases "(e, H)" rule: held_step.cases) auto
  then show ?case
    using snoc by (fastforce simp: held_append)
qed

text \<open>A lease is held after each of the effects.\<close>

fun never_bare :: "run_effect list \<Rightarrow> lease_id set \<Rightarrow> bool" where
  "never_bare [] H \<longleftrightarrow> True"
| "never_bare (e # es) H \<longleftrightarrow> held_step e H \<noteq> {} \<and> never_bare es (held_step e H)"

lemma never_bare_append [simp]:
  "never_bare (xs @ ys) H \<longleftrightarrow> never_bare xs H \<and> never_bare ys (fold held_step xs H)"
  by (induction xs arbitrary: H) auto

lemma never_bare_take: "never_bare es H \<Longrightarrow> H \<noteq> {} \<Longrightarrow> fold held_step (take n es) H \<noteq> {}"
proof (induction es arbitrary: n H)
  case (Cons e es)
  then show ?case by (cases n) auto
qed simp

lemma never_bare_neutral:
  "list_all lease_neutral es \<Longrightarrow> H \<noteq> {} \<Longrightarrow> never_bare es H \<and> fold held_step es H = H"
  by (induction es arbitrary: H) (simp_all add: lease_neutral_def)

lemma never_bare_release:
  "list_all (is_release lid) es \<Longrightarrow> other \<in> H \<Longrightarrow> other \<noteq> lid \<Longrightarrow> never_bare es H"
  by (induction es arbitrary: H) (auto simp: is_release_def)

text \<open>The effects between two states, during which a lease is always held.\<close>

definition leased_between :: "'w run_world \<Rightarrow> 'w run_world \<Rightarrow> bool" where
  "leased_between w w' \<longleftrightarrow>
     (\<exists>es. rw_trace w' = rw_trace w @ es \<and> never_bare es (held (rw_trace w)))"

lemma leased_between_trans:
  "leased_between w w1 \<Longrightarrow> leased_between w1 w2 \<Longrightarrow> leased_between w w2"
  by (auto simp: leased_between_def held_append)

lemma leased_between_neutral:
  "adds lease_neutral w w' \<Longrightarrow> held (rw_trace w) \<noteq> {} \<Longrightarrow> leased_between w w'"
  by (metis adds_def leased_between_def never_bare_neutral)

section \<open>A renewal\<close>

lemma renew_trace:
  "\<exists>es. rw_trace (snd (renew ops request renewal w)) = rw_trace w @ es"
  using renew_adds [of w ops request renewal] by (auto simp: adds_def)

lemma renew_leased:
  assumes before: "held (rw_trace w) = {rn_lease_id renewal}"
    and fresh: "distinct (grants (rw_trace (snd (renew ops request renewal w))))"
  shows "leased_between w (snd (renew ops request renewal w)) \<and>
    held (rw_trace (snd (renew ops request renewal w))) = {rn_lease_id (fst (renew ops request renewal w))}"
proof -
  obtain t w1 where clock: "do_now ops w = (t, w1)" by fastforce
  obtain answer w2 where ex: "do_exchange ops (RequestLease request) w1 = (answer, w2)" by fastforce
  have w2: "rw_trace w2 = rw_trace w @ [DidExchange (RequestLease request) answer]"
    using clock ex by (metis do_exchange_trace do_now_trace fst_conv snd_conv)
  show ?thesis
  proof (cases "\<exists>v. answer = Inr (LeaseGranted v)")
    case False
    then have "snd (renew ops request renewal w) = w2 \<and>
        rn_lease_id (fst (renew ops request renewal w)) = rn_lease_id renewal"
      by (auto simp: renew_def clock ex split: sum.splits agent_response.splits)
    moreover have "held (rw_trace w2) = held (rw_trace w)"
      using False by (simp add: w2 held_append held_step_no_grant)
    ultimately show ?thesis
      using False before by (simp add: leased_between_def w2 held_step_no_grant)
  next
    case True
    then obtain v where answer: "answer = Inr (LeaseGranted v)" by blast
    let ?old = "rn_lease_id renewal" and ?new = "lv_lease_id v"
    have renewed: "snd (renew ops request renewal w) = release ops ?old w2"
      "rn_lease_id (fst (renew ops request renewal w)) = ?new"
      by (simp_all add: renew_def clock ex answer)
    obtain rel where rel: "rw_trace (release ops ?old w2) = rw_trace w2 @ rel"
      "list_all (is_release ?old) rel"
      using release_trace [of ops ?old w2] by blast
    have "?old \<in> set (grants (rw_trace w))"
      using held_granted [of "rw_trace w"] before by simp
    then have different: "?new \<noteq> ?old"
      using fresh by (auto simp: renewed rel(1) w2 answer)
    have held2: "held (rw_trace w2) = {?new, ?old}"
      by (simp add: w2 answer held_append before)
    then have "never_bare rel (held (rw_trace w2))"
      using different by (intro never_bare_release [OF rel(2), of ?new]) auto
    then have "leased_between w (release ops ?old w2)"
      unfolding leased_between_def
      by (intro exI [of _ "DidExchange (RequestLease request) answer # rel"])
         (use held2 in \<open>auto simp: rel(1) w2 held_append\<close>)
    then show ?thesis
      using different held2 by (auto simp: renewed held_release)
  qed
qed

section \<open>The supervision\<close>

definition ends_leased :: "'w run_world \<Rightarrow> 'w run_world \<Rightarrow> bool" where
  "ends_leased w w' \<longleftrightarrow>
     (\<exists>running rel lid. rw_trace w' = rw_trace w @ running @ rel \<and>
        never_bare running (held (rw_trace w)) \<and> rel \<noteq> [] \<and> list_all (is_release lid) rel)"

lemma ends_leased_prefix: "leased_between w w1 \<Longrightarrow> ends_leased w1 w' \<Longrightarrow> ends_leased w w'"
proof -
  assume "leased_between w w1" and "ends_leased w1 w'"
  then obtain es running rel lid where "rw_trace w1 = rw_trace w @ es" "never_bare es (held (rw_trace w))"
    "rw_trace w' = rw_trace w1 @ running @ rel" "never_bare running (held (rw_trace w1))" "rel \<noteq> []"
    "list_all (is_release lid) rel"
    unfolding leased_between_def ends_leased_def by blast
  then show "ends_leased w w'"
    unfolding ends_leased_def
    by (intro exI [of _ "es @ running"] exI [of _ rel] exI [of _ lid]) (simp add: held_append)
qed

lemma ends_leased_release:
  assumes "adds lease_neutral w w1" and "held (rw_trace w) \<noteq> {}"
  shows "ends_leased w (release ops lid w1)"
proof -
  obtain rel where "rw_trace (release ops lid w1) = rw_trace w1 @ rel" "rel \<noteq> []"
    "list_all (is_release lid) rel"
    using release_trace [of ops lid w1] by blast
  then show ?thesis
    using leased_between_neutral [OF assms] unfolding leased_between_def ends_leased_def by fastforce
qed

lemma terminate_neutral:
  assumes "terminate_for_lapsed_authorization ops child_pid w = Some (st, w1)"
  shows "adds lease_neutral w w1"
proof -
  obtain es where "rw_trace w1 = rw_trace w @ es @ (case st of Some s \<Rightarrow> [DidExit s] | None \<Rightarrow> [])"
    and "list_all lease_neutral es"
    using terminate_trace [OF assms, unfolded fst_conv snd_conv]
    by (force simp: lease_neutral_def split: option.splits)
  then show ?thesis
    by (force simp: adds_def lease_neutral_def split: option.splits)
qed

lemma staged_from_trace: "staged_from w w' \<Longrightarrow> \<exists>es. rw_trace w' = rw_trace w @ es"
  by (auto simp: staged_from_def)

lemma supervise_loop_leased:
  assumes "supervise_loop ops request child_pid renewal w = Some r"
  shows "(\<exists>es. rw_trace (snd r) = rw_trace w @ es) \<and>
    (held (rw_trace w) = {rn_lease_id renewal} \<longrightarrow> distinct (grants (rw_trace (snd r))) \<longrightarrow>
       ends_leased w (snd r))"
  using assms
proof (induction rule: supervise_loop.raw_induct [rotated, consumes 1])
  case (1 loop ops request child_pid renewal w r)
  obtain st w1 where wait: "do_try_wait ops w = (st, w1)" by fastforce
  obtain t w2 where clock: "do_now ops (forward_signals ops child_pid w1) = (t, w2)" by fastforce
  have polled: "adds lease_neutral w w1" "adds lease_neutral w w2"
    using poll_adds [OF wait clock] by (auto elim: adds_mono)
  have released: ?case if "snd r = release ops lid v" and "adds lease_neutral w v" for lid v
  proof -
    from that(2) obtain es where "rw_trace v = rw_trace w @ es" by (auto simp: adds_def)
    then show ?thesis
      using that release_trace [of ops lid v] ends_leased_release [OF that(2), of ops lid] by auto
  qed
  show ?case
  proof (cases st)
    case (Some s)
    then have "snd r = release ops (rn_lease_id renewal) w1"
      using 1(2) by (auto simp: wait)
    then show ?thesis using polled(1) by (rule released)
  next
    case None
    show ?thesis
    proof (cases "t \<ge> rn_deadline renewal")
      case True
      then obtain st' w3 where lapsed: "terminate_for_lapsed_authorization ops child_pid w2 = Some (st', w3)"
        and r: "snd r = release ops (rn_lease_id renewal) w3"
        using 1(2) None by (auto simp: wait clock bind_eq_Some_conv)
      show ?thesis
        by (rule released [OF r adds_trans [OF polled(2) terminate_neutral [OF lapsed]]])
    next
      case False
      define next_state where "next_state =
        (if t \<ge> rn_renew_at renewal then renew ops request renewal w2 else (renewal, w2))"
      obtain renewal' w3 where next_eq: "next_state = (renewal', w3)" by fastforce
      have "loop ops request child_pid renewal' (do_sleep ops POLL_INTERVAL w3) = Some r"
        using 1(2) None False next_eq by (simp add: wait clock next_state_def)
      note IH = 1(1) [OF this, unfolded do_sleep_trace]
      obtain es2 es3 where w2: "rw_trace w2 = rw_trace w @ es2" and w3: "rw_trace w3 = rw_trace w2 @ es3"
        using polled(2) next_eq renew_trace [of ops request renewal w2]
        by (force simp: adds_def next_state_def split: if_splits)
      have "ends_leased w (snd r)"
        if before: "held (rw_trace w) = {rn_lease_id renewal}" and once: "distinct (grants (rw_trace (snd r)))"
      proof -
        have held2: "held (rw_trace w2) = {rn_lease_id renewal}"
          using held_neutral [OF polled(2)] before by simp
        have "distinct (grants (rw_trace w3))"
          using IH once by auto
        then have renewed: "leased_between w2 w3 \<and> held (rw_trace w3) = {rn_lease_id renewal'}"
          using renew_leased [OF held2, of ops request] next_eq held2
          by (auto simp: next_state_def leased_between_def split: if_splits)
        moreover have "leased_between w w2"
          using leased_between_neutral [OF polled(2)] before by simp
        ultimately have "leased_between w w3" by (blast intro: leased_between_trans)
        then have "leased_between w (do_sleep ops POLL_INTERVAL w3)"
          by (simp add: leased_between_def)
        then show ?thesis
          using IH renewed once by (blast intro: ends_leased_prefix)
      qed
      then show ?thesis using IH w2 w3 by auto
    qed
  qed
qed

section \<open>A launch whose workload ran\<close>

lemma no_spawn_in_release:
  "DidSpawn program args c \<in> set (rw_trace (release ops lid w)) \<longleftrightarrow> DidSpawn program args c \<in> set (rw_trace w)"
  using release_trace [of ops lid w] by (auto simp: list_all_iff is_release_def)

lemma launch_granted_ran:
  assumes "launch_granted ops request invocation (lid, remaining, t0) w = Some (outcome, w')"
    and spawned: "DidSpawn program args (Inr child) \<in> set (rw_trace w')"
    and before: "\<forall>p a c. DidSpawn p a c \<notin> set (rw_trace w)"
  obtains w2 w3 ended pid where "supervise ops request lid remaining t0 pid w2 = Some (ended, w3)"
    and "w' = do_teardown w3"
    and "rw_trace w2 = rw_trace w @ [DidInstall (Inr ()),
           DidSpawn (ri_program invocation) (ri_args invocation) (Inr pid)]"
proof -
  let ?program = "ri_program invocation" and ?args = "ri_args invocation"
  obtain ri w1 where install: "effect_step (ro_install ops) (\<lambda>r. [DidInstall r]) w = (ri, w1)"
    by fastforce
  then have w1: "rw_trace w1 = rw_trace w @ [DidInstall ri]"
    by (metis effect_step_simps(1,3) fst_conv snd_conv)
  obtain rs w2 where spawn: "effect_step (ro_spawn ops ?program ?args) (\<lambda>r. [DidSpawn ?program ?args r]) w1 = (rs, w2)"
    by fastforce
  then have w2: "rw_trace w2 = rw_trace w1 @ [DidSpawn ?program ?args rs]"
    by (metis effect_step_simps(1,3) fst_conv snd_conv)
  note run = assms(1) [unfolded launch_granted_def prod.case install]
  obtain child_pid where child: "ri = Inr ()" "rs = Inr child_pid"
  proof (cases ri)
    case (Inl e)
    then have "w' = do_teardown (release ops lid w1)" using run by simp
    then show ?thesis using spawned before w1 by (simp add: no_spawn_in_release)
  next
    case (Inr u)
    show ?thesis
    proof (cases rs)
      case (Inl e)
      then have "w' = do_teardown (release ops lid w2)" using run Inr by (simp add: spawn)
      then show ?thesis using spawned before w1 w2 Inl by (simp add: no_spawn_in_release)
    next
      case (Inr c)
      then show ?thesis using \<open>ri = Inr u\<close> that by simp
    qed
  qed
  then obtain ended w3 where "supervise ops request lid remaining t0 child_pid w2 = Some (ended, w3)"
    and "w' = do_teardown w3"
    using run by (auto simp: spawn bind_eq_Some_conv)
  then show thesis by (rule that) (simp add: w1 w2 child)
qed

lemma launch_run_ran:
  assumes "launch_run ops texts loaded client invocation w = Some (outcome, w')" and "rw_trace w = []"
    and "DidSpawn program args (Inr child) \<in> set (rw_trace w')"
  obtains request lid remaining t0 pid w2 w3 ended where
    "supervise ops request lid remaining t0 pid w2 = Some (ended, w3)" and "w' = do_teardown w3"
    and "rw_trace w2 =
      [DidEstablish,
       DidExchange (RequestLease request) (Inr (LeaseGranted \<lparr>lv_lease_id = lid, lv_remaining = remaining\<rparr>)),
       DidInstall (Inr ()), DidSpawn (ri_program invocation) (ri_args invocation) (Inr pid)]"
proof -
  obtain profile path where loaded: "loaded = Inr profile" "client = Inr path"
    using assms by (cases loaded; cases client) (auto simp: launch_run_def null_context_def)
  let ?request = "\<lparr>lr_resource = pf_resource profile, lr_action = pf_action profile\<rparr>"
  let ?w0 = "w\<lparr>rw_trace := rw_trace w @ [DidEstablish]\<rparr>"
  obtain r w1 where initial: "request_initial_lease ops (lt_client texts) ?request ?w0 = (r, w1)"
    by fastforce
  obtain a where w1: "rw_trace w1 = [DidEstablish, DidExchange (RequestLease ?request) a]"
    and a: "case r of
        Inr (lid, remaining, _) \<Rightarrow>
          a = Inr (LeaseGranted \<lparr>lv_lease_id = lid, lv_remaining = remaining\<rparr>)
      | Inl failure \<Rightarrow>
          (\<forall>v. a \<noteq> Inr (LeaseGranted v)) \<and>
          failure = (case a of Inl e \<Rightarrow> FailAgentUnavailable (lt_client texts e)
                     | Inr response \<Rightarrow> the (classify_response response))"
    using request_initial_lease_trace [OF initial] assms(2) by auto
  note run = assms(1) [unfolded launch_run_def loaded null_context_def Let_def, simplified,
      unfolded initial, simplified]
  show thesis
  proof (cases r)
    case (Inl failure)
    then have "w' = do_teardown w1" using run by simp
    then show ?thesis using assms(3) by (simp add: w1)
  next
    case (Inr given)
    obtain lid remaining t0 where given: "given = (lid, remaining, t0)" by (cases given)
    have granted: "launch_granted ops ?request invocation (lid, remaining, t0) w1 = Some (outcome, w')"
      using run Inr given by simp
    have answer: "a = Inr (LeaseGranted \<lparr>lv_lease_id = lid, lv_remaining = remaining\<rparr>)"
      using a Inr given by simp
    have "\<forall>p a c. DidSpawn p a c \<notin> set (rw_trace w1)" by (simp add: w1)
    then show ?thesis
      by (rule launch_granted_ran [OF granted assms(3)]) (rule that, assumption, simp_all add: w1 answer)
  qed
qed

text \<open>A running workload is never without a lease: if a launch spawned its workload, and the agent
  granted no identifier twice, then the launcher holds a granted lease it has not asked to release
  at every moment from the spawn to the release that ends the supervision, renewals included; that
  last release asks for a single lease.\<close>

lemma launch_never_unleased:
  assumes "launch_run ops texts loaded client invocation \<lparr>rw_outer = outer, rw_trace = []\<rparr> = Some (outcome, w')"
    and "DidSpawn program args (Inr child) \<in> set (rw_trace w')"
    and "distinct (grants (rw_trace w'))"
  shows "\<exists>before pid running rel lid.
    rw_trace w' = before @ DidSpawn (ri_program invocation) (ri_args invocation) (Inr pid) #
      running @ rel @ [DidTeardown] \<and>
    rel \<noteq> [] \<and> list_all (is_release lid) rel \<and>
    (\<forall>n. held (before @ DidSpawn (ri_program invocation) (ri_args invocation) (Inr pid) #
             take n running) \<noteq> {})"
proof -
  obtain request lid remaining t0 pid w2 w3 ended where
    sup: "supervise ops request lid remaining t0 pid w2 = Some (ended, w3)" and w': "w' = do_teardown w3"
    and w2: "rw_trace w2 =
      [DidEstablish,
       DidExchange (RequestLease request) (Inr (LeaseGranted \<lparr>lv_lease_id = lid, lv_remaining = remaining\<rparr>)),
       DidInstall (Inr ()), DidSpawn (ri_program invocation) (ri_args invocation) (Inr pid)]"
    by (rule launch_run_ran [OF assms(1) _ assms(2)]) simp_all
  have "held (rw_trace w2) = {lid}" by (simp add: w2 held_def)
  then have "ends_leased w2 w3"
    using supervise_loop_leased [OF sup [unfolded supervise_def]] assms(3) by (simp add: w')
  then obtain running rel lid' where w3: "rw_trace w3 = rw_trace w2 @ running @ rel"
    and leased: "never_bare running (held (rw_trace w2))" and rel: "rel \<noteq> []" "list_all (is_release lid') rel"
    unfolding ends_leased_def by blast
  have "held (rw_trace w2 @ take n running) \<noteq> {}" for n
    using never_bare_take [OF leased] \<open>held (rw_trace w2) = {lid}\<close> by (simp add: held_append)
  then show ?thesis
    by (intro exI [of _ "butlast (rw_trace w2)"] exI [of _ pid] exI [of _ running] exI [of _ rel]
        exI [of _ lid']) (use rel in \<open>simp add: w' w3 w2\<close>)
qed

section \<open>A run with a renewal\<close>

text \<open>A sleep takes fifteen units of time; the agent names a lease by the time it is asked. The lease is
  renewed at the second poll, and the workload is seen to have exited at the third.\<close>

definition renewing_run_ops :: "nat run_ops" where
  "renewing_run_ops =
     \<lparr>ro_now = (\<lambda>n. (n, n)), ro_sleep = (\<lambda>_ n. n + 15),
      ro_exchange = (\<lambda>r n.
        (case r of
           RequestLease _ \<Rightarrow>
             Inr (LeaseGranted \<lparr>lv_lease_id = \<lparr>lid_issuer = ''agent'', lid_sequence = of_nat n\<rparr>, lv_remaining = 30\<rparr>)
         | ReleaseLease _ \<Rightarrow> Inr (LeaseReleased Released)
         | AgentStatus \<Rightarrow> Inr (RespError Internal), n)),
      ro_install = (\<lambda>n. (Inr (), n)), ro_spawn = (\<lambda>_ _ n. (Inr 5, n)),
      ro_try_wait = (\<lambda>n. (if n < 30 then None else Some (ExitedWith 3), n)), ro_wait = (\<lambda>n. Some (None, n)),
      ro_signals = (\<lambda>n. ([], n)), ro_kill_process = (\<lambda>_ _ n. n), ro_kill_group = (\<lambda>_ _ n. n),
      ro_child_kill = (\<lambda>n. n), ro_named_signal = (\<lambda>_. True), ro_pid_from_raw = Some\<rparr>"

definition renewing_trace :: "run_effect list" where
  "renewing_trace =
     (let request = RequestLease \<lparr>lr_resource = pf_resource demo_profile, lr_action = pf_action demo_profile\<rparr>;
          first = \<lparr>lid_issuer = ''agent'', lid_sequence = 0\<rparr>;
          second = \<lparr>lid_issuer = ''agent'', lid_sequence = 15\<rparr>
      in [DidEstablish,
          DidExchange request (Inr (LeaseGranted \<lparr>lv_lease_id = first, lv_remaining = 30\<rparr>)),
          DidInstall (Inr ()), DidSpawn ''train'' [''--fast''] (Inr 5),
          DidExchange request (Inr (LeaseGranted \<lparr>lv_lease_id = second, lv_remaining = 30\<rparr>)),
          DidExchange (ReleaseLease \<lparr>rr_lease_id = first\<rparr>) (Inr (LeaseReleased Released)),
          DidExit (ExitedWith 3),
          DidExchange (ReleaseLease \<lparr>rr_lease_id = second\<rparr>) (Inr (LeaseReleased Released)),
          DidTeardown])"

lemma renewing_launch:
  "launch_run renewing_run_ops demo_texts (Inr demo_profile) (Inr []) demo_invocation
     \<lparr>rw_outer = 0, rw_trace = []\<rparr> = Some (LaunchExit 3, \<lparr>rw_outer = 30, rw_trace = renewing_trace\<rparr>)"
  by (simp add: launch_run_def null_context_def request_initial_lease_def do_now_def do_exchange_def
      effect_step_def launch_granted_def supervise_def supervise_loop.simps do_try_wait_def do_sleep_def
      release_def RELEASE_RETRY_BACKOFFS_def upt_rec do_teardown_def demo_invocation_def renew_def
      renewing_run_ops_def forward_signals_def safe_deadline_def instant_checked_add_def
      MAX_LEASE_REMAINING_def Let_def renewing_trace_def)

lemma renewing_run_leased:
  "\<exists>before running rel. renewing_trace = before @ DidSpawn ''train'' [''--fast''] (Inr 5) # running @ rel @ [DidTeardown] \<and>
     (\<forall>n. held (before @ DidSpawn ''train'' [''--fast''] (Inr 5) # take n running) \<noteq> {})"
proof -
  have spawned: "DidSpawn ''train'' [''--fast''] (Inr 5) \<in> set renewing_trace"
    and only: "DidSpawn p a (Inr pid) \<in> set renewing_trace \<Longrightarrow> pid = 5" for p a pid
    by (auto simp: renewing_trace_def Let_def)
  have "distinct (grants renewing_trace)"
    by (simp add: renewing_trace_def Let_def)
  from launch_never_unleased [OF renewing_launch, unfolded run_world.simps, OF spawned this]
  obtain before pid running rel where
    tr: "renewing_trace = before @ DidSpawn ''train'' [''--fast''] (Inr pid) # running @ rel @ [DidTeardown]"
    and leased: "\<forall>n. held (before @ DidSpawn ''train'' [''--fast''] (Inr pid) # take n running) \<noteq> {}"
    by (auto simp: demo_invocation_def)
  have "pid = 5" using only [of "''train''" "[''--fast'']" pid] by (simp add: tr)
  then show ?thesis using tr leased by blast
qed

end
