(* ===== verification/Eltanin_Run_Agent.thy ===== *)
theory Eltanin_Run_Agent
  imports Eltanin_Supervise Eltanin_Runtime
begin

text \<open>
  Composes the two programs: the launcher of \<open>Eltanin_Supervise\<close> runs against the agent of
  \<open>Eltanin_Authz\<close>, whose clock is the one of \<open>Eltanin_Runtime\<close>. The state of the outside world is
  one clock for both processes, the store and the backend of the agent, and the signals the child was
  sent. Everything else the world decides is an argument: when the agent can be reached, when its answer
  to which request is lost, how long the parts of an exchange take, whether and when the child ends by
  the signals it was sent, which signals arrive. Of the operating system it is assumed that SIGKILL
  cannot be caught: a process that was sent it ends. Waiting for a child that never ends does not
  return. An exchange always ends, as the socket of the client has time limits. The bytes on the wire are left out
  here: \<open>Eltanin_Connection\<close> shows that the client reads the answer the handler gave.
\<close>

section \<open>The composed world\<close>

datatype child_signal = Forwarded int | Terminated | Killed

record 'b run_sim =
  rs_clock :: instant
  rs_agent :: "lease_state \<times> 'b"
  rs_delivered :: "(instant \<times> child_signal) list"

text \<open>\<open>sc_lag\<close> has the time until the agent reads its clock first, until it reads it again for its
  reply, and until the reply is read; an exchange lasts a nanosecond more than that. \<open>sc_child\<close> has the
  time at which the child ends and its status, if it ever does, by the signals it can handle that it was
  sent, in their order; \<open>sc_dies\<close> how long after a SIGKILL the process is gone.\<close>

record 'b sim_config =
  sc_handler :: authorization_handler
  sc_backend :: "'b backend_ops"
  sc_peer :: peer_context
  sc_base :: instant
  sc_unreachable :: "instant \<Rightarrow> client_error option"
  sc_lost :: "client_request \<Rightarrow> instant \<Rightarrow> client_error option"
  sc_lag :: "instant \<Rightarrow> duration \<times> duration \<times> duration"
  sc_child :: "(instant \<times> child_signal) list \<Rightarrow> (instant \<times> exit_status) option"
  sc_dies :: "instant \<Rightarrow> duration"
  sc_signals :: "instant \<Rightarrow> int list"
  sc_install :: "(string, unit) result"
  sc_spawn :: "os_string \<Rightarrow> os_string list \<Rightarrow> (spawn_error, u32) result"
  sc_named_signal :: "int \<Rightarrow> bool"
  sc_pid_from_raw :: "int \<Rightarrow> int option"

definition agent_time :: "'b sim_config \<Rightarrow> instant \<Rightarrow> monotonic_time" where
  "agent_time cfg t = agent_clock_now (sc_base cfg) t"

definition sim_exchange ::
  "'b sim_config \<Rightarrow> client_request \<Rightarrow> 'b run_sim \<Rightarrow>
     (client_error, agent_response) result \<times> 'b run_sim" where
  "sim_exchange cfg request s =
     (case sc_unreachable cfg (rs_clock s) of
        Some e \<Rightarrow> (Inl e, s\<lparr>rs_clock := rs_clock s + 1\<rparr>)
      | None \<Rightarrow>
          (let (to_agent, in_agent, back) = sc_lag cfg (rs_clock s);
               received = rs_clock s + to_agent;
               replied = received + in_agent;
               (response, _, agent) =
                 handle (sc_handler cfg) (sc_backend cfg) (agent_time cfg received)
                   (agent_time cfg replied) request (sc_peer cfg) (rs_agent s);
               answer = (case sc_lost cfg request replied of Some e \<Rightarrow> Inl e | None \<Rightarrow> Inr response)
           in (answer, s\<lparr>rs_clock := replied + back + 1, rs_agent := agent\<rparr>)))"

text \<open>The end of the child: its own, unless a SIGKILL ends it before that.\<close>

definition child_end :: "'b sim_config \<Rightarrow> (instant \<times> child_signal) list \<Rightarrow> (instant \<times> exit_status) option" where
  "child_end cfg delivered =
     (let own = sc_child cfg (filter (\<lambda>(_, signal). signal \<noteq> Killed) delivered)
      in case find (\<lambda>(_, signal). signal = Killed) delivered of
           None \<Rightarrow> own
         | Some (t, _) \<Rightarrow>
             (case own of
                Some (e, status) \<Rightarrow>
                  if e \<le> t + sc_dies cfg t then Some (e, status) else Some (t + sc_dies cfg t, SignaledBy 9)
              | None \<Rightarrow> Some (t + sc_dies cfg t, SignaledBy 9)))"

definition sim_try_wait :: "'b sim_config \<Rightarrow> 'b run_sim \<Rightarrow> exit_status option \<times> 'b run_sim" where
  "sim_try_wait cfg s =
     (case child_end cfg (rs_delivered s) of
        Some (t, status) \<Rightarrow> (if t \<le> rs_clock s then Some status else None, s)
      | None \<Rightarrow> (None, s))"

definition sim_wait :: "'b sim_config \<Rightarrow> 'b run_sim \<Rightarrow> (exit_status option \<times> 'b run_sim) option" where
  "sim_wait cfg s =
     (case child_end cfg (rs_delivered s) of
        Some (t, status) \<Rightarrow> Some (Some status, s\<lparr>rs_clock := max (rs_clock s) t\<rparr>)
      | None \<Rightarrow> None)"

definition deliver :: "child_signal \<Rightarrow> 'b run_sim \<Rightarrow> 'b run_sim" where
  "deliver signal s = s\<lparr>rs_delivered := rs_delivered s @ [(rs_clock s, signal)]\<rparr>"

definition sim_ops :: "'b sim_config \<Rightarrow> 'b run_sim run_ops" where
  "sim_ops cfg =
     \<lparr>ro_now = (\<lambda>s. (rs_clock s, s)),
      ro_sleep = (\<lambda>d s. s\<lparr>rs_clock := rs_clock s + d\<rparr>),
      ro_exchange = sim_exchange cfg,
      ro_install = (\<lambda>s. (sc_install cfg, s)),
      ro_spawn = (\<lambda>program args s. (sc_spawn cfg program args, s)),
      ro_try_wait = sim_try_wait cfg,
      ro_wait = sim_wait cfg,
      ro_signals = (\<lambda>s. (sc_signals cfg (rs_clock s), s)),
      ro_kill_process = (\<lambda>_ signal. deliver (Forwarded signal)),
      ro_kill_group = (\<lambda>_ forced. deliver (if forced then Killed else Terminated)),
      ro_child_kill = deliver Killed,
      ro_named_signal = sc_named_signal cfg,
      ro_pid_from_raw = sc_pid_from_raw cfg\<rparr>"

lemma sim_ops_simps [simp]:
  "ro_now (sim_ops cfg) s = (rs_clock s, s)"
  "ro_sleep (sim_ops cfg) d s = s\<lparr>rs_clock := rs_clock s + d\<rparr>"
  "ro_exchange (sim_ops cfg) = sim_exchange cfg"
  "ro_install (sim_ops cfg) s = (sc_install cfg, s)"
  "ro_spawn (sim_ops cfg) program args s = (sc_spawn cfg program args, s)"
  "ro_try_wait (sim_ops cfg) = sim_try_wait cfg"
  "ro_wait (sim_ops cfg) = sim_wait cfg"
  "ro_signals (sim_ops cfg) s = (sc_signals cfg (rs_clock s), s)"
  "ro_kill_process (sim_ops cfg) p sig = deliver (Forwarded sig)"
  "ro_kill_group (sim_ops cfg) p forced = deliver (if forced then Killed else Terminated)"
  "ro_child_kill (sim_ops cfg) = deliver Killed"
  by (simp_all add: sim_ops_def)

lemma deliver_simps [simp]:
  "rs_clock (deliver signal s) = rs_clock s" "rs_agent (deliver signal s) = rs_agent s"
  by (simp_all add: deliver_def)

lemma sim_try_wait_state [simp]: "snd (sim_try_wait cfg s) = s"
  by (simp add: sim_try_wait_def split: option.splits prod.splits)

lemma sim_wait_Some:
  "sim_wait cfg s = Some r \<Longrightarrow> rs_agent (snd r) = rs_agent s \<and> rs_clock s \<le> rs_clock (snd r)"
  by (auto simp: sim_wait_def split: option.splits)

lemma killed_child_ends: "\<exists>status s'. sim_wait cfg (deliver Killed s) = Some (Some status, s')"
proof -
  have "\<exists>d. find (\<lambda>(_, signal). signal = Killed) (xs @ [(t, Killed)]) = Some d" for xs t
    by (induction xs) auto
  from this [of "rs_delivered s" "rs_clock s"]
  obtain d where "find (\<lambda>(_, signal). signal = Killed) (rs_delivered (deliver Killed s)) = Some d"
    unfolding deliver_def by auto
  then have "child_end cfg (rs_delivered (deliver Killed s)) \<noteq> None"
    by (cases d) (simp add: child_end_def Let_def split: option.splits)
  then show ?thesis by (auto simp: sim_wait_def)
qed

section \<open>What a grant says of the agent\<close>

lemma lease_answer_granted:
  assumes "snd (fst (handle_request_lease h ops now reply_now rq peer (ls, b))) = LeaseGranted v"
  obtains obs l ls1 where "authorizable peer = Some obs"
    and "issue_reserving_capacity h now (provenance_for rq obs) ls = (Inr l, ls1)"
    and "fst (bo_enforce ops b (prov_request (cl_origin l))) = Inr Allowed"
    and "reply_now < cl_expires_at l"
    and "v = \<lparr>lv_lease_id = cl_id l, lv_remaining = unat (cl_expires_at l) - unat reply_now\<rparr>"
    and "fst (snd (handle_request_lease h ops now reply_now rq peer (ls, b))) = state_insert l ls1"
proof (cases "authorizable peer")
  case None
  then show ?thesis using assms by (simp add: handle_request_lease_def)
next
  case (Some obs)
  show ?thesis
  proof (cases rule: issue_cap_cases [of h now "provenance_for rq obs" ls])
    case (fail f)
    then show ?thesis using assms by (cases f) (simp_all add: handle_request_lease_def Some)
  next
    case (issued l)
    then show ?thesis
      using assms that [OF Some issued]
      by (simp add: handle_request_lease_def Some Let_def split_beta finish_request_cases)
  qed
qed

lemma lease_answer_not_granted:
  assumes "\<And>v. snd (fst (handle_request_lease h ops now reply_now rq peer st)) \<noteq> LeaseGranted v"
  shows "set (ls_leases (fst (snd (handle_request_lease h ops now reply_now rq peer st)))) \<subseteq>
    set (ls_leases (fst st))"
proof (cases "authorizable peer")
  case (Some obs)
  show ?thesis
  proof (cases rule: issue_cap_cases [of h now "provenance_for rq obs" "fst st"])
    case (issued l)
    then show ?thesis
      using assms
      by (auto simp: handle_request_lease_def Some Let_def split_beta finish_request_cases prune_def)
  qed (auto simp: handle_request_lease_def Some prune_def)
qed (simp add: handle_request_lease_def)

section \<open>The exchange in the composed world\<close>

lemma sim_exchange_clock: "rs_clock s < rs_clock (snd (sim_exchange cfg r s))"
  by (simp add: sim_exchange_def Let_def split_beta split: option.splits)

lemma sim_exchange_reachable:
  assumes "fst (sim_exchange cfg request s) = Inr response"
  obtains now reply_now where
    "response = fst (handle (sc_handler cfg) (sc_backend cfg) (agent_time cfg now)
       (agent_time cfg reply_now) request (sc_peer cfg) (rs_agent s))"
    and "rs_agent (snd (sim_exchange cfg request s)) =
      snd (snd (handle (sc_handler cfg) (sc_backend cfg) (agent_time cfg now)
        (agent_time cfg reply_now) request (sc_peer cfg) (rs_agent s)))"
    and "rs_clock s \<le> now" "now \<le> reply_now" "reply_now < rs_clock (snd (sim_exchange cfg request s))"
proof -
  obtain a i b where lag: "sc_lag cfg (rs_clock s) = (a, i, b)" by (metis prod_cases3)
  show ?thesis
    using assms that [of "rs_clock s + a" "rs_clock s + a + i"]
    by (auto simp: sim_exchange_def lag Let_def split_beta split: option.splits)
qed

text \<open>A grant: the lease is stored for the observed context of the peer, issued by the agent's clock
  at the time of the exchange, and allowed by the policy.\<close>

lemma sim_grant:
  assumes "fst (sim_exchange cfg (RequestLease q) s) = Inr (LeaseGranted v)"
  obtains obs l ls1 now reply_now where "authorizable (sc_peer cfg) = Some obs"
    and "issue_reserving_capacity (sc_handler cfg) (agent_time cfg now) (provenance_for q obs)
           (fst (rs_agent s)) = (Inr l, ls1)"
    and "fst (bo_enforce (sc_backend cfg) (snd (rs_agent s)) (prov_request (cl_origin l))) = Inr Allowed"
    and "v = \<lparr>lv_lease_id = cl_id l,
              lv_remaining = unat (cl_expires_at l) - unat (agent_time cfg reply_now)\<rparr>"
    and "agent_time cfg reply_now < cl_expires_at l"
    and "fst (rs_agent (snd (sim_exchange cfg (RequestLease q) s))) = state_insert l ls1"
    and "rs_clock s \<le> now" "now \<le> reply_now"
    and "reply_now < rs_clock (snd (sim_exchange cfg (RequestLease q) s))"
proof -
  obtain now reply_now where
    g: "LeaseGranted v = fst (handle (sc_handler cfg) (sc_backend cfg) (agent_time cfg now)
       (agent_time cfg reply_now) (RequestLease q) (sc_peer cfg) (rs_agent s))"
    and st: "rs_agent (snd (sim_exchange cfg (RequestLease q) s)) =
      snd (snd (handle (sc_handler cfg) (sc_backend cfg) (agent_time cfg now)
        (agent_time cfg reply_now) (RequestLease q) (sc_peer cfg) (rs_agent s)))"
    and t: "rs_clock s \<le> now" "now \<le> reply_now"
      "reply_now < rs_clock (snd (sim_exchange cfg (RequestLease q) s))"
    using sim_exchange_reachable [OF assms] by metis
  have "snd (fst (handle_request_lease (sc_handler cfg) (sc_backend cfg) (agent_time cfg now)
      (agent_time cfg reply_now) q (sc_peer cfg) (fst (rs_agent s), snd (rs_agent s)))) = LeaseGranted v"
    using g by (simp add: handle_response)
  from lease_answer_granted [OF this] show ?thesis
    using st t that by (simp add: handle_state) metis
qed

lemma issue_cap_room:
  assumes "issue_reserving_capacity h now prov ls = (Inr l, ls1)"
  shows "unat now < 2 ^ 64 - 1"
  using assms by (auto simp: issue_cap_Inr issue_Inr_iff time_checked_add_Some)

text \<open>No lease is granted once the agent's clock has come to its end, so grants are finitely many.\<close>

definition clock_left :: "'b sim_config \<Rightarrow> 'b run_sim \<Rightarrow> nat" where
  "clock_left cfg s = sc_base cfg + 2 ^ 64 - rs_clock s"

lemma clock_left_antimono: "rs_clock s \<le> rs_clock s' \<Longrightarrow> clock_left cfg s' \<le> clock_left cfg s"
  by (simp add: clock_left_def)

lemma grant_clock_left:
  assumes "fst (sim_exchange cfg (RequestLease q) s) = Inr (LeaseGranted v)"
  shows "clock_left cfg (snd (sim_exchange cfg (RequestLease q) s)) < clock_left cfg s"
proof -
  obtain now where "unat (agent_time cfg now) < 2 ^ 64 - 1" "rs_clock s \<le> now"
    using sim_grant [OF assms] issue_cap_room by metis
  then have "rs_clock s - sc_base cfg < 2 ^ 64 - 1"
    by (simp add: agent_time_def unat_agent_clock_now)
  then show ?thesis
    using sim_exchange_clock [of s cfg "RequestLease q"] by (simp add: clock_left_def)
qed

interpretation clocked: run_clock "sim_ops cfg" rs_clock for cfg
  by unfold_locales (simp_all add: less_imp_le [OF sim_exchange_clock] killed_child_ends)

interpretation run: finite_grants "sim_ops cfg" rs_clock "clock_left cfg" for cfg
  by unfold_locales
     (simp_all add: grant_clock_left clock_left_antimono less_imp_le [OF sim_exchange_clock])

section \<open>The store of the agent during a run\<close>

text \<open>The sequence counter of the agent has not outrun its clock, so it has not wrapped. The store holds
  the leases it held before the run, and at most the lease of the run besides, bound to the peer.\<close>

definition agent_of :: "'b run_sim run_world \<Rightarrow> lease_state" where
  "agent_of w = fst (rs_agent (rw_outer w))"

definition counter_timely :: "'b sim_config \<Rightarrow> 'b run_sim \<Rightarrow> bool" where
  "counter_timely cfg s \<longleftrightarrow>
     sc_base cfg + unat (li_next_sequence (ls_issuer (fst (rs_agent s)))) \<le> rs_clock s"

definition ours_or_old :: "'b sim_config \<Rightarrow> (lease_id \<times> compute_lease) set \<Rightarrow> lease_id set \<Rightarrow> lease_state \<Rightarrow> bool" where
  "ours_or_old cfg old ids ls \<longleftrightarrow>
     (\<forall>(k, l)\<in>set (ls_leases ls).
        (k, l) \<in> old \<or> k \<in> ids \<and> authorizable (sc_peer cfg) = Some (prov_context (cl_origin l)))"

definition run_ok ::
  "'b sim_config \<Rightarrow> (lease_id \<times> compute_lease) set \<Rightarrow> lease_id set \<Rightarrow> 'b run_sim run_world \<Rightarrow> bool" where
  "run_ok cfg old ids w \<longleftrightarrow>
     state_ok (agent_of w) \<and> counter_timely cfg (rw_outer w) \<and> ours_or_old cfg old ids (agent_of w)"

text \<open>Steps that leave the agent alone.\<close>

definition quiet :: "'b run_sim run_world \<Rightarrow> 'b run_sim run_world \<Rightarrow> bool" where
  "quiet w w' \<longleftrightarrow>
     rs_agent (rw_outer w') = rs_agent (rw_outer w) \<and> rs_clock (rw_outer w) \<le> rs_clock (rw_outer w')"

lemma quiet_refl [simp]: "quiet w w"
  by (simp add: quiet_def)

lemma quiet_trans [trans]: "quiet w w1 \<Longrightarrow> quiet w1 w2 \<Longrightarrow> quiet w w2"
  by (auto simp: quiet_def)

lemma run_ok_quiet: "quiet w w' \<Longrightarrow> run_ok cfg old ids w \<Longrightarrow> run_ok cfg old ids w'"
  by (auto simp: quiet_def run_ok_def agent_of_def counter_timely_def)

lemma quiet_steps:
  "quiet w (snd (do_now (sim_ops cfg) w))" "quiet w (do_sleep (sim_ops cfg) d w)"
  "quiet w (snd (do_try_wait (sim_ops cfg) w))" "do_wait (sim_ops cfg) w = Some r \<Longrightarrow> quiet w (snd r)"
  "quiet w (do_kill_group (sim_ops cfg) p forced w)"
  "quiet w (forward_to_child (sim_ops cfg) child_pid signal w)"
  "quiet w (w\<lparr>rw_outer := ro_child_kill (sim_ops cfg) (rw_outer w)\<rparr>)"
  "quiet w (do_teardown w)"
  by (auto simp: quiet_def do_now_def do_sleep_def do_try_wait_def do_wait_def do_kill_group_def
      do_teardown_def forward_to_child_def dest: sim_wait_Some split: option.splits)

lemma quiet_forward: "quiet w (forward_signals (sim_ops cfg) child_pid w)"
proof -
  have "quiet w1 (fold (forward_to_child (sim_ops cfg) child_pid) signals w1)" for signals w1
    by (induction signals arbitrary: w1) (auto intro: quiet_trans [OF quiet_steps(6)])
  moreover have "quiet w (snd (effect_step (ro_signals (sim_ops cfg)) (\<lambda>_. []) w))"
    by (simp add: quiet_def)
  ultimately show ?thesis
    by (auto simp: forward_signals_def split_beta intro: quiet_trans)
qed

lemma quiet_await_termination:
  assumes "await_termination ops pgid deadline w = Some r" and "ops = sim_ops cfg"
  shows "quiet w (snd r)"
  using assms
proof (induction rule: await_termination.raw_induct [rotated, consumes 1])
  case (1 await ops pgid deadline w r)
  obtain now w1 where now: "do_now ops w = (now, w1)" by fastforce
  obtain st w2 where wait: "do_try_wait ops w1 = (st, w2)" by fastforce
  have w1: "quiet w w1" using quiet_steps(1) [of w cfg] now 1(3) by simp
  have w2: "quiet w w2"
    using quiet_trans [OF w1 quiet_steps(3) [of w1 cfg]] wait 1(3) by simp
  show ?case
  proof (cases "now < deadline")
    case True
    show ?thesis
    proof (cases st)
      case None
      then have "await ops pgid deadline (do_sleep ops POLL_INTERVAL w2) = Some r"
        using 1(2) True by (simp add: now wait)
      then have "quiet (do_sleep ops POLL_INTERVAL w2) (snd r)" by (rule 1(1)) (rule 1(3))
      moreover have "quiet w2 (do_sleep ops POLL_INTERVAL w2)"
        unfolding 1(3) by (rule quiet_steps)
      ultimately show ?thesis using quiet_trans w2 by blast
    next
      case (Some t)
      then show ?thesis using 1(2) True w2 by (auto simp: now wait)
    qed
  next
    case False
    let ?w2 = "do_kill_group ops pgid True w1"
    let ?w3 = "?w2\<lparr>rw_outer := ro_child_kill ops (rw_outer ?w2)\<rparr>"
    have r: "do_wait ops ?w3 = Some r"
      using 1(2) False by (simp add: now Let_def)
    have "quiet w1 ?w2" and "quiet ?w2 ?w3"
      unfolding 1(3) by (rule quiet_steps)+
    moreover have "quiet ?w3 (snd r)" using r unfolding 1(3) by (rule quiet_steps)
    ultimately show ?thesis
      using quiet_trans [OF w1] by (blast intro: quiet_trans)
  qed
qed

lemma quiet_terminate:
  assumes "terminate_for_lapsed_authorization (sim_ops cfg) child_pid w = Some (st, w')"
  shows "quiet w w'"
proof (cases "pid_from_u32 (sim_ops cfg) child_pid")
  case None
  then show ?thesis
    using assms quiet_steps(3) [of w cfg] by (simp add: terminate_for_lapsed_authorization_def)
next
  case (Some pgid)
  obtain now w1 where now: "do_now (sim_ops cfg) (do_kill_group (sim_ops cfg) pgid False w) = (now, w1)"
    by fastforce
  then have "quiet w w1"
    using quiet_trans [OF quiet_steps(5) quiet_steps(1)] by (metis snd_conv)
  moreover have "await_termination (sim_ops cfg) pgid (now + TERMINATION_GRACE) w1 = Some (st, w')"
    using assms by (simp add: terminate_for_lapsed_authorization_def Some now)
  ultimately show ?thesis
    using quiet_await_termination quiet_trans by fastforce
qed

lemma ours_or_old_mono:
  "ours_or_old cfg old ids ls \<Longrightarrow> set (ls_leases ls') \<subseteq> set (ls_leases ls) \<Longrightarrow> ours_or_old cfg old ids ls'"
  by (auto simp: ours_or_old_def)

lemma counter_timely_later:
  "counter_timely cfg s \<Longrightarrow> rs_clock s \<le> rs_clock s' \<Longrightarrow>
     li_next_sequence (ls_issuer (fst (rs_agent s'))) = li_next_sequence (ls_issuer (fst (rs_agent s))) \<Longrightarrow>
     counter_timely cfg s'"
  by (simp add: counter_timely_def)

text \<open>While the counter is timely every answer of the agent keeps the store well formed.\<close>

lemma issue_cap_counter_next:
  assumes "issue_reserving_capacity h now prov ls = (Inr l, ls1)"
  shows "li_next_sequence (ls_issuer ls1) = li_next_sequence (ls_issuer ls) + 1 \<and>
    cl_id l = \<lparr>lid_issuer = li_instance (ls_issuer ls), lid_sequence = li_next_sequence (ls_issuer ls)\<rparr> \<and>
    cl_origin l = prov"
  using assms by (auto simp: issue_cap_Inr issue_Inr_iff)

lemma timely_room:
  assumes "issue_reserving_capacity h (agent_time cfg now) prov (fst (rs_agent s)) = (Inr l, ls1)"
    and "counter_timely cfg s" and "rs_clock s \<le> now"
  shows "counter_room (fst (rs_agent s)) 1" and "now - sc_base cfg < 2 ^ 64 - 1"
  using issue_cap_room [OF assms(1)] assms(2,3)
  by (auto simp: counter_room_def counter_timely_def agent_time_def unat_agent_clock_now)

lemma request_lease_timely:
  assumes "state_ok (fst st)" and "rs_agent s = st" and "counter_timely cfg s" and "rs_clock s \<le> now"
    and "rs_clock s < t"
    and "st' = snd (handle_request_lease h ops (agent_time cfg now) reply_now q peer st)"
  shows "state_ok (fst st')" and "counter_timely cfg (s\<lparr>rs_clock := t, rs_agent := st'\<rparr>)"
proof -
  have goal: "state_ok (fst st') \<and> counter_timely cfg (s\<lparr>rs_clock := t, rs_agent := st'\<rparr>)"
  proof (cases "authorizable peer")
    case None
    then show ?thesis using assms by (simp add: handle_request_lease_def counter_timely_def)
  next
    case (Some obs)
    let ?prov = "provenance_for q obs"
    show ?thesis
    proof (cases rule: issue_cap_cases [of h "agent_time cfg now" ?prov "fst st"])
      case (fail f)
      then show ?thesis
        using assms by (simp add: handle_request_lease_def Some counter_timely_def)
    next
      case (issued l)
      then have room: "counter_room (fst st) 1"
        using timely_room(1) [of h cfg now ?prov s] assms(2-4) by auto
      then have "unat (li_next_sequence (ls_issuer (fst st)) + 1) =
          Suc (unat (li_next_sequence (ls_issuer (fst st))))"
        by (simp add: counter_room_def unat_u64_Suc)
      moreover have "state_ok (fst st')"
        using handle_request_lease_ok [of st 0] assms(1,6) room by simp
      moreover have "li_next_sequence (ls_issuer (fst st')) = li_next_sequence (ls_issuer (fst st)) + 1"
        by (simp add: assms(6) handle_request_lease_def Some issued Let_def split_beta)
      ultimately show ?thesis
        using assms(2-5) timely_room(2) [of h cfg now ?prov s] issued
        by (auto simp: counter_timely_def)
    qed
  qed
  then show "state_ok (fst st')" "counter_timely cfg (s\<lparr>rs_clock := t, rs_agent := st'\<rparr>)" by simp_all
qed

lemma sim_exchange_ok:
  assumes "state_ok (fst (rs_agent s))" and "counter_timely cfg s"
  shows "state_ok (fst (rs_agent (snd (sim_exchange cfg request s)))) \<and>
    counter_timely cfg (snd (sim_exchange cfg request s))"
proof (cases "sc_unreachable cfg (rs_clock s)")
  case (Some e)
  then show ?thesis using assms by (simp add: sim_exchange_def counter_timely_def)
next
  case None
  obtain a i b where lag: "sc_lag cfg (rs_clock s) = (a, i, b)" by (metis prod_cases3)
  let ?now = "rs_clock s + a" and ?t = "rs_clock s + a + i + b + 1"
  let ?st = "snd (snd (handle (sc_handler cfg) (sc_backend cfg) (agent_time cfg ?now)
    (agent_time cfg (?now + i)) request (sc_peer cfg) (rs_agent s)))"
  have s': "snd (sim_exchange cfg request s) = s\<lparr>rs_clock := ?t, rs_agent := ?st\<rparr>"
    by (simp add: sim_exchange_def None lag Let_def split_beta)
  show ?thesis
  proof (cases request)
    case (RequestLease q)
    then have "?st = snd (handle_request_lease (sc_handler cfg) (sc_backend cfg) (agent_time cfg ?now)
        (agent_time cfg (?now + i)) q (sc_peer cfg) (rs_agent s))"
      by (simp add: handle_state)
    from request_lease_timely [OF assms(1) refl assms(2) _ _ this, of ?t] show ?thesis
      unfolding s' by simp
  next
    case (ReleaseLease q)
    then show ?thesis
      using assms handle_release_lease_ok [of "rs_agent s" "sc_backend cfg" "agent_time cfg ?now" q "sc_peer cfg"]
      unfolding s' by (simp add: handle_state counter_timely_def)
  next
    case AgentStatus
    then show ?thesis using assms unfolding s' by (simp add: handle_state counter_timely_def)
  qed
qed

text \<open>A request that was not granted adds nothing; a granted one adds its own lease, bound to the peer.
  It replaces no other: the identifier was not in use.\<close>

lemma sim_request_entries:
  assumes "ours_or_old cfg old ids (fst (rs_agent s))"
    and "fst (sim_exchange cfg (RequestLease q) s) = Inr response"
  shows "ours_or_old cfg old
    (case response of LeaseGranted v \<Rightarrow> insert (lv_lease_id v) ids | _ \<Rightarrow> ids)
    (fst (rs_agent (snd (sim_exchange cfg (RequestLease q) s))))"
proof (cases "\<exists>v. response = LeaseGranted v")
  case True
  then obtain v where v: "response = LeaseGranted v" by blast
  then obtain obs l ls1 now reply_now where obs: "authorizable (sc_peer cfg) = Some obs"
    and cap: "issue_reserving_capacity (sc_handler cfg) (agent_time cfg now) (provenance_for q obs)
           (fst (rs_agent s)) = (Inr l, ls1)"
    and vl: "lv_lease_id v = cl_id l"
    and st: "fst (rs_agent (snd (sim_exchange cfg (RequestLease q) s))) = state_insert l ls1"
    using sim_grant [of cfg q s v] assms(2)
    by (metis lease_view.select_convs(1))
  have "ls_leases ls1 = ls_leases (prune (agent_time cfg now) (fst (rs_agent s)))"
    using cap by (auto simp: issue_cap_Inr)
  moreover have "prov_context (cl_origin l) = obs"
    using issue_cap_counter_next [OF cap] by (simp add: provenance_for_def)
  ultimately show ?thesis
    using assms(1) set_update_subset [of "cl_id l" l "ls_leases ls1"] obs
    by (fastforce simp: v st vl ours_or_old_def prune_def)
next
  case False
  obtain now reply_now where
    "response = fst (handle (sc_handler cfg) (sc_backend cfg) (agent_time cfg now)
       (agent_time cfg reply_now) (RequestLease q) (sc_peer cfg) (rs_agent s))"
    and st: "rs_agent (snd (sim_exchange cfg (RequestLease q) s)) =
      snd (snd (handle (sc_handler cfg) (sc_backend cfg) (agent_time cfg now)
        (agent_time cfg reply_now) (RequestLease q) (sc_peer cfg) (rs_agent s)))"
    using sim_exchange_reachable [OF assms(2)] by metis
  then have "set (ls_leases (fst (rs_agent (snd (sim_exchange cfg (RequestLease q) s))))) \<subseteq>
      set (ls_leases (fst (rs_agent s)))"
    using False lease_answer_not_granted [of "sc_handler cfg" "sc_backend cfg" "agent_time cfg now"
        "agent_time cfg reply_now" q "sc_peer cfg" "rs_agent s"]
    by (simp add: st handle_state handle_response)
  then show ?thesis
    using ours_or_old_mono [OF assms(1)] False by (auto split: agent_response.splits)
qed

text \<open>An agent that is never out of reach for all three attempts of a release, whose answers to lease
  requests arrive, and that can tell the process of the peer from others. It may be out of reach
  otherwise, and its answers to releases may be lost.\<close>

definition dependable :: "'b sim_config \<Rightarrow> bool" where
  "dependable cfg \<longleftrightarrow>
     (\<forall>t. sc_unreachable cfg t = None \<or> sc_unreachable cfg (t + 1 + 100 * 10 ^ 6) = None \<or>
        sc_unreachable cfg (t + 2 + 300 * 10 ^ 6) = None) \<and>
     (\<forall>q t. sc_lost cfg (RequestLease q) t = None) \<and>
     (\<forall>obs. authorizable (sc_peer cfg) = Some obs \<longrightarrow>
        compare_process (ec_workload obs) (ec_workload obs) = Same \<and>
        compare_executable (ec_workload obs) (ec_workload obs) = Same)"

lemma dependable_peer:
  "dependable cfg \<Longrightarrow> authorizable (sc_peer cfg) = Some obs \<Longrightarrow>
     compare_process (ec_workload obs) (ec_workload obs) = Same \<and>
     compare_executable (ec_workload obs) (ec_workload obs) = Same"
  by (simp add: dependable_def)

lemma sim_exchange_unreached:
  "sc_unreachable cfg (rs_clock s) = Some e \<Longrightarrow>
     sim_exchange cfg request s = (Inl e, s\<lparr>rs_clock := rs_clock s + 1\<rparr>)"
  by (simp add: sim_exchange_def)

lemma release_drops:
  assumes "state_ok ls" and "ours_or_old cfg old ids ls" and "dependable cfg"
  shows "ours_or_old cfg old (ids - {lid})
      (fst (snd (handle_release_lease ops now \<lparr>rr_lease_id = lid\<rparr> (sc_peer cfg) (ls, b))))"
proof (cases "holder_may_release ls now lid (sc_peer cfg)")
  case True
  then have "fst (snd (handle_release_lease ops now \<lparr>rr_lease_id = lid\<rparr> (sc_peer cfg) (ls, b))) =
      removed_and_revoked lid (prune now ls)"
    by (simp add: release_equation [OF assms(1)] Let_def split_beta)
  then show ?thesis
    using assms(2)
    by (auto simp: ours_or_old_def removed_and_revoked_def AList.delete_eq prune_def)
next
  case False
  let ?ls' = "fst (snd (handle_release_lease ops now \<lparr>rr_lease_id = lid\<rparr> (sc_peer cfg) (ls, b)))"
  have ls': "?ls' = (if authorizable (sc_peer cfg) = None then ls else prune now ls)"
    using False by (simp add: release_equation [OF assms(1)] split: option.splits)
  have "False" if "(lid, l) \<in> set (ls_leases (prune now ls))"
    and obs: "authorizable (sc_peer cfg) = Some (prov_context (cl_origin l))" for l
  proof -
    have "state_get (prune now ls) lid = Some l"
      using that(1) state_ok_keys [OF state_ok_prune [OF assms(1)]] by (simp add: state_get_def map_of_iff_mem)
    then have "state_get ls lid = Some l \<and> now < cl_expires_at l"
      using state_get_prune [OF state_ok_keys [OF assms(1)]] by simp
    then show False
      using False obs dependable_peer [OF assms(3) obs] by (simp add: holder_may_release_def)
  qed
  then show ?thesis
    using assms(2) unfolding ls' by (fastforce simp: ours_or_old_def prune_def)
qed

text \<open>A release that reaches the agent drops the lease, whether or not its answer arrives.\<close>

lemma sim_release_entries:
  assumes "state_ok (fst (rs_agent s))" and "ours_or_old cfg old ids (fst (rs_agent s))" and "dependable cfg"
  shows "ours_or_old cfg old (if sc_unreachable cfg (rs_clock s) = None then ids - {lid} else ids)
      (fst (rs_agent (snd (sim_exchange cfg (ReleaseLease \<lparr>rr_lease_id = lid\<rparr>) s))))"
proof (cases "sc_unreachable cfg (rs_clock s)")
  case None
  obtain ls b where agent: "rs_agent s = (ls, b)" by fastforce
  obtain a i d where lag: "sc_lag cfg (rs_clock s) = (a, i, d)" by (metis prod_cases3)
  have "rs_agent (snd (sim_exchange cfg (ReleaseLease \<lparr>rr_lease_id = lid\<rparr>) s)) =
      snd (handle_release_lease (sc_backend cfg) (agent_time cfg (rs_clock s + a)) \<lparr>rr_lease_id = lid\<rparr>
        (sc_peer cfg) (ls, b))"
    by (simp add: sim_exchange_def None lag agent handle_state Let_def split_beta)
  then show ?thesis
    using release_drops [OF _ _ assms(3)] assms(1,2) by (simp add: None agent)
next
  case (Some e)
  then show ?thesis using assms(2) by (simp add: sim_exchange_unreached)
qed

section \<open>The whole run\<close>

lemma run_ok_exchange:
  assumes "run_ok cfg old ids w"
  shows "state_ok (agent_of (snd (do_exchange (sim_ops cfg) request w))) \<and>
    counter_timely cfg (rw_outer (snd (do_exchange (sim_ops cfg) request w)))"
  using sim_exchange_ok [of "rw_outer w" cfg request] assms
  by (simp add: do_exchange_def agent_of_def run_ok_def)

lemma run_ok_mono: "run_ok cfg old ids w \<Longrightarrow> ids \<subseteq> ids' \<Longrightarrow> run_ok cfg old ids' w"
  by (fastforce simp: run_ok_def ours_or_old_def)

lemma run_ok_release_exchange:
  assumes "run_ok cfg old ids w" and "dependable cfg"
    and "do_exchange (sim_ops cfg) (ReleaseLease \<lparr>rr_lease_id = lid\<rparr>) w = (answer, w')"
  shows "run_ok cfg old (if sc_unreachable cfg (rs_clock (rw_outer w)) = None then ids - {lid} else ids) w'"
proof -
  have w': "w' = snd (do_exchange (sim_ops cfg) (ReleaseLease \<lparr>rr_lease_id = lid\<rparr>) w)"
    using assms(3) by simp
  show ?thesis
    using sim_release_entries [of "rw_outer w" cfg old ids lid] assms(1,2)
      run_ok_exchange [OF assms(1), of "ReleaseLease \<lparr>rr_lease_id = lid\<rparr>"]
    unfolding w' by (simp add: run_ok_def agent_of_def do_exchange_def)
qed

lemma attempt_cases:
  assumes "do_exchange ops (ReleaseLease \<lparr>rr_lease_id = lid\<rparr>) w = (answer, w1)"
  obtains "release_attempts ops lid (n # ns) w = w1"
  | w2 where "release_attempts ops lid (n # ns) w = release_attempts ops lid ns w2"
      and "w2 = w1 \<or> w2 = do_sleep ops (RELEASE_RETRY_BACKOFFS ! n) w1"
proof (cases "\<exists>outcome. answer = Inr (LeaseReleased outcome)")
  case True
  then show ?thesis using assms by (auto intro: that(1))
next
  case False
  show ?thesis
    by (rule that(2) [of "if n < length RELEASE_RETRY_BACKOFFS then do_sleep ops (RELEASE_RETRY_BACKOFFS ! n) w1 else w1"])
       (use assms False in \<open>simp_all split: sum.splits agent_response.splits\<close>)
qed

lemma run_ok_attempts:
  assumes "run_ok cfg old ids w" and "dependable cfg"
  shows "run_ok cfg old ids (release_attempts (sim_ops cfg) lid ns w)"
  using assms(1)
proof (induction ns arbitrary: w)
  case (Cons n ns)
  obtain answer w1 where ex: "do_exchange (sim_ops cfg) (ReleaseLease \<lparr>rr_lease_id = lid\<rparr>) w = (answer, w1)"
    by fastforce
  have "run_ok cfg old ids w1"
    by (rule run_ok_mono [OF run_ok_release_exchange [OF Cons.prems assms(2) ex]]) auto
  moreover from this have "run_ok cfg old ids (do_sleep (sim_ops cfg) d w1)" for d
    by (rule run_ok_quiet [OF quiet_steps(2)])
  ultimately show ?case
    using attempt_cases [OF ex, of n ns] Cons.IH by metis
qed simp

lemma run_ok_attempt_reached:
  assumes "run_ok cfg old ids w" and "dependable cfg"
    and "sc_unreachable cfg (rs_clock (rw_outer w)) = None"
  shows "run_ok cfg old (ids - {lid}) (release_attempts (sim_ops cfg) lid (n # ns) w)"
proof -
  obtain answer w1 where ex: "do_exchange (sim_ops cfg) (ReleaseLease \<lparr>rr_lease_id = lid\<rparr>) w = (answer, w1)"
    by fastforce
  have "run_ok cfg old (ids - {lid}) w1"
    using run_ok_release_exchange [OF assms(1,2) ex] assms(3) by simp
  moreover from this have "run_ok cfg old (ids - {lid}) (do_sleep (sim_ops cfg) d w1)" for d
    by (rule run_ok_quiet [OF quiet_steps(2)])
  ultimately show ?thesis
    using attempt_cases [OF ex, of n ns] run_ok_attempts [OF _ assms(2)] by metis
qed

text \<open>An attempt that fails is followed by the next one after its pause.\<close>

lemma attempt_unreached:
  assumes "sc_unreachable cfg (rs_clock (rw_outer w)) \<noteq> None" and "n < length RELEASE_RETRY_BACKOFFS"
  obtains w' where "release_attempts (sim_ops cfg) lid (n # ns) w = release_attempts (sim_ops cfg) lid ns w'"
    and "rs_clock (rw_outer w') = rs_clock (rw_outer w) + 1 + RELEASE_RETRY_BACKOFFS ! n"
    and "quiet w w'"
proof -
  obtain e where e: "sc_unreachable cfg (rs_clock (rw_outer w)) = Some e" using assms(1) by blast
  show ?thesis
    by (rule that [of "do_sleep (sim_ops cfg) (RELEASE_RETRY_BACKOFFS ! n)
        (snd (do_exchange (sim_ops cfg) (ReleaseLease \<lparr>rr_lease_id = lid\<rparr>) w))"])
       (simp_all add: do_exchange_def sim_exchange_unreached [OF e] split_beta assms(2) do_sleep_def quiet_def)
qed

lemma run_ok_release:
  assumes "run_ok cfg old ids w" and "dependable cfg"
  shows "run_ok cfg old (ids - {lid}) (release (sim_ops cfg) lid w)"
proof -
  let ?t = "rs_clock (rw_outer w)"
  have backoffs: "RELEASE_RETRY_BACKOFFS ! 0 = 100 * 10 ^ 6" "RELEASE_RETRY_BACKOFFS ! 1 = 200 * 10 ^ 6"
    "length RELEASE_RETRY_BACKOFFS = 2"
    by (simp_all add: RELEASE_RETRY_BACKOFFS_def)
  have release: "release (sim_ops cfg) lid w = release_attempts (sim_ops cfg) lid [0, 1, 2] w"
    by (simp add: release_def backoffs upt_rec numeral_2_eq_2)
  show ?thesis
  proof (cases "sc_unreachable cfg ?t = None")
    case True
    then show ?thesis unfolding release by (rule run_ok_attempt_reached [OF assms])
  next
    case False
    then obtain w1 where w1: "release (sim_ops cfg) lid w = release_attempts (sim_ops cfg) lid [1, 2] w1"
      "rs_clock (rw_outer w1) = ?t + 1 + 100 * 10 ^ 6" "quiet w w1"
      using attempt_unreached [of cfg w 0 lid "[1, 2]"] unfolding release backoffs by auto
    have ok1: "run_ok cfg old ids w1" by (rule run_ok_quiet [OF w1(3) assms(1)])
    show ?thesis
    proof (cases "sc_unreachable cfg (rs_clock (rw_outer w1)) = None")
      case True
      then show ?thesis unfolding w1(1) by (rule run_ok_attempt_reached [OF ok1 assms(2)])
    next
      case still: False
      then obtain w2 where w2: "release (sim_ops cfg) lid w = release_attempts (sim_ops cfg) lid [2] w2"
        "rs_clock (rw_outer w2) = rs_clock (rw_outer w1) + 1 + 200 * 10 ^ 6" "quiet w1 w2"
        using attempt_unreached [of cfg w1 1 lid "[2]"] unfolding w1(1) backoffs by auto
      have "rs_clock (rw_outer w2) = ?t + 2 + 300 * 10 ^ 6" using w1(2) w2(2) by simp
      then have "sc_unreachable cfg (rs_clock (rw_outer w2)) = None"
        using False still w1(2) assms(2) unfolding dependable_def by metis
      then show ?thesis
        unfolding w2(1) by (rule run_ok_attempt_reached [OF run_ok_quiet [OF w2(3) ok1] assms(2)])
    qed
  qed
qed

lemma run_ok_request:
  assumes "run_ok cfg old ids w" and "dependable cfg"
    and "do_exchange (sim_ops cfg) (RequestLease q) w = (answer, w')"
  shows "run_ok cfg old
    (case answer of Inr (LeaseGranted v) \<Rightarrow> insert (lv_lease_id v) ids | _ \<Rightarrow> ids) w'"
proof (cases "fst (sim_exchange cfg (RequestLease q) (rw_outer w))")
  case (Inl e)
  then obtain e' where "sc_unreachable cfg (rs_clock (rw_outer w)) = Some e'"
    using assms(2) by (auto simp: dependable_def sim_exchange_def Let_def split_beta split: option.splits)
  note unreached = sim_exchange_unreached [OF this, of "RequestLease q"]
  have "quiet w w'" "answer = Inl e'"
    using assms(3) by (auto simp: do_exchange_def effect_step_def unreached quiet_def)
  then show ?thesis using run_ok_quiet assms(1) by auto
next
  case r: (Inr response)
  have "answer = fst (do_exchange (sim_ops cfg) (RequestLease q) w)"
    and w': "w' = snd (do_exchange (sim_ops cfg) (RequestLease q) w)"
    using assms(3) by simp_all
  then have "answer = Inr response" using r by (simp add: do_exchange_def)
  moreover have "rw_outer w' = snd (sim_exchange cfg (RequestLease q) (rw_outer w))"
    by (simp add: w' do_exchange_def)
  ultimately show ?thesis
    using sim_request_entries [OF _ r, of old ids] run_ok_exchange [OF assms(1), of "RequestLease q"] assms(1)
    by (simp add: run_ok_def agent_of_def w' [symmetric])
qed

lemma run_ok_renew:
  assumes "run_ok cfg old {rn_lease_id renewal} w" and "dependable cfg"
    and "renew (sim_ops cfg) request renewal w = (renewal', w')"
  shows "run_ok cfg old {rn_lease_id renewal'} w'"
proof -
  obtain t w1 where now: "do_now (sim_ops cfg) w = (t, w1)" by fastforce
  obtain answer w2 where ex: "do_exchange (sim_ops cfg) (RequestLease request) w1 = (answer, w2)"
    by fastforce
  have "run_ok cfg old {rn_lease_id renewal} w1"
    using run_ok_quiet [OF quiet_steps(1) assms(1)] now by (metis snd_conv)
  note w2 = run_ok_request [OF this assms(2) ex]
  show ?thesis
  proof (cases "\<exists>v. answer = Inr (LeaseGranted v)")
    case True
    then obtain v where v: "answer = Inr (LeaseGranted v)" by blast
    have "run_ok cfg old ({lv_lease_id v, rn_lease_id renewal} - {rn_lease_id renewal})
        (release (sim_ops cfg) (rn_lease_id renewal) w2)"
      using w2 by (intro run_ok_release [OF _ assms(2)]) (simp add: v)
    then have "run_ok cfg old {lv_lease_id v} (release (sim_ops cfg) (rn_lease_id renewal) w2)"
      by (rule run_ok_mono) auto
    then show ?thesis using assms(3) by (auto simp: renew_def now ex v)
  next
    case False
    then show ?thesis
      using assms(3) w2 by (auto simp: renew_def now ex split: sum.splits agent_response.splits)
  qed
qed

lemma run_ok_supervise_loop:
  assumes "supervise_loop ops request child_pid renewal w = Some r" and "ops = sim_ops cfg"
    and "dependable cfg" and "run_ok cfg old {rn_lease_id renewal} w"
  shows "run_ok cfg old {} (snd r)"
  using assms
proof (induction rule: supervise_loop.raw_induct [rotated, consumes 1])
  case (1 loop ops request child_pid renewal w r)
  obtain st w1 where wait: "do_try_wait ops w = (st, w1)" by fastforce
  obtain now w2 where now: "do_now ops (forward_signals ops child_pid w1) = (now, w2)" by fastforce
  have q1: "quiet w w1" using quiet_steps(3) [of w cfg] wait 1(3) by simp
  have q2: "quiet w w2"
    using quiet_trans [OF q1 quiet_trans [OF quiet_forward quiet_steps(1)]] now 1(3) by (metis snd_conv)
  have released: "run_ok cfg old {} (release ops (rn_lease_id renewal) w')" if "quiet w w'" for w'
    using run_ok_release [OF run_ok_quiet [OF that 1(5)] 1(4), of "rn_lease_id renewal"] 1(3) by simp
  show ?case
  proof (cases "st = None \<and> now < rn_deadline renewal")
    case True
    obtain renewal' w3 where next_eq: "(if now \<ge> rn_renew_at renewal then renew ops request renewal w2
        else (renewal, w2)) = (renewal', w3)" by fastforce
    have "loop ops request child_pid renewal' (do_sleep ops POLL_INTERVAL w3) = Some r"
      using 1(2) True next_eq by (simp add: wait now)
    moreover have "run_ok cfg old {rn_lease_id renewal'} w3"
      using run_ok_renew [OF run_ok_quiet [OF q2 1(5)] 1(4)] next_eq run_ok_quiet [OF q2 1(5)] 1(3)
      by (auto split: if_splits)
    then have "run_ok cfg old {rn_lease_id renewal'} (do_sleep ops POLL_INTERVAL w3)"
      unfolding 1(3) by (rule run_ok_quiet [OF quiet_steps(2)])
    ultimately show ?thesis by (rule 1(1) [OF _ 1(3) 1(4)])
  next
    case False
    have "run_ok cfg old {} (release ops (rn_lease_id renewal) w3)"
      if "terminate_for_lapsed_authorization ops child_pid w2 = Some (st', w3)" for st' w3
      using released [OF quiet_trans [OF q2 quiet_terminate]] that unfolding 1(3) .
    then show ?thesis
      using 1(2) False released [OF q1] by (cases st) (auto simp: wait now bind_eq_Some_conv)
  qed
qed

lemma run_ok_launch_granted:
  assumes "launch_granted (sim_ops cfg) request invocation (lid, remaining, t0) w = Some (outcome, w')"
    and "dependable cfg" and "run_ok cfg old {lid} w"
  shows "run_ok cfg old {} w'"
proof -
  let ?ops = "sim_ops cfg"
  let ?install = "effect_step (ro_install ?ops) (\<lambda>r. [DidInstall r])"
  let ?spawn = "effect_step (ro_spawn ?ops (ri_program invocation) (ri_args invocation))
    (\<lambda>r. [DidSpawn (ri_program invocation) (ri_args invocation) r])"
  obtain ri w1 where install: "?install w = (ri, w1)" by fastforce
  obtain rs w2 where spawn: "?spawn w1 = (rs, w2)" by fastforce
  have "quiet w (snd (?install w))" "quiet w1 (snd (?spawn w1))"
    by (simp_all add: quiet_def)
  then have q: "quiet w w1" "quiet w w2" using install spawn quiet_trans by auto
  have released: "run_ok cfg old {} (do_teardown (release ?ops lid v))" if "quiet w v" for v
    using run_ok_release [OF run_ok_quiet [OF that assms(3)] assms(2), of lid]
    by (simp add: run_ok_quiet [OF quiet_steps(8)])
  have supervised: "run_ok cfg old {} (do_teardown w3)"
    if "supervise ?ops request lid remaining t0 child_pid w2 = Some (out, w3)" for child_pid out w3
    using run_ok_supervise_loop [OF that [unfolded supervise_def] refl assms(2), of old]
      run_ok_quiet [OF q(2) assms(3)] run_ok_quiet [OF quiet_steps(8)] by simp
  show ?thesis
    using assms(1) released [OF q(1)] released [OF q(2)] supervised
    by (auto simp: launch_granted_def install spawn bind_eq_Some_conv split: sum.splits)
qed

text \<open>The initial request, whose answer the launch reads.\<close>

lemma request_initial_granted:
  assumes "request_initial_lease ops error_text q w = (Inr (lid, remaining, t0), w')"
  obtains v w1 where "do_now ops w = (t0, w1)"
    and "do_exchange ops (RequestLease q) w1 = (Inr (LeaseGranted v), w')"
    and "lid = lv_lease_id v" and "remaining = lv_remaining v"
  using assms
  by (fastforce simp: request_initial_lease_def split: prod.splits sum.splits agent_response.splits)

lemma run_ok_request_initial:
  assumes "request_initial_lease (sim_ops cfg) error_text q w = (a, w')"
    and "dependable cfg" and "run_ok cfg old {} w"
  shows "run_ok cfg old (case a of Inl _ \<Rightarrow> {} | Inr (lid, _, _) \<Rightarrow> {lid}) w'"
proof -
  obtain t0 w1 where now: "do_now (sim_ops cfg) w = (t0, w1)" by fastforce
  obtain answer w2 where ex: "do_exchange (sim_ops cfg) (RequestLease q) w1 = (answer, w2)" by fastforce
  have "run_ok cfg old {} w1"
    using run_ok_quiet [OF quiet_steps(1) assms(3)] now by (metis snd_conv)
  from run_ok_request [OF this assms(2) ex] show ?thesis
    using assms(1) by (auto simp: request_initial_lease_def now ex split: sum.splits agent_response.splits)
qed

lemma launch_run_cases:
  assumes "launch_run ops texts loaded client invocation w = Some (outcome, w')"
  obtains (no_request) "quiet w w'" "set (rw_trace w') \<subseteq> set (rw_trace w) \<union> {DidEstablish, DidTeardown}"
  | (refused) profile failure w1 where "loaded = Inr profile"
      "request_initial_lease ops (lt_client texts)
         \<lparr>lr_resource = pf_resource profile, lr_action = pf_action profile\<rparr>
         (w\<lparr>rw_trace := rw_trace w @ [DidEstablish]\<rparr>) = (Inl failure, w1)" "w' = do_teardown w1"
  | (granted) profile grant w1 where "loaded = Inr profile"
      "request_initial_lease ops (lt_client texts)
         \<lparr>lr_resource = pf_resource profile, lr_action = pf_action profile\<rparr>
         (w\<lparr>rw_trace := rw_trace w @ [DidEstablish]\<rparr>) = (Inr grant, w1)"
      "launch_granted ops \<lparr>lr_resource = pf_resource profile, lr_action = pf_action profile\<rparr>
         invocation grant w1 = Some (outcome, w')"
proof (cases loaded)
  case (Inl e)
  then show ?thesis using assms no_request by (auto simp: launch_run_def)
next
  case (Inr profile)
  note loaded = Inr
  show ?thesis
  proof (cases client)
    case (Inl e)
    then show ?thesis
      using assms no_request by (auto simp: launch_run_def loaded null_context_def quiet_def do_teardown_def)
  next
    case (Inr c)
    obtain a w1 where "request_initial_lease ops (lt_client texts)
         \<lparr>lr_resource = pf_resource profile, lr_action = pf_action profile\<rparr>
         (w\<lparr>rw_trace := rw_trace w @ [DidEstablish]\<rparr>) = (a, w1)" by fastforce
    then show ?thesis
      using assms refused [OF loaded] granted [OF loaded]
      by (cases a) (auto simp: launch_run_def loaded Inr null_context_def Let_def)
  qed
qed

lemma state_get_inserted: "state_get (state_insert l ls) (cl_id l) = Some l"
  by (simp add: state_get_def)

text \<open>A deadline counted from a time before the request ends no later than the lease.\<close>

lemma deadline_within_lease:
  assumes "t0 \<le> reply_now" and "agent_time cfg reply_now < e"
  shows "agent_time cfg (safe_deadline t0 (unat e - unat (agent_time cfg reply_now))) \<le> e"
proof -
  have e: "unat e < 2 ^ 64" using unsigned_less [of e] by simp
  have deadline: "safe_deadline t0 d \<le> t0 + d" for d
    using safe_deadline_bounds [of t0 d] by auto
  have lt: "unat (agent_time cfg reply_now) < unat e"
    using assms(2) by (simp add: word_less_nat_alt)
  then have "min (reply_now - sc_base cfg) (2 ^ 64 - 1) < unat e"
    by (simp only: agent_time_def unat_agent_clock_now)
  then have "reply_now - sc_base cfg < unat e"
    and reply: "unat (agent_time cfg reply_now) = reply_now - sc_base cfg"
    using e by (auto simp only: agent_time_def unat_agent_clock_now min_def split: if_splits)
  then have "safe_deadline t0 (unat e - unat (agent_time cfg reply_now)) - sc_base cfg \<le> unat e"
    using deadline [of "unat e - unat (agent_time cfg reply_now)"] assms(1) by linarith
  then show ?thesis
    by (simp add: word_le_nat_alt agent_time_def [of cfg "safe_deadline _ _"] unat_agent_clock_now
        min.coboundedI1)
qed

lemma granted_deadline:
  assumes "fst (sim_exchange cfg (RequestLease q) s) = Inr (LeaseGranted v)" and "t0 \<le> rs_clock s"
  shows "\<exists>l. state_get (fst (rs_agent (snd (sim_exchange cfg (RequestLease q) s)))) (lv_lease_id v) = Some l \<and>
    agent_time cfg (safe_deadline t0 (lv_remaining v)) \<le> cl_expires_at l"
proof -
  obtain obs l ls1 now reply_now where "v = \<lparr>lv_lease_id = cl_id l,
              lv_remaining = unat (cl_expires_at l) - unat (agent_time cfg reply_now)\<rparr>"
    and "agent_time cfg reply_now < cl_expires_at l"
    and "fst (rs_agent (snd (sim_exchange cfg (RequestLease q) s))) = state_insert l ls1"
    and "rs_clock s \<le> now" "now \<le> reply_now"
    using sim_grant [OF assms(1)] by metis
  then show ?thesis
    using deadline_within_lease [of t0 reply_now cfg "cl_expires_at l"] assms(2)
    by (simp add: state_get_inserted)
qed

section \<open>A concrete run\<close>

definition demo_config :: "fake_backend sim_config" where
  "demo_config =
     \<lparr>sc_handler = demo_handler, sc_backend = fake_ops, sc_peer = demo_peer, sc_base = 0,
      sc_unreachable = (\<lambda>_. None), sc_lost = (\<lambda>_ _. None), sc_lag = (\<lambda>_. (0, 10, 0)),
      sc_child = (\<lambda>_. Some (0, ExitedWith 3)), sc_dies = (\<lambda>_. 0), sc_signals = (\<lambda>_. []), sc_install = Inr (),
      sc_spawn = (\<lambda>_ _. Inr 5), sc_named_signal = (\<lambda>_. True), sc_pid_from_raw = Some\<rparr>"

definition demo_sim :: "fake_backend run_sim" where
  "demo_sim = \<lparr>rs_clock = 100, rs_agent = (demo_state, demo_backend), rs_delivered = []\<rparr>"

lemma demo_config_simps [simp]:
  "sc_handler demo_config = demo_handler" "sc_backend demo_config = fake_ops"
  "sc_peer demo_config = demo_peer" "sc_base demo_config = 0" "sc_unreachable demo_config t = None"
  "sc_lost demo_config r t = None" "sc_lag demo_config t = (0, 10, 0)"
  "sc_child demo_config sigs = Some (0, ExitedWith 3)" "sc_install demo_config = Inr ()"
  "sc_spawn demo_config program args = Inr 5"
  by (simp_all add: demo_config_def)

lemma demo_child_end [simp]: "child_end demo_config delivered = Some (0, ExitedWith 3)"
  by (simp add: child_end_def Let_def split: option.splits)

lemma demo_agent_time: "t < 2 ^ 64 \<Longrightarrow> agent_time demo_config t = of_nat t"
  by (simp add: agent_time_def agent_clock_now_def u64_try_from_def)

definition demo_view :: lease_view where
  "demo_view = \<lparr>lv_lease_id = cl_id demo_lease, lv_remaining = 20\<rparr>"

lemma demo_sim_grant:
  "sim_exchange demo_config (RequestLease demo_lease_request) demo_sim =
     (Inr (LeaseGranted demo_view),
      \<lparr>rs_clock = 111, rs_agent = (demo_granted_state, demo_backend), rs_delivered = []\<rparr>)"
  by (simp add: sim_exchange_def demo_sim_def demo_agent_time handle_def demo_grant demo_view_def)

lemma demo_dependable: "dependable demo_config"
  by (simp add: dependable_def demo_context_def compare_process_def compare_executable_def
      compare_evidence_def demo_workload_def)

lemma demo_sim_run:
  "\<exists>w'. launch_run (sim_ops demo_config) demo_texts (Inr demo_profile) (Inr []) demo_invocation
     \<lparr>rw_outer = demo_sim, rw_trace = []\<rparr> = Some (LaunchExit 3, w') \<and>
     DidSpawn ''train'' [''--fast''] (Inr 5) \<in> set (rw_trace w')"
proof -
  let ?ops = "sim_ops demo_config"
  let ?w0 = "\<lparr>rw_outer = demo_sim, rw_trace = [DidEstablish]\<rparr>"
  have request: "\<lparr>lr_resource = pf_resource demo_profile, lr_action = pf_action demo_profile\<rparr> = demo_lease_request"
    by (simp add: demo_profile_def)
  have "\<exists>w1. request_initial_lease ?ops (lt_client demo_texts) demo_lease_request ?w0 =
      (Inr (cl_id demo_lease, 20, 100), w1)"
    by (simp add: request_initial_lease_def do_now_def do_exchange_def effect_step_def
        demo_sim_grant demo_view_def) (simp add: demo_sim_def)
  then obtain w1 where "request_initial_lease ?ops (lt_client demo_texts) demo_lease_request ?w0 =
      (Inr (cl_id demo_lease, 20, 100), w1)" by blast
  moreover have "\<exists>w2. launch_granted ?ops demo_lease_request demo_invocation (cl_id demo_lease, 20, 100) w1 =
        Some (LaunchExit 3, do_teardown (release ?ops (cl_id demo_lease) w2)) \<and>
      DidSpawn ''train'' [''--fast''] (Inr 5) \<in> set (rw_trace w2)"
    by (intro exI [of _ "\<lparr>rw_outer = rw_outer w1, rw_trace = rw_trace w1 @
          [DidInstall (Inr ()), DidSpawn ''train'' [''--fast''] (Inr 5), DidExit (ExitedWith 3)]\<rparr>"])
       (simp add: launch_granted_def effect_step_def demo_invocation_def supervise_def
        supervise_loop.simps do_try_wait_def sim_try_wait_def)
  moreover have "set (rw_trace w2) \<subseteq> set (rw_trace (release ?ops (cl_id demo_lease) w2))" for w2
    using adds_release [of "cl_id demo_lease" w2 ?ops] by (auto simp: adds_def)
  ultimately show ?thesis
    by (fastforce simp: launch_run_def null_context_def request)
qed

section \<open>Properties\<close>

text \<open>C14. A governed run always ends, however the agent answers and whatever the child and the signals do, and
  it leaves no workload running: a workload that was spawned was seen to exit. The agent's clock, a
  64-bit count of nanoseconds, bounds the number of renewals it can grant, without a renewal the deadline
  passes, and a workload that neither ends by itself nor by the first signal is killed, so that the
  wait for it, which would block for as long as the child lives, returns.\<close>

theorem governed_run_returns:
  "\<exists>outcome w'. launch_run (sim_ops cfg) texts loaded client invocation \<lparr>rw_outer = s, rw_trace = []\<rparr> =
       Some (outcome, w') \<and>
     (\<forall>program args child_pid.
        DidSpawn program args (Inr child_pid) \<in> set (rw_trace w') \<and>
        pid_from_u32 (sim_ops cfg) child_pid \<noteq> None \<longrightarrow>
        (\<exists>status. DidExit status \<in> set (rw_trace w')))"
proof -
  obtain outcome w' where "launch_run (sim_ops cfg) texts loaded client invocation
      \<lparr>rw_outer = s, rw_trace = []\<rparr> = Some (outcome, w')"
    using run.launch_run_returns by (metis prod.exhaust)
  then show ?thesis using clocked.launch_sees_the_exit by blast
qed

lemma governed_run_returns_witness:
  "\<exists>w' status. launch_run (sim_ops demo_config) demo_texts (Inr demo_profile) (Inr []) demo_invocation
     \<lparr>rw_outer = demo_sim, rw_trace = []\<rparr> = Some (LaunchExit 3, w') \<and>
     DidSpawn ''train'' [''--fast''] (Inr 5) \<in> set (rw_trace w') \<and> DidExit status \<in> set (rw_trace w')"
proof -
  have "pid_from_u32 (sim_ops demo_config) 5 \<noteq> None"
    by (simp add: pid_from_u32_def sim_ops_def demo_config_def)
  then show ?thesis
    using demo_sim_run governed_run_returns [of demo_config demo_texts "Inr demo_profile" "Inr []"
        demo_invocation demo_sim]
    by fastforce
qed

text \<open>C4. Across both programs: a workload is spawned only if the agent released the kernel's view of the
  launching process for authorization, the policy of the agent allows that context the resource and
  action of the profile, and the backend reported enforcement as allowed.\<close>

theorem governed_workload_is_authorized:
  assumes "launch_run (sim_ops cfg) texts loaded client invocation \<lparr>rw_outer = s, rw_trace = []\<rparr>
      = Some (outcome, w')"
    and "DidSpawn program args r \<in> set (rw_trace w')"
  shows "\<exists>profile obs. loaded = Inr profile \<and> authorizable (sc_peer cfg) = Some obs \<and>
    (let request = prov_request (provenance_for
           \<lparr>lr_resource = pf_resource profile, lr_action = pf_action profile\<rparr> obs)
     in pd_effect (policy_evaluate (ah_policy (sc_handler cfg)) obs request) = Allow \<and>
        fst (bo_enforce (sc_backend cfg) (snd (rs_agent s)) request) = Inr Allowed)"
  using assms(1)
proof (cases rule: launch_run_cases)
  case no_request
  then show ?thesis using assms(2) by auto
next
  case (refused profile failure w1)
  then show ?thesis
    using assms(2) by (auto simp: request_initial_lease_def do_now_def do_exchange_def effect_step_def split_beta)
next
  case (granted profile grant w1)
  let ?q = "\<lparr>lr_resource = pf_resource profile, lr_action = pf_action profile\<rparr>"
  obtain lid remaining t0 where "grant = (lid, remaining, t0)" by (cases grant)
  then obtain v where "fst (sim_exchange cfg (RequestLease ?q) s) = Inr (LeaseGranted v)"
    using granted(2)
    by (auto elim!: request_initial_granted simp: do_now_def do_exchange_def effect_step_def split: prod.splits)
  from sim_grant [OF this] obtain obs l ls1 now where obs: "authorizable (sc_peer cfg) = Some obs"
    and cap: "issue_reserving_capacity (sc_handler cfg) (agent_time cfg now) (provenance_for ?q obs)
           (fst (rs_agent s)) = (Inr l, ls1)"
    and "fst (bo_enforce (sc_backend cfg) (snd (rs_agent s)) (prov_request (cl_origin l))) = Inr Allowed"
    by metis
  then show ?thesis
    using issue_cap_counter_next [OF cap] granted(1)
    by (auto simp: issue_cap_Inr issue_Inr_iff provenance_for_def)
qed

lemma governed_workload_is_authorized_witness:
  "pd_effect (policy_evaluate demo_policy demo_context demo_request) = Allow"
proof -
  obtain w' where "launch_run (sim_ops demo_config) demo_texts (Inr demo_profile) (Inr []) demo_invocation
      \<lparr>rw_outer = demo_sim, rw_trace = []\<rparr> = Some (LaunchExit 3, w')"
    and "DidSpawn ''train'' [''--fast''] (Inr 5) \<in> set (rw_trace w')"
    using demo_sim_run by blast
  from governed_workload_is_authorized [OF this] show ?thesis
    by (simp add: demo_profile_def demo_handler_def provenance_for_def demo_lease_request_def
        demo_request_def Let_def)
qed

text \<open>C5. A run leaves no lease behind if the agent recognises the launching process, its answers to lease
  requests arrive, and it is not out of reach for all three attempts of a release: when the run is over,
  whatever its outcome, the agent's store holds only leases it held before the run. The initial lease
  and every renewed one are gone, released or expired, even when the first attempts of a release do not
  reach the agent or their answers are lost. (Otherwise a lease stays until it expires.)\<close>

theorem run_leaves_no_lease:
  assumes "launch_run (sim_ops cfg) texts loaded client invocation \<lparr>rw_outer = s, rw_trace = []\<rparr>
      = Some (outcome, w')"
    and "dependable cfg" and "state_ok (fst (rs_agent s))" and "counter_timely cfg s"
  shows "set (ls_leases (fst (rs_agent (rw_outer w')))) \<subseteq> set (ls_leases (fst (rs_agent s)))"
proof -
  let ?w = "\<lparr>rw_outer = s, rw_trace = []\<rparr>"
  let ?old = "set (ls_leases (fst (rs_agent s)))"
  have start: "run_ok cfg ?old {} (?w\<lparr>rw_trace := tr\<rparr>)" for tr
    using assms(3,4) by (auto simp: run_ok_def agent_of_def ours_or_old_def)
  have "run_ok cfg ?old {} w'"
    using assms(1)
  proof (cases rule: launch_run_cases)
    case no_request
    then show ?thesis using run_ok_quiet [OF _ start [of "[]"]] by simp
  next
    case (refused profile failure w1)
    then show ?thesis
      using run_ok_request_initial [OF refused(2) assms(2) start] run_ok_quiet [OF quiet_steps(8)] by simp
  next
    case (granted profile grant w1)
    obtain lid remaining t0 where g: "grant = (lid, remaining, t0)" by (cases grant)
    have "run_ok cfg ?old {lid} w1"
      using run_ok_request_initial [OF granted(2) assms(2) start] by (simp add: g)
    then show ?thesis
      using run_ok_launch_granted [OF granted(3) [unfolded g] assms(2)] by simp
  qed
  then show ?thesis by (auto simp: run_ok_def agent_of_def ours_or_old_def)
qed

lemma run_leaves_no_lease_witness:
  "\<exists>w'. launch_run (sim_ops demo_config) demo_texts (Inr demo_profile) (Inr []) demo_invocation
     \<lparr>rw_outer = demo_sim, rw_trace = []\<rparr> = Some (LaunchExit 3, w') \<and>
     ls_leases (fst (rs_agent (rw_outer w'))) = []"
proof -
  obtain w' where run: "launch_run (sim_ops demo_config) demo_texts (Inr demo_profile) (Inr []) demo_invocation
      \<lparr>rw_outer = demo_sim, rw_trace = []\<rparr> = Some (LaunchExit 3, w')"
    using demo_sim_run by blast
  have "state_ok (fst (rs_agent demo_sim))" "counter_timely demo_config demo_sim"
    and "ls_leases (fst (rs_agent demo_sim)) = []"
    by (simp_all add: demo_sim_def counter_timely_def) (simp_all add: demo_state_def state_new_def issuer_new_def)
  with run_leaves_no_lease [OF run demo_dependable] show ?thesis using run by simp
qed

text \<open>C17. The launcher never believes in a lease for longer than the agent does. The deadline it sets from
  its own clock, for the initial lease and for a renewed one, is at most the expiry of the lease the
  agent stored under that identifier, whatever the delays of the exchange, and at
  most a year ahead.\<close>

theorem local_deadline_is_conservative:
  assumes "request_initial_lease (sim_ops cfg) error_text q w = (Inr (lid, remaining, t0), w') \<and>
      deadline = safe_deadline t0 remaining \<or>
    do_now (sim_ops cfg) w = (t0, w1) \<and>
      do_exchange (sim_ops cfg) (RequestLease q) w1 = (Inr (LeaseGranted v), w') \<and> lid = lv_lease_id v \<and>
      deadline = rn_deadline (fst (renew (sim_ops cfg) q renewal w))"
  shows "(\<exists>l. state_get (fst (rs_agent (rw_outer w'))) lid = Some l \<and>
      agent_time cfg deadline \<le> cl_expires_at l) \<and>
    t0 \<le> deadline \<and> deadline \<le> t0 + 365 * 24 * 3600 * 10 ^ 9"
proof -
  obtain v w1 where now: "do_now (sim_ops cfg) w = (t0, w1)"
    and ex: "do_exchange (sim_ops cfg) (RequestLease q) w1 = (Inr (LeaseGranted v), w')"
    and lid: "lid = lv_lease_id v" and deadline: "deadline = safe_deadline t0 (lv_remaining v)"
    using assms
  proof (elim disjE conjE)
    assume "request_initial_lease (sim_ops cfg) error_text q w = (Inr (lid, remaining, t0), w')"
      and "deadline = safe_deadline t0 remaining"
    then show ?thesis using that by (auto elim!: request_initial_granted)
  qed (simp add: that renew_def)
  have t0: "t0 \<le> rs_clock (rw_outer w1)"
    using now by (auto simp: do_now_def effect_step_def)
  have "fst (sim_exchange cfg (RequestLease q) (rw_outer w1)) = Inr (LeaseGranted v)"
    and "rw_outer w' = snd (sim_exchange cfg (RequestLease q) (rw_outer w1))"
    using ex by (auto simp: do_exchange_def effect_step_def split: prod.splits)
  then show ?thesis
    using granted_deadline [OF _ t0] safe_deadline_bounds [of t0 "lv_remaining v"]
    by (simp add: lid deadline MAX_LEASE_REMAINING_def)
qed

lemma local_deadline_is_conservative_witness:
  "safe_deadline 100 20 \<le> 100 + 365 * 24 * 3600 * 10 ^ 9"
proof -
  obtain w' where "request_initial_lease (sim_ops demo_config) (lt_client demo_texts) demo_lease_request
      \<lparr>rw_outer = demo_sim, rw_trace = []\<rparr> = (Inr (cl_id demo_lease, 20, 100), w')"
    by (simp add: request_initial_lease_def do_now_def do_exchange_def effect_step_def
        demo_sim_grant demo_view_def) (simp add: demo_sim_def)
  then show ?thesis
    using local_deadline_is_conservative [OF disjI1, of demo_config "lt_client demo_texts"] by blast
qed

end
