(* ===== verification/Eltanin_Leased_Run.thy ===== *)
theory Eltanin_Leased_Run
  imports Eltanin_Renewal Eltanin_Run_Agent
begin

text \<open>
  The renewals of \<open>Eltanin_Renewal\<close> against the agent of \<open>Eltanin_Run_Agent\<close>. A locale states when a
  predicate on the outside world and the trace is kept by a whole launch: when the single calls keep
  it. It is interpreted on the composed world, for the fact that the agent grants no identifier
  twice in a run, and the workload of such a run is never without a lease.
\<close>

section \<open>Invariants of a launch\<close>

locale launch_invariant =
  fixes ops :: "'w run_ops" and J :: "'w \<Rightarrow> run_effect list \<Rightarrow> bool"
  assumes now: "J s tr \<Longrightarrow> J (snd (ro_now ops s)) tr"
    and sleep: "J s tr \<Longrightarrow> J (ro_sleep ops d s) tr"
    and exchange: "J s tr \<Longrightarrow>
      J (snd (ro_exchange ops request s)) (tr @ [DidExchange request (fst (ro_exchange ops request s))])"
    and install: "J s tr \<Longrightarrow> J (snd (ro_install ops s)) tr"
    and spawn: "J s tr \<Longrightarrow> J (snd (ro_spawn ops program args s)) tr"
    and try_wait: "J s tr \<Longrightarrow> J (snd (ro_try_wait ops s)) tr"
    and wait: "J s tr \<Longrightarrow> ro_wait ops s = Some r \<Longrightarrow> J (snd r) tr"
    and poll: "J s tr \<Longrightarrow> J (snd (ro_signals ops s)) tr"
    and kill_process: "J s tr \<Longrightarrow> J (ro_kill_process ops pid signal s) tr"
    and kill_group: "J s tr \<Longrightarrow> J (ro_kill_group ops pgid forced s) tr"
    and child_kill: "J s tr \<Longrightarrow> J (ro_child_kill ops s) tr"
    and other_entry: "J s tr \<Longrightarrow> \<forall>request a. e \<noteq> DidExchange request a \<Longrightarrow> J s (tr @ [e])"
begin

abbreviation keeps :: "'w run_world \<Rightarrow> bool" where
  "keeps w \<equiv> J (rw_outer w) (rw_trace w)"

lemma effect_keeps:
  assumes "keeps w" and "J (snd (f (rw_outer w))) (rw_trace w)"
    and "entries (fst (f (rw_outer w))) = [] \<or>
      (\<exists>e. entries (fst (f (rw_outer w))) = [e] \<and> (\<forall>request a. e \<noteq> DidExchange request a))"
  shows "keeps (snd (effect_step f entries w))"
  using assms other_entry by auto

lemma do_now_keeps: "keeps w \<Longrightarrow> keeps (snd (do_now ops w))"
  unfolding do_now_def by (rule effect_keeps) (simp_all add: now)

lemma do_sleep_keeps: "keeps w \<Longrightarrow> keeps (do_sleep ops d w)"
  by (simp add: do_sleep_def sleep)

lemma do_exchange_keeps: "keeps w \<Longrightarrow> keeps (snd (do_exchange ops request w))"
  using exchange by (simp add: do_exchange_def)

lemma do_try_wait_keeps: "keeps w \<Longrightarrow> keeps (snd (do_try_wait ops w))"
  unfolding do_try_wait_def by (rule effect_keeps) (simp_all add: try_wait split: option.splits)

lemma do_wait_keeps: "keeps w \<Longrightarrow> do_wait ops w = Some r \<Longrightarrow> keeps (snd r)"
  unfolding do_wait_def
  by (auto split: option.splits intro!: effect_keeps dest: wait)

lemma do_kill_group_keeps: "keeps w \<Longrightarrow> keeps (do_kill_group ops pgid forced w)"
  by (simp add: do_kill_group_def kill_group other_entry)

lemma do_teardown_keeps: "keeps w \<Longrightarrow> keeps (do_teardown w)"
  by (simp add: do_teardown_def other_entry)

lemma forward_signals_keeps:
  assumes "keeps w"
  shows "keeps (forward_signals ops child_pid w)"
proof -
  have "keeps v \<Longrightarrow> keeps (fold (forward_to_child ops child_pid) signals v)" for signals v
    by (induction signals arbitrary: v)
       (auto simp: forward_to_child_def kill_process other_entry split: option.splits)
  moreover have "keeps (snd (effect_step (ro_signals ops) (\<lambda>_. []) w))"
    by (rule effect_keeps [OF assms]) (simp_all add: poll assms)
  ultimately show ?thesis by (simp add: forward_signals_def split_beta)
qed

lemma release_keeps: "keeps w \<Longrightarrow> keeps (release ops lid w)"
proof -
  have "keeps v \<Longrightarrow> keeps (release_attempts ops lid ns v)" for ns v
  proof (induction ns arbitrary: v)
    case (Cons attempt ns)
    obtain answer w1 where ex: "do_exchange ops (ReleaseLease \<lparr>rr_lease_id = lid\<rparr>) v = (answer, w1)"
      by fastforce
    have "keeps w1" using do_exchange_keeps [OF Cons.prems, of "ReleaseLease \<lparr>rr_lease_id = lid\<rparr>"] ex by simp
    then show ?case
      using Cons.IH do_sleep_keeps by (auto simp: ex split: sum.splits agent_response.splits)
  qed simp
  then show "keeps w \<Longrightarrow> keeps (release ops lid w)" by (simp add: release_def)
qed

lemma renew_keeps:
  assumes "keeps w"
  shows "keeps (snd (renew ops request renewal w))"
proof -
  obtain t w1 where clock: "do_now ops w = (t, w1)" by fastforce
  obtain answer w2 where ex: "do_exchange ops (RequestLease request) w1 = (answer, w2)" by fastforce
  have "keeps w2"
    using do_exchange_keeps [of w1 "RequestLease request"] do_now_keeps [OF assms] clock ex by simp
  then show ?thesis
    by (auto simp: renew_def clock ex release_keeps split: sum.splits agent_response.splits)
qed

lemma await_termination_keeps:
  assumes "await_termination ops' pgid deadline w = Some r" and "ops' = ops" and "keeps w"
  shows "keeps (snd r)"
  using assms
proof (induction rule: await_termination.raw_induct [rotated, consumes 1])
  case (1 await ops' pgid deadline w r)
  obtain t w1 where clock: "do_now ops w = (t, w1)" by fastforce
  obtain s w2 where wait: "do_try_wait ops w1 = (s, w2)" by fastforce
  have w1: "keeps w1" using do_now_keeps [OF 1(4)] clock by simp
  have w2: "keeps w2" using do_try_wait_keeps [OF w1] wait by simp
  show ?case
  proof (cases "t < deadline")
    case True
    then show ?thesis
      using 1(1) [of ops' pgid deadline "do_sleep ops POLL_INTERVAL w2" r] 1(2,3) w2 do_sleep_keeps
      by (cases s) (auto simp: clock wait)
  next
    case False
    let ?w3 = "do_kill_group ops pgid True w1"
    have "keeps (?w3\<lparr>rw_outer := ro_child_kill ops (rw_outer ?w3)\<rparr>)"
      using do_kill_group_keeps [OF w1] by (simp add: child_kill)
    moreover have "do_wait ops (?w3\<lparr>rw_outer := ro_child_kill ops (rw_outer ?w3)\<rparr>) = Some r"
      using 1(2,3) False by (simp add: clock Let_def)
    ultimately show ?thesis by (rule do_wait_keeps)
  qed
qed

lemma terminate_keeps:
  assumes "terminate_for_lapsed_authorization ops child_pid w = Some r" and "keeps w"
  shows "keeps (snd r)"
proof (cases "pid_from_u32 ops child_pid")
  case None
  then show ?thesis
    using assms do_try_wait_keeps [OF assms(2)]
    by (auto simp: terminate_for_lapsed_authorization_def)
next
  case (Some pgid)
  obtain t w1 where clock: "do_now ops (do_kill_group ops pgid False w) = (t, w1)" by fastforce
  have "keeps w1" using do_now_keeps [OF do_kill_group_keeps [OF assms(2)]] clock by (metis snd_conv)
  then show ?thesis
    using assms(1) by (auto simp: terminate_for_lapsed_authorization_def Some clock
        intro: await_termination_keeps [OF _ refl])
qed

lemma supervise_loop_keeps:
  assumes "supervise_loop ops' request child_pid renewal w = Some r" and "ops' = ops" and "keeps w"
  shows "keeps (snd r)"
  using assms
proof (induction rule: supervise_loop.raw_induct [rotated, consumes 1])
  case (1 loop ops' request child_pid renewal w r)
  note ops = 1(3)
  obtain st w1 where wait: "do_try_wait ops w = (st, w1)" by fastforce
  obtain t w2 where clock: "do_now ops (forward_signals ops child_pid w1) = (t, w2)" by fastforce
  have w1: "keeps w1" using do_try_wait_keeps [OF 1(4)] wait by simp
  have w2: "keeps w2" using do_now_keeps [OF forward_signals_keeps [OF w1]] clock by (metis snd_conv)
  show ?case
  proof (cases st)
    case (Some s)
    then show ?thesis using 1(2) w1 by (auto simp: ops wait release_keeps)
  next
    case None
    show ?thesis
    proof (cases "t \<ge> rn_deadline renewal")
      case True
      then show ?thesis
        using 1(2) None w2
        by (auto simp: ops wait clock bind_eq_Some_conv intro!: release_keeps dest: terminate_keeps [OF _ w2])
    next
      case False
      define next_state where "next_state =
        (if t \<ge> rn_renew_at renewal then renew ops request renewal w2 else (renewal, w2))"
      obtain renewal' w3 where next_eq: "next_state = (renewal', w3)" by fastforce
      have "keeps w3"
        using w2 renew_keeps [OF w2, of request renewal] next_eq
        by (auto simp: next_state_def split: if_splits)
      moreover have "loop ops' request child_pid renewal' (do_sleep ops POLL_INTERVAL w3) = Some r"
        using 1(2) None False next_eq unfolding ops by (simp add: wait clock next_state_def)
      ultimately show ?thesis
        using 1(1) ops do_sleep_keeps by blast
    qed
  qed
qed

lemma launch_granted_keeps:
  assumes "launch_granted ops request invocation granted w = Some (outcome, w')" and "keeps w"
  shows "keeps w'"
proof -
  let ?program = "ri_program invocation" and ?args = "ri_args invocation"
  obtain lid remaining t0 where granted: "granted = (lid, remaining, t0)" by (cases granted)
  obtain ri w1 where installed: "effect_step (ro_install ops) (\<lambda>r. [DidInstall r]) w = (ri, w1)"
    by fastforce
  have w1: "keeps w1"
    using effect_keeps [OF assms(2), of "ro_install ops" "\<lambda>r. [DidInstall r]"] installed install assms(2) by simp
  obtain rs w2 where spawned: "effect_step (ro_spawn ops ?program ?args) (\<lambda>r. [DidSpawn ?program ?args r]) w1 = (rs, w2)"
    by fastforce
  have w2: "keeps w2"
    using effect_keeps [OF w1, of "ro_spawn ops ?program ?args" "\<lambda>r. [DidSpawn ?program ?args r]"]
      spawned spawn w1 by simp
  show ?thesis
    using assms(1) w1 w2
    by (auto simp: launch_granted_def granted installed spawned supervise_def bind_eq_Some_conv
        intro!: do_teardown_keeps release_keeps dest!: supervise_loop_keeps [OF _ refl]
        split: sum.splits)
qed

lemma launch_run_keeps:
  assumes "launch_run ops texts loaded client invocation w = Some (outcome, w')" and "keeps w"
  shows "keeps w'"
proof -
  let ?w0 = "w\<lparr>rw_trace := rw_trace w @ [DidEstablish]\<rparr>"
  have w0: "keeps ?w0" using assms(2) by (simp add: other_entry)
  have initial: "keeps (snd (request_initial_lease ops (lt_client texts) q ?w0))" for q
    using do_exchange_keeps [OF do_now_keeps [OF w0]]
    by (simp add: request_initial_lease_def split_beta)
  show ?thesis
  proof (cases "\<exists>profile path. loaded = Inr profile \<and> client = Inr path")
    case False
    then have "w' = w \<or> w' = do_teardown ?w0"
      using assms(1) by (cases loaded; cases client) (auto simp: launch_run_def null_context_def)
    then show ?thesis using assms(2) do_teardown_keeps [OF w0] by auto
  next
    case True
    then obtain profile path where loaded: "loaded = Inr profile" "client = Inr path" by blast
    let ?request = "\<lparr>lr_resource = pf_resource profile, lr_action = pf_action profile\<rparr>"
    obtain r w1 where first: "request_initial_lease ops (lt_client texts) ?request ?w0 = (r, w1)"
      by fastforce
    have w1: "keeps w1" using initial [of ?request] first by simp
    note run = assms(1) [unfolded launch_run_def loaded null_context_def Let_def, simplified,
        unfolded first, simplified]
    show ?thesis
    proof (cases r)
      case (Inl failure)
      then show ?thesis using run do_teardown_keeps [OF w1] by simp
    next
      case (Inr granted)
      then show ?thesis using run launch_granted_keeps [OF _ w1] by simp
    qed
  qed
qed

end

section \<open>No identifier is granted twice in a run\<close>

definition unrepeated :: "'b sim_config \<Rightarrow> 'b run_sim \<Rightarrow> run_effect list \<Rightarrow> bool" where
  "unrepeated cfg s tr \<longleftrightarrow>
     state_ok (fst (rs_agent s)) \<and> counter_timely cfg s \<and> distinct (grants tr) \<and>
     (\<forall>lid\<in>set (grants tr). lid_sequence lid < li_next_sequence (ls_issuer (fst (rs_agent s))))"

lemma unrepeated_later:
  "unrepeated cfg s tr \<Longrightarrow> rs_agent s' = rs_agent s \<Longrightarrow> rs_clock s \<le> rs_clock s' \<Longrightarrow> unrepeated cfg s' tr"
  by (auto simp: unrepeated_def counter_timely_def)

text \<open>The counter of the agent does not go back in an exchange, and a grant takes the next number.\<close>

abbreviation agent_next :: "'b run_sim \<Rightarrow> u64" where
  "agent_next s \<equiv> li_next_sequence (ls_issuer (fst (rs_agent s)))"

lemma next_after_issue:
  assumes "issue_reserving_capacity h (agent_time cfg now) prov (fst (rs_agent s)) = (Inr l, ls1)"
    and "counter_timely cfg s" and "rs_clock s \<le> now"
  shows "agent_next s < li_next_sequence (ls_issuer ls1)"
  using timely_room(1) [OF assms] issue_cap_counter_next [OF assms(1)]
  by (simp add: counter_room_def word_less_nat_alt unat_u64_Suc)

lemma sim_exchange_next:
  assumes "counter_timely cfg s"
  shows "agent_next s \<le> agent_next (snd (sim_exchange cfg request s))"
proof (cases "sc_unreachable cfg (rs_clock s)")
  case (Some e)
  then show ?thesis by (simp add: sim_exchange_def)
next
  case None
  obtain a i b where lag: "sc_lag cfg (rs_clock s) = (a, i, b)" by (metis prod_cases3)
  let ?now = "rs_clock s + a"
  let ?h = "sc_handler cfg" and ?ops = "sc_backend cfg"
  have s': "rs_agent (snd (sim_exchange cfg request s)) = snd (snd (handle ?h ?ops (agent_time cfg ?now)
    (agent_time cfg (?now + i)) request (sc_peer cfg) (rs_agent s)))"
    by (simp add: sim_exchange_def None lag Let_def split_beta)
  show ?thesis
  proof (cases request)
    case (RequestLease q)
    show ?thesis
    proof (cases "authorizable (sc_peer cfg)")
      case None
      then show ?thesis unfolding s' by (simp add: RequestLease handle_state handle_request_lease_def)
    next
      case (Some obs)
      show ?thesis
      proof (cases rule: issue_cap_cases [of ?h "agent_time cfg ?now" "provenance_for q obs" "fst (rs_agent s)"])
        case (fail f)
        then show ?thesis unfolding s' by (simp add: RequestLease handle_state handle_request_lease_def Some)
      next
        case (issued l)
        from next_after_issue [OF this assms] show ?thesis
          unfolding s' by (simp add: RequestLease handle_state handle_request_lease_def Some issued Let_def split_beta)
      qed
    qed
  next
    case (ReleaseLease q)
    have "li_next_sequence (ls_issuer (fst (snd (handle_release_lease ?ops now q peer st)))) =
        li_next_sequence (ls_issuer (fst st))" for now peer st
      by (simp add: handle_release_lease_def Let_def split_beta split: option.splits)
    then show ?thesis unfolding s' by (simp add: ReleaseLease handle_state)
  next
    case AgentStatus
    then show ?thesis unfolding s' by (simp add: AgentStatus handle_state)
  qed
qed

lemma unrepeated_exchange:
  assumes "unrepeated cfg s tr"
  shows "unrepeated cfg (snd (sim_exchange cfg request s))
    (tr @ [DidExchange request (fst (sim_exchange cfg request s))])"
proof -
  let ?a = "fst (sim_exchange cfg request s)" and ?s' = "snd (sim_exchange cfg request s)"
  have timely: "counter_timely cfg s" using assms by (simp add: unrepeated_def)
  have ok: "state_ok (fst (rs_agent ?s')) \<and> counter_timely cfg ?s'"
    using sim_exchange_ok [of s cfg request] assms by (simp add: unrepeated_def)
  have later: "agent_next s \<le> agent_next ?s'" by (rule sim_exchange_next [OF timely])
  have new: "agent_next s \<le> lid_sequence lid \<and> lid_sequence lid < agent_next ?s' \<and>
      grant_of (DidExchange request ?a) = [lid]"
    if lid: "lid \<in> set (grant_of (DidExchange request ?a))" for lid
  proof -
    from lid obtain q v where request: "request = RequestLease q" "?a = Inr (LeaseGranted v)"
      and v: "lid = lv_lease_id v"
      by (cases "DidExchange request ?a" rule: grant_of.cases) auto
    obtain obs l ls1 now where
      issued: "issue_reserving_capacity (sc_handler cfg) (agent_time cfg now) (provenance_for q obs)
           (fst (rs_agent s)) = (Inr l, ls1)"
      and "lv_lease_id v = cl_id l" "fst (rs_agent ?s') = state_insert l ls1" "rs_clock s \<le> now"
      using sim_grant [of cfg q s v] request by (metis lease_view.select_convs(1))
    then show ?thesis
      using next_after_issue [OF issued timely] issue_cap_counter_next [OF issued] request v by simp
  qed
  have old: "lid_sequence lid < agent_next s" if "lid \<in> set (grants tr)" for lid
    using assms that by (simp add: unrepeated_def)
  show ?thesis
  proof (cases "grant_of (DidExchange request ?a)")
    case Nil
    then show ?thesis
      using assms ok later old by (auto simp: unrepeated_def intro: less_le_trans)
  next
    case (Cons lid lids)
    then have lid: "agent_next s \<le> lid_sequence lid" "lid_sequence lid < agent_next ?s'"
      "grant_of (DidExchange request ?a) = [lid]"
      using new [of lid] by auto
    then have "lid \<notin> set (grants tr)" using old [of lid] by auto
    then show ?thesis
      using assms ok later old lid by (auto simp: unrepeated_def intro: less_le_trans)
  qed
qed

interpretation fresh: launch_invariant "sim_ops cfg" "unrepeated cfg" for cfg
proof unfold_locales
  fix e :: run_effect and s tr
  assume "unrepeated cfg s tr" and "\<forall>request a. e \<noteq> DidExchange request a"
  then show "unrepeated cfg s (tr @ [e])"
    by (cases e rule: grant_of.cases) (simp_all add: unrepeated_def)
qed (auto simp: unrepeated_exchange intro: unrepeated_later dest: sim_wait_Some)

section \<open>Properties\<close>

text \<open>C6. Against the agent itself a running workload is never without a lease: in every run that spawns
  its workload the launcher holds, at every moment from the spawn to the release that ends the
  supervision, a lease the agent granted it and it has not asked to release. No assumption on the
  identifiers is left: the agent grants none twice.\<close>

theorem governed_workload_always_leased:
  assumes "launch_run (sim_ops cfg) texts loaded client invocation \<lparr>rw_outer = s, rw_trace = []\<rparr>
      = Some (outcome, w')"
    and "state_ok (fst (rs_agent s))" and "counter_timely cfg s"
    and "DidSpawn program args (Inr child) \<in> set (rw_trace w')"
  shows "\<exists>before pid running rel lid.
    rw_trace w' = before @ DidSpawn (ri_program invocation) (ri_args invocation) (Inr pid) #
      running @ rel @ [DidTeardown] \<and>
    rel \<noteq> [] \<and> list_all (is_release lid) rel \<and>
    (\<forall>n. held (before @ DidSpawn (ri_program invocation) (ri_args invocation) (Inr pid) #
             take n running) \<noteq> {})"
proof -
  have "unrepeated cfg (rw_outer w') (rw_trace w')"
    using fresh.launch_run_keeps [OF assms(1)] assms(2,3) by (simp add: unrepeated_def)
  then show ?thesis
    using launch_never_unleased [OF assms(1,4)] by (simp add: unrepeated_def)
qed

lemma governed_workload_always_leased_witness:
  "\<exists>w' before pid running.
     launch_run (sim_ops demo_config) demo_texts (Inr demo_profile) (Inr []) demo_invocation
       \<lparr>rw_outer = demo_sim, rw_trace = []\<rparr> = Some (LaunchExit 3, w') \<and>
     (\<forall>n. held (before @ DidSpawn ''train'' [''--fast''] (Inr pid) # take n running) \<noteq> {})"
proof -
  obtain w' where run: "launch_run (sim_ops demo_config) demo_texts (Inr demo_profile) (Inr []) demo_invocation
      \<lparr>rw_outer = demo_sim, rw_trace = []\<rparr> = Some (LaunchExit 3, w')"
    and spawned: "DidSpawn ''train'' [''--fast''] (Inr 5) \<in> set (rw_trace w')"
    using demo_sim_run by blast
  have start: "state_ok (fst (rs_agent demo_sim))" "counter_timely demo_config demo_sim"
    by (simp_all add: demo_sim_def counter_timely_def) (simp add: demo_state_def state_new_def issuer_new_def)
  from governed_workload_always_leased [OF run start spawned] show ?thesis
    using run by (auto simp: demo_invocation_def)
qed

end
