(* ===== verification/Eltanin_Signals.thy ===== *)
theory Eltanin_Signals
  imports Eltanin_Stages
begin

text \<open>
  Models \<open>crates/eltanin-cli/src/signals.rs\<close>: the signals the launcher takes, the thread that sends
  each of them down a channel, and the receiver the supervision polls. The numbers of the signals
  are those of the platform's C library, and what the signal-hook iterator yields, and when, is the
  outside world's: only registered signals come out of it. The channel is a queue the thread may
  append to during any call of the launcher. A launch of \<open>Eltanin_Supervise\<close> is run over such a
  queue, and what it forwards is compared with what was sent.
\<close>

section \<open>The channel\<close>

record libc_signals =
  sg_int :: int
  sg_term :: int
  sg_hup :: int
  sg_quit :: int
  sg_usr1 :: int
  sg_usr2 :: int

definition FORWARDED :: "libc_signals \<Rightarrow> int list" where
  "FORWARDED c = [sg_int c, sg_term c, sg_hup c, sg_quit c, sg_usr1 c, sg_usr2 c]"

text \<open>Whether the handlers are installed, what is in the channel, and everything sent so far.\<close>

record signal_state =
  ss_installed :: bool
  ss_queue :: "int list"
  ss_sent :: "int list"

definition signals_none :: signal_state where
  "signals_none = \<lparr>ss_installed = False, ss_queue = [], ss_sent = []\<rparr>"

text \<open>The registration of the signals is the first argument: what \<open>Signals::new\<close> answered.\<close>

definition install_signals ::
  "(string, unit) result \<Rightarrow> signal_state \<Rightarrow> (string, unit) result \<times> signal_state" where
  "install_signals registered ss =
     (case registered of
        Inl e \<Rightarrow> (Inl e, ss)
      | Inr _ \<Rightarrow> (Inr (), \<lparr>ss_installed = True, ss_queue = [], ss_sent = []\<rparr>))"

definition send_signal :: "libc_signals \<Rightarrow> int \<Rightarrow> signal_state \<Rightarrow> signal_state" where
  "send_signal c signal ss =
     (if ss_installed ss \<and> signal \<in> set (FORWARDED c)
      then ss\<lparr>ss_queue := ss_queue ss @ [signal], ss_sent := ss_sent ss @ [signal]\<rparr>
      else ss)"

definition try_iter :: "signal_state \<Rightarrow> int list \<times> signal_state" where
  "try_iter ss = (ss_queue ss, ss\<lparr>ss_queue := []\<rparr>)"

section \<open>A launcher with a channel\<close>

text \<open>\<open>arrive\<close> has the signals that arrive while a call takes one state of the outside world to
  another.\<close>

definition with_signals ::
  "libc_signals \<Rightarrow> ('w \<Rightarrow> 'w \<Rightarrow> int list) \<Rightarrow> ('w \<Rightarrow> 'a \<times> 'w) \<Rightarrow> 'w \<times> signal_state \<Rightarrow>
     'a \<times> 'w \<times> signal_state" where
  "with_signals c arrive f s =
     (let (a, w) = f (fst s)
      in (a, (w, fold (send_signal c) (arrive (fst s) w) (snd s))))"

definition channel_ops ::
  "libc_signals \<Rightarrow> ('w \<Rightarrow> 'w \<Rightarrow> int list) \<Rightarrow> 'w run_ops \<Rightarrow> ('w \<times> signal_state) run_ops" where
  "channel_ops c arrive base =
     (let during = (\<lambda>f s. snd (with_signals c arrive (\<lambda>w. ((), f w)) s))
      in \<lparr>ro_now = with_signals c arrive (ro_now base),
          ro_sleep = (\<lambda>d. during (ro_sleep base d)),
          ro_exchange = (\<lambda>request. with_signals c arrive (ro_exchange base request)),
          ro_install = (\<lambda>s.
            let (registered, w) = ro_install base (fst s);
                (r, ss) = install_signals registered (snd s)
            in (r, (w, fold (send_signal c) (arrive (fst s) w) ss))),
          ro_spawn = (\<lambda>program args. with_signals c arrive (ro_spawn base program args)),
          ro_try_wait = with_signals c arrive (ro_try_wait base),
          ro_wait = (\<lambda>s.
            case ro_wait base (fst s) of
              None \<Rightarrow> None
            | Some r \<Rightarrow> Some (with_signals c arrive (\<lambda>_. r) s)),
          ro_signals = (\<lambda>s.
            let (signals, ss) = try_iter (snd s); w = snd (ro_signals base (fst s))
            in (signals, (w, fold (send_signal c) (arrive (fst s) w) ss))),
          ro_kill_process = (\<lambda>pid signal. during (ro_kill_process base pid signal)),
          ro_kill_group = (\<lambda>pgid forced. during (ro_kill_group base pgid forced)),
          ro_child_kill = during (ro_child_kill base),
          ro_named_signal = ro_named_signal base,
          ro_pid_from_raw = ro_pid_from_raw base\<rparr>)"

section \<open>What the supervision relies on\<close>

text \<open>The signals forwarded in a trace.\<close>

definition forwarded :: "run_effect list \<Rightarrow> int list" where
  "forwarded tr = concat (map (\<lambda>e. case e of DidForward _ signal \<Rightarrow> [signal] | _ \<Rightarrow> []) tr)"

lemma forwarded_simps [simp]:
  "forwarded [] = []"
  "forwarded (tr @ es) = forwarded tr @ forwarded es"
  "forwarded (e # es) = (case e of DidForward _ signal \<Rightarrow> [signal] | _ \<Rightarrow> []) @ forwarded es"
  by (simp_all add: forwarded_def)

text \<open>The processes they were forwarded to.\<close>

definition targets :: "run_effect list \<Rightarrow> int set" where
  "targets tr = {pid. \<exists>signal. DidForward pid signal \<in> set tr}"

lemma targets_simps [simp]:
  "targets [] = {}" "targets (tr @ es) = targets tr \<union> targets es"
  "targets (e # es) = (case e of DidForward pid _ \<Rightarrow> {pid} | _ \<Rightarrow> {}) \<union> targets es"
  by (auto simp: targets_def split: run_effect.splits)

text \<open>A queue of signals under the calls of a launcher: no call but the poll takes from it, the poll
  takes all of it in order, and nothing is sent before the installation.\<close>

locale signal_queue =
  fixes ops :: "'w run_ops" and installed :: "'w \<Rightarrow> bool" and queue sent :: "'w \<Rightarrow> int list"
    and registered :: "int set" and extends :: "'w \<Rightarrow> 'w \<Rightarrow> bool"
  assumes extends_iff: "extends w w' \<longleftrightarrow>
      (\<exists>new. (installed w' \<longleftrightarrow> installed w) \<and> (\<not> installed w \<longrightarrow> new = []) \<and>
         set new \<subseteq> registered \<and> queue w' = queue w @ new \<and> sent w' = sent w @ new)"
    and now: "extends w (snd (ro_now ops w))"
    and sleep: "extends w (ro_sleep ops d w)"
    and exchange: "extends w (snd (ro_exchange ops request w))"
    and spawn: "extends w (snd (ro_spawn ops program args w))"
    and try_wait: "extends w (snd (ro_try_wait ops w))"
    and wait: "ro_wait ops w = Some r \<Longrightarrow> extends w (snd r)"
    and kill_process: "extends w (ro_kill_process ops pid signal w)"
    and kill_group: "extends w (ro_kill_group ops pgid forced w)"
    and child_kill: "extends w (ro_child_kill ops w)"
    and install: "\<lbrakk>\<not> installed w; queue w = []; sent w = []\<rbrakk> \<Longrightarrow>
      queue (snd (ro_install ops w)) = sent (snd (ro_install ops w)) \<and>
      set (sent (snd (ro_install ops w))) \<subseteq> registered"
    and poll: "\<exists>new. set new \<subseteq> registered \<and> fst (ro_signals ops w) = queue w \<and> queue (snd (ro_signals ops w)) = new \<and>
      sent (snd (ro_signals ops w)) = sent w @ new"
begin

abbreviation named :: "int list \<Rightarrow> int list" where
  "named \<equiv> filter (ro_named_signal ops)"

text \<open>What was forwarded, to the one process, and what is queued is what was sent, in order.\<close>

definition conserved :: "int \<Rightarrow> 'w run_world \<Rightarrow> bool" where
  "conserved pid w \<longleftrightarrow>
     forwarded (rw_trace w) @ named (queue (rw_outer w)) = named (sent (rw_outer w)) \<and>
     set (sent (rw_outer w)) \<union> set (queue (rw_outer w)) \<subseteq> registered \<and> targets (rw_trace w) \<subseteq> {pid}"

lemma conserved_extends:
  assumes "conserved pid w" and "extends (rw_outer w) (rw_outer w')"
    and "forwarded (rw_trace w') = forwarded (rw_trace w)" "targets (rw_trace w') = targets (rw_trace w)"
  shows "conserved pid w'"
  using assms by (auto simp: conserved_def extends_iff simp flip: append_assoc)

lemma do_now_conserved: "conserved pid w \<Longrightarrow> do_now ops w = (t, w') \<Longrightarrow> conserved pid w'"
  using conserved_extends [of pid w w'] now [of "rw_outer w"]
  by (metis do_now_def do_now_trace effect_step_simps(2) snd_conv)

lemma do_sleep_conserved: "conserved pid w \<Longrightarrow> conserved pid (do_sleep ops d w)"
  using conserved_extends [of pid w "do_sleep ops d w"] sleep by (simp add: do_sleep_def)

lemma do_exchange_conserved:
  assumes "conserved pid w" and "do_exchange ops request w = (a, w')"
  shows "conserved pid w'"
proof -
  have w': "w' = snd (do_exchange ops request w)" using assms(2) by simp
  show ?thesis
    unfolding w' by (rule conserved_extends [OF assms(1)]) (simp_all add: do_exchange_def exchange)
qed

lemma do_try_wait_conserved:
  assumes "conserved pid w" and "do_try_wait ops w = (s, w')"
  shows "conserved pid w'"
proof -
  have w': "w' = snd (do_try_wait ops w)" using assms(2) by simp
  show ?thesis
    unfolding w' by (rule conserved_extends [OF assms(1)])
      (simp_all add: do_try_wait_def try_wait split: option.splits)
qed

lemma do_wait_conserved: "conserved pid w \<Longrightarrow> do_wait ops w = Some r \<Longrightarrow> conserved pid (snd r)"
  by (erule conserved_extends) (auto simp: do_wait_def dest: wait split: option.splits)

lemma do_kill_group_conserved: "conserved pid w \<Longrightarrow> conserved pid (do_kill_group ops pgid forced w)"
  by (erule conserved_extends) (simp_all add: do_kill_group_def kill_group)

lemma forward_conserved:
  assumes "forwarded (rw_trace w) @ named (signals @ queue (rw_outer w)) = named (sent (rw_outer w)) \<and>
      set (sent (rw_outer w)) \<union> set (queue (rw_outer w)) \<subseteq> registered \<and> targets (rw_trace w) \<subseteq> {pid}"
    and "pid_from_u32 ops child_pid = Some pid"
  shows "conserved pid (fold (forward_to_child ops child_pid) signals w)"
  using assms(1)
proof (induction signals arbitrary: w)
  case Nil
  then show ?case by (simp add: conserved_def)
next
  case (Cons signal signals)
  show ?case
  proof (cases "ro_named_signal ops signal")
    case False
    then show ?thesis using Cons by (simp add: forward_to_child_def assms(2))
  next
    case True
    obtain new where "queue (ro_kill_process ops pid signal (rw_outer w)) = queue (rw_outer w) @ new"
      "sent (ro_kill_process ops pid signal (rw_outer w)) = sent (rw_outer w) @ new"
      "set new \<subseteq> registered"
      using kill_process [of "rw_outer w" pid signal] by (auto simp: extends_iff)
    moreover have "named (sent (rw_outer w)) =
        forwarded (rw_trace w) @ signal # named signals @ named (queue (rw_outer w))"
      using Cons.prems True by simp
    ultimately have "forwarded (rw_trace (forward_to_child ops child_pid signal w)) @
        named (signals @ queue (rw_outer (forward_to_child ops child_pid signal w))) =
        named (sent (rw_outer (forward_to_child ops child_pid signal w))) \<and>
        set (sent (rw_outer (forward_to_child ops child_pid signal w))) \<union> set (queue (rw_outer (forward_to_child ops child_pid signal w))) \<subseteq> registered \<and>
        targets (rw_trace (forward_to_child ops child_pid signal w)) \<subseteq> {pid}"
      using True Cons.prems by (simp add: forward_to_child_def assms(2))
    from Cons.IH [OF this] show ?thesis by simp
  qed
qed

lemma forward_signals_conserved:
  assumes "conserved pid w" and "pid_from_u32 ops child_pid = Some pid"
  shows "conserved pid (forward_signals ops child_pid w)"
proof -
  obtain signals w1 where polled: "effect_step (ro_signals ops) (\<lambda>_. []) w = (signals, w1)"
    by fastforce
  then have "signals = fst (ro_signals ops (rw_outer w))" "rw_outer w1 = snd (ro_signals ops (rw_outer w))"
    "rw_trace w1 = rw_trace w"
    by (metis effect_step_simps(1) fst_conv, metis effect_step_simps(2) snd_conv,
        metis append_Nil2 effect_step_simps(3) snd_conv)
  then have "forwarded (rw_trace w1) @ named (signals @ queue (rw_outer w1)) = named (sent (rw_outer w1)) \<and>
      set (sent (rw_outer w1)) \<union> set (queue (rw_outer w1)) \<subseteq> registered \<and> targets (rw_trace w1) \<subseteq> {pid}"
    using assms(1) poll [of "rw_outer w"] by (auto simp: conserved_def simp flip: append_assoc)
  from forward_conserved [OF this assms(2)] show ?thesis
    by (simp add: forward_signals_def polled)
qed

lemma release_attempts_conserved:
  "conserved pid w \<Longrightarrow> conserved pid (release_attempts ops lid ns w)"
proof (induction ns arbitrary: w)
  case (Cons attempt ns)
  obtain answer w1 where ex: "do_exchange ops (ReleaseLease \<lparr>rr_lease_id = lid\<rparr>) w = (answer, w1)"
    by fastforce
  have "conserved pid w1" using Cons.prems ex by (rule do_exchange_conserved)
  then show ?case
    using Cons.IH do_sleep_conserved
    by (auto simp: ex split: sum.splits agent_response.splits)
qed simp

lemma release_conserved: "conserved pid w \<Longrightarrow> conserved pid (release ops lid w)"
  by (simp add: release_def release_attempts_conserved)

lemma renew_conserved:
  assumes "conserved pid w"
  shows "conserved pid (snd (renew ops request renewal w))"
proof -
  obtain t w1 where clock: "do_now ops w = (t, w1)" by fastforce
  obtain answer w2 where ex: "do_exchange ops (RequestLease request) w1 = (answer, w2)" by fastforce
  have "conserved pid w2"
    using do_exchange_conserved [OF do_now_conserved [OF assms clock] ex] .
  then show ?thesis
    by (auto simp: renew_def clock ex release_conserved split: sum.splits agent_response.splits)
qed

lemma await_termination_conserved:
  assumes "await_termination ops' pgid deadline w = Some r" and "ops' = ops" and "conserved pid w"
  shows "conserved pid (snd r)"
  using assms
proof (induction rule: await_termination.raw_induct [rotated, consumes 1])
  case (1 await ops' pgid deadline w r)
  obtain t w1 where clock: "do_now ops w = (t, w1)" by fastforce
  obtain s w2 where wait: "do_try_wait ops w1 = (s, w2)" by fastforce
  have w1: "conserved pid w1" using 1(4) clock by (rule do_now_conserved)
  then have w2: "conserved pid w2" using wait by (rule do_try_wait_conserved)
  show ?case
  proof (cases "t < deadline")
    case True
    then show ?thesis
      using 1(1) [of ops' pgid deadline "do_sleep ops POLL_INTERVAL w2" r] 1(2,3) w2 do_sleep_conserved
      by (cases s) (auto simp: clock wait)
  next
    case False
    let ?w3 = "do_kill_group ops pgid True w1"
    have "conserved pid ?w3" by (rule do_kill_group_conserved [OF w1])
    then have "conserved pid (?w3\<lparr>rw_outer := ro_child_kill ops (rw_outer ?w3)\<rparr>)"
      by (erule_tac conserved_extends) (simp_all add: child_kill)
    moreover have "do_wait ops (?w3\<lparr>rw_outer := ro_child_kill ops (rw_outer ?w3)\<rparr>) = Some r"
      using 1(2,3) False by (simp add: clock Let_def)
    ultimately show ?thesis by (rule do_wait_conserved)
  qed
qed

lemma terminate_conserved:
  assumes "terminate_for_lapsed_authorization ops child_pid w = Some r" and "conserved pid w"
  shows "conserved pid (snd r)"
proof (cases "pid_from_u32 ops child_pid")
  case None
  then show ?thesis
    using assms do_try_wait_conserved [OF assms(2)]
    by (auto simp: terminate_for_lapsed_authorization_def) (metis prod.collapse)
next
  case (Some pgid)
  obtain t w1 where clock: "do_now ops (do_kill_group ops pgid False w) = (t, w1)" by fastforce
  have "conserved pid w1"
    using do_now_conserved [OF do_kill_group_conserved [OF assms(2)] clock] .
  then show ?thesis
    using assms(1) by (auto simp: terminate_for_lapsed_authorization_def Some clock
        intro: await_termination_conserved [OF _ refl])
qed

lemma supervise_loop_conserved:
  assumes "supervise_loop ops' request child_pid renewal w = Some r" and "ops' = ops" and "conserved pid w"
    and "pid_from_u32 ops child_pid = Some pid"
  shows "conserved pid (snd r)"
  using assms
proof (induction rule: supervise_loop.raw_induct [rotated, consumes 1])
  case (1 loop ops' request child_pid renewal w r)
  note ops = 1(3) and before = 1(4) and pid = 1(5)
  obtain st w1 where wait: "do_try_wait ops w = (st, w1)" by fastforce
  obtain t w2 where clock: "do_now ops (forward_signals ops child_pid w1) = (t, w2)" by fastforce
  have w1: "conserved pid w1" using before wait by (rule do_try_wait_conserved)
  have w2: "conserved pid w2"
    by (rule do_now_conserved [OF forward_signals_conserved [OF w1 pid] clock])
  show ?case
  proof (cases st)
    case (Some s)
    then show ?thesis using 1(2) w1 by (auto simp: ops wait release_conserved)
  next
    case None
    show ?thesis
    proof (cases "t \<ge> rn_deadline renewal")
      case True
      then show ?thesis
        using 1(2) None w2
        by (auto simp: ops wait clock bind_eq_Some_conv intro!: release_conserved dest: terminate_conserved [OF _ w2])
    next
      case False
      define next_state where "next_state =
        (if t \<ge> rn_renew_at renewal then renew ops request renewal w2 else (renewal, w2))"
      obtain renewal' w3 where next_eq: "next_state = (renewal', w3)" by fastforce
      have "conserved pid w3"
        using w2 renew_conserved [OF w2, of request renewal] next_eq
        by (auto simp: next_state_def split: if_splits)
      moreover have "loop ops' request child_pid renewal' (do_sleep ops POLL_INTERVAL w3) = Some r"
        using 1(2) None False next_eq unfolding ops by (simp add: wait clock next_state_def)
      ultimately show ?thesis
        using 1(1) ops pid do_sleep_conserved by blast
    qed
  qed
qed

text \<open>Before the handlers are installed nothing is sent; a launch that spawns has installed them.\<close>

definition silent :: "'w run_world \<Rightarrow> bool" where
  "silent w \<longleftrightarrow> \<not> installed (rw_outer w) \<and> queue (rw_outer w) = [] \<and> sent (rw_outer w) = [] \<and>
     forwarded (rw_trace w) = [] \<and> targets (rw_trace w) = {}"

lemma silent_extends:
  "silent w \<Longrightarrow> extends (rw_outer w) (rw_outer w') \<Longrightarrow> forwarded (rw_trace w') = forwarded (rw_trace w) \<Longrightarrow>
     targets (rw_trace w') = targets (rw_trace w) \<Longrightarrow> silent w'"
  by (auto simp: silent_def extends_iff)

lemma request_initial_lease_silent:
  assumes "silent w" and "request_initial_lease ops error_text request w = (r, w')"
  shows "silent w'"
proof -
  let ?w1 = "snd (do_now ops w)" and ?w2 = "snd (do_exchange ops (RequestLease request) (snd (do_now ops w)))"
  have "silent ?w1"
    by (rule silent_extends [OF assms(1)]) (simp_all add: do_now_def now)
  then have "silent ?w2"
    by (rule silent_extends) (simp_all add: do_exchange_def exchange)
  moreover have "w' = ?w2"
    using assms(2) by (auto simp: request_initial_lease_def split_beta)
  ultimately show ?thesis by simp
qed

text \<open>Every forward goes to the process a spawn of the launch answered with.\<close>

definition accounted :: "'w run_world \<Rightarrow> bool" where
  "accounted w \<longleftrightarrow>
     (\<exists>pid. conserved pid w) \<and>
     (\<forall>pid\<in>targets (rw_trace w). \<exists>program args child.
        DidSpawn program args (Inr child) \<in> set (rw_trace w) \<and> pid_from_u32 ops child = Some pid)"

lemma do_teardown_accounted: "accounted w \<Longrightarrow> accounted (do_teardown w)"
  by (auto simp: accounted_def conserved_def do_teardown_def)

lemma silent_accounted: "silent w \<Longrightarrow> accounted w"
  by (simp add: accounted_def conserved_def silent_def)

text \<open>With the handlers installed and nothing forwarded yet.\<close>

definition ready :: "'w run_world \<Rightarrow> bool" where
  "ready w \<longleftrightarrow> queue (rw_outer w) = sent (rw_outer w) \<and> set (sent (rw_outer w)) \<union> set (queue (rw_outer w)) \<subseteq> registered \<and>
     forwarded (rw_trace w) = [] \<and> targets (rw_trace w) = {}"

lemma ready_conserved: "ready w \<Longrightarrow> conserved pid w"
  by (simp add: ready_def conserved_def)

lemma ready_release: "ready w \<Longrightarrow> accounted (release ops lid w)"
  using release_conserved [OF ready_conserved, of w undefined lid] release_trace [of ops lid w]
  by (auto simp: accounted_def ready_def targets_def list_all_iff is_release_def)

lemma ready_extends:
  "ready w \<Longrightarrow> extends (rw_outer w) (rw_outer w') \<Longrightarrow> forwarded (rw_trace w') = [] \<Longrightarrow>
     targets (rw_trace w') = {} \<Longrightarrow> ready w'"
  by (auto simp: ready_def extends_iff)

lemma launch_granted_accounted:
  assumes "launch_granted ops request invocation granted w = Some (outcome, w')" and "silent w"
    and pids: "\<And>program args v child. fst (ro_spawn ops program args v) = Inr child \<Longrightarrow>
      pid_from_u32 ops child \<noteq> None"
  shows "accounted w'"
proof -
  let ?program = "ri_program invocation" and ?args = "ri_args invocation"
  obtain lid remaining t0 where granted: "granted = (lid, remaining, t0)" by (cases granted)
  obtain ri w1 where install: "effect_step (ro_install ops) (\<lambda>r. [DidInstall r]) w = (ri, w1)"
    by fastforce
  then have w1: "w1 = snd (effect_step (ro_install ops) (\<lambda>r. [DidInstall r]) w)" by simp
  have ready1: "ready w1"
    using assms(2) signal_queue.install [OF signal_queue_axioms, of "rw_outer w"]
    by (simp add: w1 silent_def ready_def)
  obtain rs w2 where spawned: "effect_step (ro_spawn ops ?program ?args) (\<lambda>r. [DidSpawn ?program ?args r]) w1 = (rs, w2)"
    by fastforce
  then have rs: "rs = fst (ro_spawn ops ?program ?args (rw_outer w1))"
    and w2: "w2 = snd (effect_step (ro_spawn ops ?program ?args) (\<lambda>r. [DidSpawn ?program ?args r]) w1)"
    by (metis effect_step_simps(1) fst_conv, simp)
  have ready2: "ready w2"
    by (rule ready_extends [OF ready1]) (use ready1 in \<open>simp_all add: w2 spawn ready_def\<close>)
  note run = assms(1) [unfolded launch_granted_def granted prod.case install]
  consider (failed) e where "ri = Inl e" | (no_child) e where "ri = Inr ()" "rs = Inl e"
    | (child) child_pid where "ri = Inr ()" "rs = Inr child_pid"
    by (cases ri; cases rs) auto
  then show ?thesis
  proof cases
    case failed
    then show ?thesis using run ready_release [OF ready1] do_teardown_accounted by auto
  next
    case no_child
    then show ?thesis using run ready_release [OF ready2] do_teardown_accounted by (auto simp: spawned)
  next
    case child
    then obtain ended w3 where sup: "supervise ops request lid remaining t0 child_pid w2 = Some (ended, w3)"
      and w': "w' = do_teardown w3"
      using run by (auto simp: spawned bind_eq_Some_conv)
    obtain pid where pid: "pid_from_u32 ops child_pid = Some pid"
      using pids [of ?program ?args "rw_outer w1" child_pid] rs child by auto
    have "conserved pid w3"
      using supervise_loop_conserved [OF sup [unfolded supervise_def] refl ready_conserved [OF ready2] pid]
      by simp
    moreover have "DidSpawn ?program ?args (Inr child_pid) \<in> set (rw_trace w2)"
      using child(2) rs by (simp add: w2)
    then have "DidSpawn ?program ?args (Inr child_pid) \<in> set (rw_trace w3)"
      using supervise_loop_staged [OF sup [unfolded supervise_def]] by (auto simp: staged_from_def)
    ultimately have "accounted w3"
      unfolding accounted_def using pid by (metis conserved_def empty_iff insert_iff subsetD)
    then show ?thesis by (simp add: w' do_teardown_accounted)
  qed
qed

lemma launch_run_accounted:
  assumes "launch_run ops texts loaded client invocation w = Some (outcome, w')" and "silent w"
    and pids: "\<And>program args v child. fst (ro_spawn ops program args v) = Inr child \<Longrightarrow>
      pid_from_u32 ops child \<noteq> None"
  shows "accounted w'"
proof (cases "\<exists>profile path. loaded = Inr profile \<and> client = Inr path")
  case False
  have "silent (w\<lparr>rw_trace := rw_trace w @ [DidEstablish]\<rparr>)"
    using assms(2) by (simp add: silent_def)
  then have "accounted w" "accounted (do_teardown (w\<lparr>rw_trace := rw_trace w @ [DidEstablish]\<rparr>))"
    using assms(2) by (simp_all add: silent_accounted do_teardown_accounted)
  then show ?thesis
    using False assms(1) by (cases loaded; cases client) (auto simp: launch_run_def null_context_def)
next
  case True
  then obtain profile path where loaded: "loaded = Inr profile" "client = Inr path" by blast
  let ?request = "\<lparr>lr_resource = pf_resource profile, lr_action = pf_action profile\<rparr>"
  let ?w0 = "w\<lparr>rw_trace := rw_trace w @ [DidEstablish]\<rparr>"
  obtain r w1 where initial: "request_initial_lease ops (lt_client texts) ?request ?w0 = (r, w1)"
    by fastforce
  have "silent w1"
    by (rule request_initial_lease_silent [OF _ initial]) (use assms(2) in \<open>simp add: silent_def\<close>)
  note run = assms(1) [unfolded launch_run_def loaded null_context_def Let_def, simplified,
      unfolded initial, simplified]
  show ?thesis
  proof (cases r)
    case (Inl failure)
    then show ?thesis
      using run \<open>silent w1\<close> by (auto simp: silent_accounted do_teardown_accounted)
  next
    case (Inr given)
    then show ?thesis
      using run launch_granted_accounted [OF _ \<open>silent w1\<close> pids] by simp
  qed
qed

end

section \<open>The channel is such a queue\<close>

text \<open>What a call adds to the channel.\<close>

definition channel_extends :: "libc_signals \<Rightarrow> 'w \<times> signal_state \<Rightarrow> 'w \<times> signal_state \<Rightarrow> bool" where
  "channel_extends c s s' \<longleftrightarrow>
     (\<exists>new. ss_installed (snd s') = ss_installed (snd s) \<and> (\<not> ss_installed (snd s) \<longrightarrow> new = []) \<and>
        set new \<subseteq> set (FORWARDED c) \<and> ss_queue (snd s') = ss_queue (snd s) @ new \<and>
        ss_sent (snd s') = ss_sent (snd s) @ new)"

lemma send_signals:
  "fold (send_signal c) signals ss =
     (if ss_installed ss
      then ss\<lparr>ss_queue := ss_queue ss @ filter (\<lambda>s. s \<in> set (FORWARDED c)) signals,
             ss_sent := ss_sent ss @ filter (\<lambda>s. s \<in> set (FORWARDED c)) signals\<rparr>
      else ss)"
  by (induction signals arbitrary: ss) (simp_all add: send_signal_def)

lemma with_signals_extends [simp]: "channel_extends c s (snd (with_signals c arrive f s))"
  by (auto simp: channel_extends_def with_signals_def send_signals split_beta Let_def)

lemma channel_ops_extends:
  "channel_extends c s (snd (ro_now (channel_ops c arrive base) s))"
  "channel_extends c s (ro_sleep (channel_ops c arrive base) d s)"
  "channel_extends c s (snd (ro_exchange (channel_ops c arrive base) request s))"
  "channel_extends c s (snd (ro_spawn (channel_ops c arrive base) program args s))"
  "channel_extends c s (snd (ro_try_wait (channel_ops c arrive base) s))"
  "ro_wait (channel_ops c arrive base) s = Some r \<Longrightarrow> channel_extends c s (snd r)"
  "channel_extends c s (ro_kill_process (channel_ops c arrive base) pid signal s)"
  "channel_extends c s (ro_kill_group (channel_ops c arrive base) pgid forced s)"
  "channel_extends c s (ro_child_kill (channel_ops c arrive base) s)"
  by (auto simp: channel_ops_def Let_def split: option.splits)

lemma channel_install:
  "\<lbrakk>\<not> ss_installed (snd s); ss_queue (snd s) = []; ss_sent (snd s) = []\<rbrakk> \<Longrightarrow>
   ss_queue (snd (snd (ro_install (channel_ops c arrive base) s))) =
     ss_sent (snd (snd (ro_install (channel_ops c arrive base) s))) \<and>
   set (ss_sent (snd (snd (ro_install (channel_ops c arrive base) s)))) \<subseteq> set (FORWARDED c)"
  by (auto simp: channel_ops_def Let_def split_beta install_signals_def send_signals split: sum.splits)

lemma channel_poll:
  "\<exists>new. set new \<subseteq> set (FORWARDED c) \<and>
     fst (ro_signals (channel_ops c arrive base) s) = ss_queue (snd s) \<and>
     ss_queue (snd (snd (ro_signals (channel_ops c arrive base) s))) = new \<and>
     ss_sent (snd (snd (ro_signals (channel_ops c arrive base) s))) = ss_sent (snd s) @ new"
  by (auto simp: channel_ops_def Let_def split_beta try_iter_def send_signals)

interpretation channel: signal_queue "channel_ops c arrive base" "\<lambda>s. ss_installed (snd s)"
  "\<lambda>s. ss_queue (snd s)" "\<lambda>s. ss_sent (snd s)" "set (FORWARDED c)" "channel_extends c"
  for c arrive and base :: "'w run_ops"
  by (unfold_locales; rule channel_extends_def channel_ops_extends channel_install channel_poll; assumption?)

section \<open>Properties\<close>

text \<open>A poll of the supervision forwards everything that is queued, in the order it was sent, to the
  child: what arrived between the installation and the spawn included.\<close>

lemma poll_forwards_everything:
  assumes "pid_from_u32 base child_pid = Some pid"
    and "\<forall>signal\<in>set (ss_queue (snd (rw_outer w))). ro_named_signal base signal"
  shows "rw_trace (forward_signals (channel_ops c arrive base) child_pid w) =
    rw_trace w @ map (DidForward pid) (ss_queue (snd (rw_outer w)))"
proof -
  have pid: "pid_from_u32 (channel_ops c arrive base) child_pid = Some pid"
    using assms(1) by (simp add: pid_from_u32_def channel_ops_def Let_def split: if_splits)
  have named: "ro_named_signal (channel_ops c arrive base) = ro_named_signal base"
    by (simp add: channel_ops_def Let_def)
  have "rw_trace (fold (forward_to_child (channel_ops c arrive base) child_pid) signals v) =
      rw_trace v @ map (DidForward pid) signals"
    if "\<forall>signal\<in>set signals. ro_named_signal base signal" for signals v
    using that by (induction signals arbitrary: v) (simp_all add: forward_to_child_def pid named)
  moreover have "fst (ro_signals (channel_ops c arrive base) (rw_outer w)) = ss_queue (snd (rw_outer w))"
    using channel_poll [of c arrive base "rw_outer w"] by blast
  ultimately show ?thesis
    using assms(2) by (simp add: forward_signals_def split_beta)
qed

text \<open>C18. No signal is lost, repeated or reordered on its way to the workload: when a launch is over,
  the signals it forwarded, followed by those still in the channel, are the signals the handlers
  took since their installation, in their order; each was forwarded to the process the spawn
  answered with. Signals that arrive before the spawn wait in the channel.\<close>

theorem signals_reach_the_workload:
  assumes "launch_run (channel_ops c arrive base) texts loaded client invocation
      \<lparr>rw_outer = (outer, signals_none), rw_trace = []\<rparr> = Some (outcome, w')"
    and "\<forall>program args v child. fst (ro_spawn base program args v) = Inr child \<longrightarrow>
      pid_from_u32 base child \<noteq> None"
    and "\<forall>signal\<in>set (FORWARDED c). ro_named_signal base signal"
  shows "forwarded (rw_trace w') @ ss_queue (snd (rw_outer w')) = ss_sent (snd (rw_outer w')) \<and>
    (\<forall>pid signal. DidForward pid signal \<in> set (rw_trace w') \<longrightarrow>
       (\<exists>program args child. DidSpawn program args (Inr child) \<in> set (rw_trace w') \<and>
          pid_from_u32 base child = Some pid))"
proof -
  let ?ops = "channel_ops c arrive base"
  have pid: "pid_from_u32 ?ops child = pid_from_u32 base child" for child
    by (simp add: pid_from_u32_def channel_ops_def Let_def)
  have named: "ro_named_signal ?ops = ro_named_signal base"
    by (simp add: channel_ops_def Let_def)
  have "fst (ro_spawn ?ops program args v) = fst (ro_spawn base program args (fst v))" for program args v
    by (simp add: channel_ops_def with_signals_def Let_def split_beta)
  then have "channel.accounted c arrive base w'"
    using channel.launch_run_accounted [OF assms(1)] assms(2)
    by (simp add: channel.silent_def signals_none_def pid)
  then obtain p where conserved: "channel.conserved c arrive base p w'"
    and forwards: "\<And>pid. pid \<in> targets (rw_trace w') \<Longrightarrow> \<exists>program args child.
      DidSpawn program args (Inr child) \<in> set (rw_trace w') \<and> pid_from_u32 base child = Some pid"
    by (auto simp: channel.accounted_def pid)
  have "forwarded (rw_trace w') @ filter (ro_named_signal base) (ss_queue (snd (rw_outer w'))) =
      filter (ro_named_signal base) (ss_sent (snd (rw_outer w')))"
    and "set (ss_sent (snd (rw_outer w'))) \<union> set (ss_queue (snd (rw_outer w'))) \<subseteq> set (FORWARDED c)"
    using conserved by (simp_all add: channel.conserved_def named)
  moreover from this(2) have "filter (ro_named_signal base) (ss_sent (snd (rw_outer w'))) = ss_sent (snd (rw_outer w'))"
    "filter (ro_named_signal base) (ss_queue (snd (rw_outer w'))) = ss_queue (snd (rw_outer w'))"
    using assms(3) by (auto simp: filter_id_conv)
  moreover have "pid \<in> targets (rw_trace w')" if "DidForward pid signal \<in> set (rw_trace w')" for pid signal
    using that by (auto simp: targets_def)
  ultimately show ?thesis using forwards by auto
qed

section \<open>A small run\<close>

text \<open>The clock counts the calls. SIGTERM arrives during the spawn, and the workload is seen to have
  exited at the second poll.\<close>

definition linux_signals :: libc_signals where
  "linux_signals = \<lparr>sg_int = 2, sg_term = 15, sg_hup = 1, sg_quit = 3, sg_usr1 = 10, sg_usr2 = 12\<rparr>"

definition sleepy_run_ops :: "nat run_ops" where
  "sleepy_run_ops =
     \<lparr>ro_now = (\<lambda>n. (n, n)), ro_sleep = (\<lambda>_. Suc),
      ro_exchange = (\<lambda>r n.
        (case r of
           RequestLease _ \<Rightarrow>
             Inr (LeaseGranted \<lparr>lv_lease_id = \<lparr>lid_issuer = ''agent'', lid_sequence = 0\<rparr>, lv_remaining = 30\<rparr>)
         | ReleaseLease _ \<Rightarrow> Inr (LeaseReleased Released)
         | AgentStatus \<Rightarrow> Inr (RespError Internal), n)),
      ro_install = (\<lambda>n. (Inr (), n)), ro_spawn = (\<lambda>_ _ n. (Inr 5, Suc n)),
      ro_try_wait = (\<lambda>n. (if n < 2 then None else Some (ExitedWith 3), n)), ro_wait = (\<lambda>n. Some (None, n)),
      ro_signals = (\<lambda>n. ([], n)), ro_kill_process = (\<lambda>_ _ n. n), ro_kill_group = (\<lambda>_ _ n. n),
      ro_child_kill = (\<lambda>n. n), ro_named_signal = (\<lambda>_. True),
      ro_pid_from_raw = (\<lambda>p. if p = 0 then None else Some p)\<rparr>"

definition early_sigterm :: "nat \<Rightarrow> nat \<Rightarrow> int list" where
  "early_sigterm n n' = (if n = 0 \<and> n' = 1 then [15] else [])"

definition early_trace :: "run_effect list" where
  "early_trace =
     [DidEstablish,
      DidExchange (RequestLease \<lparr>lr_resource = pf_resource demo_profile, lr_action = pf_action demo_profile\<rparr>)
        (Inr (LeaseGranted \<lparr>lv_lease_id = \<lparr>lid_issuer = ''agent'', lid_sequence = 0\<rparr>, lv_remaining = 30\<rparr>)),
      DidInstall (Inr ()), DidSpawn ''train'' [''--fast''] (Inr 5), DidForward 5 15, DidExit (ExitedWith 3),
      DidExchange (ReleaseLease \<lparr>rr_lease_id = \<lparr>lid_issuer = ''agent'', lid_sequence = 0\<rparr>\<rparr>)
        (Inr (LeaseReleased Released)),
      DidTeardown]"

lemma early_launch:
  "launch_run (channel_ops linux_signals early_sigterm sleepy_run_ops) demo_texts (Inr demo_profile)
     (Inr []) demo_invocation \<lparr>rw_outer = (0, signals_none), rw_trace = []\<rparr> =
   Some (LaunchExit 3,
     \<lparr>rw_outer = (2, \<lparr>ss_installed = True, ss_queue = [], ss_sent = [15]\<rparr>), rw_trace = early_trace\<rparr>)"
  by (simp add: launch_run_def null_context_def request_initial_lease_def do_now_def do_exchange_def
      effect_step_def launch_granted_def supervise_def supervise_loop.simps do_try_wait_def do_sleep_def
      release_def RELEASE_RETRY_BACKOFFS_def upt_rec do_teardown_def demo_invocation_def
      channel_ops_def with_signals_def sleepy_run_ops_def early_sigterm_def send_signals linux_signals_def
      signals_none_def install_signals_def try_iter_def FORWARDED_def forward_signals_def forward_to_child_def
      pid_from_u32_def safe_deadline_def instant_checked_add_def MAX_LEASE_REMAINING_def POLL_INTERVAL_def
      early_trace_def)

lemma signals_reach_the_workload_witness:
  "forwarded early_trace = [15] \<and> (\<exists>program args child. DidSpawn program args (Inr child) \<in> set early_trace)"
proof -
  have "\<forall>program args v child. fst (ro_spawn sleepy_run_ops program args v) = Inr child \<longrightarrow>
      pid_from_u32 sleepy_run_ops child \<noteq> None"
    and "\<forall>signal\<in>set (FORWARDED linux_signals). ro_named_signal sleepy_run_ops signal"
    by (auto simp: pid_from_u32_def sleepy_run_ops_def)
  from signals_reach_the_workload [OF early_launch this]
  have "forwarded early_trace = [15]" and "\<forall>pid signal. DidForward pid signal \<in> set early_trace \<longrightarrow>
      (\<exists>program args child. DidSpawn program args (Inr child) \<in> set early_trace)"
    unfolding run_world.simps snd_conv signal_state.simps by (simp, blast)
  moreover have "DidForward 5 15 \<in> set early_trace"
    by (simp add: early_trace_def)
  ultimately show ?thesis by blast
qed

end
