(* ===== verification/Eltanin_Profile_Text.thy ===== *)
theory Eltanin_Profile_Text
  imports Eltanin_Cli "HOL-Library.Sublist"
begin

text \<open>
  What the launcher prints of a profile it could not load: the texts of \<open>ProfileLoadError\<close> and
  \<open>display_home_relative\<close> of \<open>crates/eltanin-cli/src/profile.rs\<close>, and the conversions of the
  errors into launch failures of \<open>failure.rs\<close>. Of \<open>std::path\<close> they use \<open>components\<close>,
  \<open>strip_prefix\<close>, \<open>join\<close> and \<open>display\<close> on Unix, where a path is its bytes.
\<close>

section \<open>Paths and their components\<close>

datatype path_component = RootDir | CurDir | ParentDir | NormalComponent string

text \<open>The parts between the separators; the first part of a non-empty text ends at its first separator.\<close>

function (sequential) segments :: "string \<Rightarrow> string list" where
  "segments [] = []"
| "segments (x # xs) =
     (let c = takeWhile (\<lambda>ch. ch \<noteq> CHR ''/'') (x # xs)
      in c # segments (drop (Suc (length c)) (x # xs)))"
  by pat_completeness auto
termination by (relation "measure length") simp_all

definition parse_single_component :: "string \<Rightarrow> path_component option" where
  "parse_single_component c =
     (if c = [] \<or> c = ''.'' then None
      else if c = ''..'' then Some ParentDir
      else Some (NormalComponent c))"

definition has_root :: "string \<Rightarrow> bool" where
  "has_root p \<longleftrightarrow> p \<noteq> [] \<and> hd p = CHR ''/''"

definition include_cur_dir :: "string \<Rightarrow> bool" where
  "include_cur_dir p \<longleftrightarrow> p \<noteq> [] \<and> hd (segments p) = ''.''"

definition body_components :: "string \<Rightarrow> path_component list" where
  "body_components p = List.map_filter parse_single_component (segments p)"

definition path_components :: "string \<Rightarrow> path_component list" where
  "path_components p =
     (if has_root p then [RootDir] else if include_cur_dir p then [CurDir] else []) @ body_components p"

text \<open>The rest of a path after its first components, without the separators and the \<open>.\<close> parts around
  it, as \<open>Components::as_path\<close> cuts it.\<close>

function trim_left :: "string \<Rightarrow> string" where
  "trim_left p =
     (if p = [] then []
      else let c = takeWhile (\<lambda>ch. ch \<noteq> CHR ''/'') p
           in if parse_single_component c = None then trim_left (drop (Suc (length c)) p) else p)"
  by pat_completeness auto
termination by (relation "measure length") auto

declare trim_left.simps [simp del]

definition trim_right :: "string \<Rightarrow> string" where
  "trim_right p = rev (trim_left (rev p))"

fun skip_body :: "nat \<Rightarrow> string \<Rightarrow> string" where
  "skip_body 0 p = p"
| "skip_body (Suc n) p =
     (let p' = trim_left p; c = takeWhile (\<lambda>ch. ch \<noteq> CHR ''/'') p'
      in skip_body n (drop (Suc (length c)) p'))"

text \<open>Nothing skipped, the root or a leading \<open>.\<close> stays, and only the end is trimmed.\<close>

definition path_rest :: "nat \<Rightarrow> string \<Rightarrow> string" where
  "path_rest n p =
     (if n = 0
      then (let k = (if has_root p \<or> include_cur_dir p then 1 else 0) in take k p @ trim_right (drop k p))
      else trim_right (trim_left
        (if has_root p \<or> include_cur_dir p then skip_body (n - 1) (tl p) else skip_body n p)))"

definition path_strip_prefix :: "string \<Rightarrow> string \<Rightarrow> string option" where
  "path_strip_prefix base p =
     (if prefix (path_components base) (path_components p)
      then Some (path_rest (length (path_components base)) p) else None)"

section \<open>The texts\<close>

definition path_display :: "string \<Rightarrow> string" where
  "path_display p = concat (map utf8_encode (lossy_chars p))"

definition display_home_relative :: "os_string option \<Rightarrow> path_buf \<Rightarrow> string" where
  "display_home_relative home p =
     (case home of
        None \<Rightarrow> path_display p
      | Some h \<Rightarrow>
          (case path_strip_prefix h p of
             None \<Rightarrow> path_display p
           | Some rest \<Rightarrow> path_display (path_join ''~'' rest)))"

text \<open>The quoted form of a name and the text of an unsupported version are arguments.\<close>

fun profile_load_error_text ::
  "(string \<Rightarrow> string) \<Rightarrow> (unsupported_version \<Rightarrow> string) \<Rightarrow> os_string option \<Rightarrow>
     profile_load_error \<Rightarrow> string" where
  "profile_load_error_text debug version home NoSearchDir =
     ''no profile search directory: set ELTANIN_PROFILE_DIR, or HOME/XDG_CONFIG_HOME so one can be derived''"
| "profile_load_error_text debug version home (ProfileNotFound name p) =
     ''profile '' @ debug name @ '' not found at '' @ display_home_relative home p"
| "profile_load_error_text debug version home (ProfileIo p reason) =
     ''failed to read profile at '' @ display_home_relative home p @ '': '' @ reason"
| "profile_load_error_text debug version home (ProfileJson p reason) =
     ''profile at '' @ display_home_relative home p @ '' is not valid JSON: '' @ reason"
| "profile_load_error_text debug version home (ProfileVersion p source) =
     ''profile at '' @ display_home_relative home p @ '': '' @ version source"

section \<open>What the parts of a path are\<close>

lemma takeWhile_separator:
  "CHR ''/'' \<notin> set c \<Longrightarrow> takeWhile (\<lambda>ch. ch \<noteq> CHR ''/'') (c @ CHR ''/'' # b) = c"
  "CHR ''/'' \<notin> set c \<Longrightarrow> takeWhile (\<lambda>ch. ch \<noteq> CHR ''/'') c = c"
  by (induction c) auto

lemma path_cases:
  obtains (plain) "CHR ''/'' \<notin> set p" | (split) c b where "p = c @ CHR ''/'' # b" "CHR ''/'' \<notin> set c"
  by (meson split_list_first)

lemma parse_single_Nil [simp]: "parse_single_component [] = None"
  by (simp add: parse_single_component_def)

lemma segments_plain: "CHR ''/'' \<notin> set c \<Longrightarrow> segments c = (if c = [] then [] else [c])"
proof (cases c)
  case (Cons x xs)
  assume "CHR ''/'' \<notin> set c"
  then have "takeWhile (\<lambda>ch. ch \<noteq> CHR ''/'') (x # xs) = c"
    unfolding Cons by (rule takeWhile_separator)
  then have "segments (x # xs) = c # segments (drop (Suc (length c)) (x # xs))"
    by (simp only: segments.simps Let_def)
  then show ?thesis by (simp add: Cons del: takeWhile.simps)
qed simp

lemma segments_split: "CHR ''/'' \<notin> set c \<Longrightarrow> segments (c @ CHR ''/'' # b) = c # segments b"
proof -
  assume c: "CHR ''/'' \<notin> set c"
  obtain x xs where eq: "c @ CHR ''/'' # b = x # xs" by (cases "c @ CHR ''/'' # b") auto
  have "takeWhile (\<lambda>ch. ch \<noteq> CHR ''/'') (x # xs) = c"
    unfolding eq [symmetric] using c by (rule takeWhile_separator)
  then have "segments (x # xs) = c # segments (drop (Suc (length c)) (x # xs))"
    by (simp only: segments.simps Let_def)
  then show ?thesis unfolding eq [symmetric] by simp
qed

lemma body_components_simps:
  "body_components [] = []"
  "CHR ''/'' \<notin> set c \<Longrightarrow> body_components c = (case parse_single_component c of None \<Rightarrow> [] | Some k \<Rightarrow> [k])"
  "CHR ''/'' \<notin> set c \<Longrightarrow> body_components (c @ CHR ''/'' # b) =
     (case parse_single_component c of None \<Rightarrow> [] | Some k \<Rightarrow> [k]) @ body_components b"
  by (auto simp: body_components_def map_filter_def segments_plain segments_split
      parse_single_component_def)

lemma body_components_parts:
  "body_components (a @ CHR ''/'' # b) = body_components a @ body_components b"
proof (induction a rule: length_induct)
  case (1 a)
  show ?case
  proof (cases a rule: path_cases)
    case plain
    then show ?thesis by (simp add: body_components_simps)
  next
    case (split c d)
    then show ?thesis using 1 by (simp add: body_components_simps)
  qed
qed

lemma trim_left_Nil [simp]: "trim_left [] = []"
  by (subst trim_left.simps) simp

lemma trim_left_plain:
  "CHR ''/'' \<notin> set c \<Longrightarrow> trim_left c = (if parse_single_component c = None then [] else c)"
  by (subst trim_left.simps) (simp add: takeWhile_separator(2))

lemma trim_left_split:
  "CHR ''/'' \<notin> set c \<Longrightarrow>
     trim_left (c @ CHR ''/'' # b) =
       (if parse_single_component c = None then trim_left b else c @ CHR ''/'' # b)"
  using takeWhile_separator(1) [of c b] by (subst trim_left.simps) (simp add: Let_def)

lemma body_trim_left [simp]: "body_components (trim_left p) = body_components p"
proof (induction p rule: length_induct)
  case (1 p)
  show ?case
  proof (cases p rule: path_cases)
    case plain
    then show ?thesis by (auto simp: trim_left_plain body_components_simps)
  next
    case (split c b)
    then show ?thesis using 1 by (auto simp: trim_left_split body_components_simps)
  qed
qed

lemma parse_rev: "parse_single_component (rev c) = None \<longleftrightarrow> parse_single_component c = None"
  by (auto simp: parse_single_component_def rev_swap)

lemma body_trim_right [simp]: "body_components (trim_right p) = body_components p"
proof -
  have "body_components (rev (trim_left q)) = body_components (rev q)" for q
  proof (induction q rule: length_induct)
    case (1 q)
    show ?case
    proof (cases q rule: path_cases)
      case plain
      then show ?thesis
        using parse_rev [of q] by (auto simp: trim_left_plain body_components_simps)
    next
      case (split c b)
      have "body_components (rev q) = body_components (rev b) @ body_components (rev c)"
        by (simp add: split body_components_parts)
      moreover have "parse_single_component c = None \<Longrightarrow> body_components (rev c) = []"
        using split(2) parse_rev [of c] by (simp add: body_components_simps)
      ultimately show ?thesis using 1 split by (auto simp: trim_left_split)
    qed
  qed
  from this [of "rev p"] show ?thesis by (simp add: trim_right_def)
qed

lemma trim_left_cases:
  obtains (none) "trim_left p = []"
  | (last) c where "trim_left p = c" "CHR ''/'' \<notin> set c" "parse_single_component c \<noteq> None"
  | (more) c b where "trim_left p = c @ CHR ''/'' # b" "CHR ''/'' \<notin> set c"
      "parse_single_component c \<noteq> None"
proof -
  have "trim_left p = [] \<or>
      (\<exists>c. trim_left p = c \<and> CHR ''/'' \<notin> set c \<and> parse_single_component c \<noteq> None) \<or>
      (\<exists>c b. trim_left p = c @ CHR ''/'' # b \<and> CHR ''/'' \<notin> set c \<and> parse_single_component c \<noteq> None)"
  proof (induction p rule: length_induct)
    case (1 p)
    show ?case
    proof (cases p rule: path_cases)
      case plain
      then show ?thesis by (auto simp: trim_left_plain)
    next
      case (split c b)
      then show ?thesis using 1 by (cases "parse_single_component c") (auto simp: trim_left_split)
    qed
  qed
  then show thesis using none last more by blast
qed

lemma body_skip: "body_components (skip_body n p) = drop n (body_components p)"
proof (induction n arbitrary: p)
  case (Suc n)
  let ?p = "trim_left p"
  let ?rest = "drop (Suc (length (takeWhile (\<lambda>ch. ch \<noteq> CHR ''/'') ?p))) ?p"
  have "body_components ?rest = tl (body_components ?p)"
  proof (cases rule: trim_left_cases [of p])
    case (last c)
    then show ?thesis by (auto simp: takeWhile_separator body_components_simps)
  next
    case (more c b)
    then show ?thesis by (auto simp: takeWhile_separator body_components_simps)
  qed (simp add: body_components_simps)
  then show ?case by (simp add: Suc.IH Let_def drop_Suc)
qed simp

section \<open>What is displayed\<close>

lemma components_of_root: "has_root p \<Longrightarrow> body_components (tl p) = body_components p"
  using body_components_parts [of "[]" "tl p"] by (cases p) (auto simp: has_root_def body_components_simps)

lemma components_of_cur_dir: "include_cur_dir p \<Longrightarrow> body_components (tl p) = body_components p"
proof (cases p rule: path_cases)
  case plain
  then show "include_cur_dir p \<Longrightarrow> ?thesis"
    by (auto simp: include_cur_dir_def segments_plain body_components_simps parse_single_component_def)
next
  case (split c b)
  assume "include_cur_dir p"
  then have c: "c = ''.''" by (simp add: include_cur_dir_def split segments_split)
  have "body_components p = body_components c @ body_components b"
    unfolding split(1) by (rule body_components_parts)
  then show ?thesis
    using body_components_parts [of "[]" b] c
    by (simp add: split(1) body_components_simps parse_single_component_def)
qed

lemma no_root_trimmed: "\<not> has_root (trim_right (trim_left p))"
proof -
  have "\<exists>es. q = es @ trim_left q" for q
  proof (induction q rule: length_induct)
    case (1 q)
    show ?case
    proof (cases q rule: path_cases)
      case plain
      then show ?thesis by (simp add: trim_left_plain)
    next
      case (split c b)
      then obtain es where "b = es @ trim_left b" using 1 [rule_format, of b] by auto
      then have "q = (c @ CHR ''/'' # es) @ trim_left b" using split(1) by simp
      moreover have "trim_left q = trim_left b \<or> trim_left q = q"
        using split by (simp add: trim_left_split)
      ultimately show ?thesis by (metis append_Nil)
    qed
  qed
  then obtain es where "rev (trim_left p) = es @ trim_left (rev (trim_left p))" by blast
  then have "trim_left p = trim_right (trim_left p) @ rev es"
    by (metis rev_append rev_rev_ident trim_right_def)
  moreover have "\<not> has_root (trim_left p)"
    by (cases rule: trim_left_cases [of p])
       (auto simp: has_root_def hd_append parse_single_component_def dest: hd_in_set)
  ultimately show ?thesis by (metis has_root_def hd_append2 append_is_Nil_conv)
qed

text \<open>With a home directory that is not empty, a path under it is shown as \<open>~/\<close> and the components
  that remain below it; any other path is shown as it is.\<close>

lemma home_relative_sound:
  assumes "home \<noteq> []"
  shows "display_home_relative (Some home) p = path_display p \<and>
      \<not> prefix (path_components home) (path_components p) \<or>
    (\<exists>rest. display_home_relative (Some home) p = path_display (''~/'' @ rest) \<and>
       path_components p = path_components home @ body_components rest)"
proof (cases "prefix (path_components home) (path_components p)")
  case False
  then show ?thesis by (simp add: display_home_relative_def path_strip_prefix_def)
next
  case True
  let ?n = "length (path_components home)"
  let ?rest = "path_rest ?n p"
  have "path_components home \<noteq> []"
  proof (cases home rule: path_cases)
    case plain
    then show ?thesis
      using assms by (auto simp: path_components_def body_components_simps include_cur_dir_def
          segments_plain parse_single_component_def)
  next
    case (split c b)
    then show ?thesis
      by (auto simp: path_components_def body_components_simps include_cur_dir_def segments_split
          has_root_def parse_single_component_def)
  qed
  then have n: "0 < ?n" by simp
  then have rest: "body_components ?rest = drop ?n (path_components p)"
    using components_of_root [of p] components_of_cur_dir [of p]
    by (auto simp: path_rest_def body_skip path_components_def drop_Cons')
  then have parts: "path_components p = path_components home @ body_components ?rest"
    using True by (auto simp: prefix_def)
  have "\<not> has_root ?rest"
    using n no_root_trimmed by (simp add: path_rest_def)
  then have "path_join ''~'' ?rest = ''~/'' @ ?rest"
    by (simp add: path_join_def has_root_def)
  then show ?thesis
    using parts True by (auto simp: display_home_relative_def path_strip_prefix_def)
qed

text \<open>With an empty one every relative path passes for a path below it: the message names a file the
  launcher never tried.\<close>

lemma empty_home_misleads:
  "display_home_relative (Some []) ''profiles/gpu.json'' = path_display ''~/profiles/gpu.json''"
proof -
  have "path_strip_prefix [] ''profiles/gpu.json'' = Some ''profiles/gpu.json''"
    by code_simp
  then show ?thesis by (simp add: display_home_relative_def path_join_def)
qed

section \<open>Failures from errors\<close>

fun failure_from_usage :: "(os_string \<Rightarrow> string) \<Rightarrow> usage_error \<Rightarrow> launch_failure" where
  "failure_from_usage debug e = FailUsage (usage_error_text debug e)"

fun failure_from_profile_name :: "profile_name_error \<Rightarrow> launch_failure" where
  "failure_from_profile_name e = FailProfileUnresolved (profile_name_error_text e)"

fun failure_from_profile_load ::
  "(string \<Rightarrow> string) \<Rightarrow> (unsupported_version \<Rightarrow> string) \<Rightarrow> os_string option \<Rightarrow>
     profile_load_error \<Rightarrow> launch_failure" where
  "failure_from_profile_load debug version home e =
     FailProfileUnresolved (profile_load_error_text debug version home e)"

text \<open>The text of a client error is an argument.\<close>

fun failure_from_client :: "('e \<Rightarrow> string) \<Rightarrow> 'e \<Rightarrow> launch_failure" where
  "failure_from_client text_of e = FailAgentUnavailable (text_of e)"

text \<open>A governed context fails with a reason, which is its text.\<close>

fun failure_from_context :: "string \<Rightarrow> launch_failure" where
  "failure_from_context reason = FailGovernedContext reason"

end
