(* ===== verification/Eltanin_Agentd.thy ===== *)
theory Eltanin_Agentd
  imports Eltanin_Authz Eltanin_Server Eltanin_Runtime Eltanin_Utf8
begin

text \<open>
  Models \<open>crates/eltanin-agent/src/bin/eltanin-agentd.rs\<close>: how the agent is put together from its
  environment, a policy file and its own identity, with a fake backend seeded with the resources the
  policy names. The environment, the file system and the JSON library are arguments; the texts of the
  error messages are left out, the errors are the constructors of \<open>agentd_error\<close>.
\<close>

section \<open>The environment\<close>

text \<open>The variables as the bytes they are set to. \<open>env::var\<close> also fails on bytes that are not UTF-8; no
  caller tells the two failures apart.\<close>

type_synonym environment = "string \<Rightarrow> string option"

definition env_var :: "environment \<Rightarrow> string \<Rightarrow> string option" where
  "env_var env name =
     (case env name of
        None \<Rightarrow> None
      | Some v \<Rightarrow> (case utf8_chars v of Some _ \<Rightarrow> Some v | None \<Rightarrow> None))"

datatype agentd_error =
    AgMissingVariable string
  | AgBadSocketMode string
  | AgPolicy policy_load_error
  | AgBadLeaseTtl string
  | AgInvalidLeaseTtl config_error
  | AgNoInstance instance_id_error
  | AgAuditLogNotUtf8 string
  | AgAuditLog string
  | AgStartup startup_error

definition required_var :: "environment \<Rightarrow> string \<Rightarrow> (agentd_error, string) result" where
  "required_var env name = ok_or (AgMissingVariable name) (env_var env name)"

text \<open>\<open>trim_start_matches("0o")\<close> and \<open>u32::from_str_radix(_, 8)\<close>.\<close>

fun trim_octal_prefix :: "string \<Rightarrow> string" where
  "trim_octal_prefix (c # d # cs) =
     (if c = CHR ''0'' \<and> d = CHR ''o'' then trim_octal_prefix cs else c # d # cs)"
| "trim_octal_prefix s = s"

fun octal_digits :: "nat \<Rightarrow> string \<Rightarrow> nat option" where
  "octal_digits acc [] = Some acc"
| "octal_digits acc (c # cs) =
     (case digit_val c of
        None \<Rightarrow> None
      | Some d \<Rightarrow> if d < 8 \<and> acc * 8 + d < 2 ^ 32 then octal_digits (acc * 8 + d) cs else None)"

definition u32_from_octal :: "string \<Rightarrow> u32 option" where
  "u32_from_octal s =
     (case s of
        [] \<Rightarrow> None
      | c # cs \<Rightarrow>
          map_option of_nat
            (if c = CHR ''+'' then (if cs = [] then None else octal_digits 0 cs) else octal_digits 0 s))"

section \<open>The parts of the agent\<close>

datatype event_sink = StderrSink | AuditSink string

record agentd_parts =
  ap_config :: agent_config
  ap_handler :: authorization_handler
  ap_state :: lease_state
  ap_backend :: fake_backend
  ap_sink :: event_sink

definition seed_backend :: "policy_set \<Rightarrow> fake_backend" where
  "seed_backend policy =
     fold (\<lambda>resource. fake_insert
             \<lparr>pr_identity = resource, pr_capabilities = capabilities_new [DeviceEnforce, DeviceRevoke],
              pr_memory = NotReportable\<rparr>)
       (policy_resources policy) fake_new"

definition choose_sink ::
  "environment \<Rightarrow> (string \<Rightarrow> (string, unit) result) \<Rightarrow> (agentd_error, event_sink) result" where
  "choose_sink env open_audit_log =
     (case env ''ELTANIN_AUDIT_LOG'' of
        None \<Rightarrow> Inr StderrSink
      | Some raw \<Rightarrow>
          (case utf8_chars raw of
             None \<Rightarrow> Inl (AgAuditLogNotUtf8 raw)
           | Some _ \<Rightarrow>
               (case open_audit_log raw of
                  Inl e \<Rightarrow> Inl (AgAuditLog e)
                | Inr _ \<Rightarrow> Inr (AuditSink raw))))"

definition agentd_prepare ::
  "bool \<Rightarrow> environment \<Rightarrow> (string \<Rightarrow> (policy_load_error, policy_set) result) \<Rightarrow>
     (instance_id_error, issuer_instance_id) result \<Rightarrow> (string \<Rightarrow> (string, unit) result) \<Rightarrow>
     (agentd_error, agentd_parts) result" where
  "agentd_prepare macos env load inst open_audit_log =
     (let socket_path =
            (case env_var env ''ELTANIN_AGENT_SOCKET'' of
               Some p \<Rightarrow> p | None \<Rightarrow> agent_default_socket_path macos)
      in case required_var env ''ELTANIN_AGENT_SOCKET_MODE'' of
        Inl e \<Rightarrow> Inl e
      | Inr mode_str \<Rightarrow>
      (case u32_from_octal (trim_octal_prefix mode_str) of
        None \<Rightarrow> Inl (AgBadSocketMode mode_str)
      | Some socket_mode \<Rightarrow>
      (case required_var env ''ELTANIN_AGENT_POLICY'' of
        Inl e \<Rightarrow> Inl e
      | Inr policy_path \<Rightarrow>
      (case load policy_path of
        Inl e \<Rightarrow> Inl (AgPolicy e)
      | Inr policy \<Rightarrow>
      (case required_var env ''ELTANIN_AGENT_LEASE_TTL_SECS'' of
        Inl e \<Rightarrow> Inl e
      | Inr ttl_str \<Rightarrow>
      (case parse_u64 ttl_str of
        None \<Rightarrow> Inl (AgBadLeaseTtl ttl_str)
      | Some ttl_secs \<Rightarrow>
      (case authorization_config_new (unat ttl_secs * 10 ^ 9) of
        Inl e \<Rightarrow> Inl (AgInvalidLeaseTtl e)
      | Inr authz_config \<Rightarrow>
      (case inst of
        Inl e \<Rightarrow> Inl (AgNoInstance e)
      | Inr i \<Rightarrow>
      (case choose_sink env open_audit_log of
        Inl e \<Rightarrow> Inl e
      | Inr sink \<Rightarrow>
          (let (handler, state) = handler_new i policy authz_config
           in Inr \<lparr>ap_config = agent_config_new socket_path socket_mode, ap_handler = handler,
                   ap_state = state, ap_backend = seed_backend policy, ap_sink = sink\<rparr>))))))))))"

text \<open>\<open>run\<close> and \<open>main\<close>: the exit status tells success from failure.\<close>

definition agentd_main ::
  "'w socket_ops \<Rightarrow> (agentd_error, agentd_parts) result \<Rightarrow> (string, unit) result \<Rightarrow>
     (agentd_parts \<Rightarrow> bound_socket \<Rightarrow> 'w \<Rightarrow> shutdown_report \<times> 'w) \<Rightarrow> 'w \<Rightarrow>
     ((agentd_error, shutdown_report) result \<times> u8) \<times> 'w" where
  "agentd_main ops prepared install serve w =
     (case prepared of
        Inl e \<Rightarrow> ((Inl e, 1), w)
      | Inr parts \<Rightarrow>
          (case daemon_run ops (ap_config parts) install (serve parts) w of
             (Inl e, w1) \<Rightarrow> ((Inl (AgStartup e), 1), w1)
           | (Inr report, w1) \<Rightarrow> ((Inr report, 0), w1)))"

section \<open>The seeded backend\<close>

lemma seed_observe:
  "fake_observe (fold (\<lambda>resource. fake_insert
        \<lparr>pr_identity = resource, pr_capabilities = c, pr_memory = m\<rparr>) rs b) r =
     (if r \<in> set rs then Inr \<lparr>pr_identity = r, pr_capabilities = c, pr_memory = m\<rparr> else fake_observe b r)"
  by (induction rs arbitrary: b) (auto simp: fake_observe_insert)

lemma seed_scripted:
  "fb_scripted (fold (\<lambda>resource. fake_insert
        \<lparr>pr_identity = resource, pr_capabilities = c, pr_memory = m\<rparr>) rs b) = fb_scripted b"
  by (induction rs arbitrary: b) (auto simp: fake_insert_def)

lemma seeded_enforces:
  assumes "cr_resource request \<in> set (policy_resources policy)"
  shows "fake_enforce (seed_backend policy) request = Inr Allowed"
  using assms
  by (simp add: fake_enforce_def seed_backend_def seed_observe seed_scripted supports_capabilities_new)
     (simp add: fake_new_def)

text \<open>What a prepared agent is made of.\<close>

lemma agentd_prepare_Inr:
  assumes "agentd_prepare macos env load inst open_audit_log = Inr parts"
  shows "\<exists>policy ttl i. 0 < ttl \<and> inst = Inr i \<and>
    ap_handler parts = \<lparr>ah_policy = policy, ah_lease_ttl = ttl,
       ah_max_outstanding_leases = DEFAULT_MAX_OUTSTANDING_LEASES\<rparr> \<and>
    ap_state parts = state_new (issuer_new i ttl) DEFAULT_MAX_OUTSTANDING_LEASES \<and>
    ap_backend parts = seed_backend policy"
  using assms
  by (auto simp: agentd_prepare_def Let_def required_var_def authorization_config_new_def handler_new_def
      agent_config_new_def split: sum.splits option.splits if_splits)

section \<open>Concrete inputs\<close>

definition demo_env :: "string \<Rightarrow> environment" where
  "demo_env ttl =
     [''ELTANIN_AGENT_SOCKET_MODE'' \<mapsto> ''0o660'', ''ELTANIN_AGENT_POLICY'' \<mapsto> ''policy.json'',
      ''ELTANIN_AGENT_LEASE_TTL_SECS'' \<mapsto> ttl]"

definition demo_parts :: "u64 \<Rightarrow> agentd_parts" where
  "demo_parts secs =
     \<lparr>ap_config = agent_config_new ''/run/eltanin/agent.sock'' 0x1B0,
      ap_handler = \<lparr>ah_policy = demo_policy, ah_lease_ttl = unat secs * 10 ^ 9,
        ah_max_outstanding_leases = DEFAULT_MAX_OUTSTANDING_LEASES\<rparr>,
      ap_state = state_new (issuer_new ''agent-1'' (unat secs * 10 ^ 9)) DEFAULT_MAX_OUTSTANDING_LEASES,
      ap_backend = seed_backend demo_policy, ap_sink = StderrSink\<rparr>"

lemma utf8_chars_ascii_Some:
  assumes "list_all (\<lambda>c. of_char c < (128 :: nat)) s"
  shows "\<exists>cs. utf8_chars s = Some cs"
proof -
  have "None \<notin> set (utf8_pieces s)"
    using assms
  proof (induction s)
    case (Cons c s)
    then have "utf8_next (c # s) = Inr (of_char c, 1)" by (simp add: utf8_next_def Let_def)
    then show ?case using Cons by (simp add: utf8_pieces.simps [of "c # s"])
  qed (simp add: utf8_pieces.simps)
  then show ?thesis by (simp add: utf8_chars_def)
qed

lemma demo_prepare:
  assumes "parse_u64 ttl = Some secs" and "0 < unat secs" and "list_all (\<lambda>c. of_char c < (128 :: nat)) ttl"
  shows "agentd_prepare False (demo_env ttl) (\<lambda>_. Inr demo_policy) (Inr ''agent-1'') (\<lambda>_. Inr ()) =
    Inr (demo_parts secs)"
proof -
  have "env_var (demo_env ttl) ''ELTANIN_AGENT_SOCKET_MODE'' = Some ''0o660''"
    and "env_var (demo_env ttl) ''ELTANIN_AGENT_POLICY'' = Some ''policy.json''"
    using utf8_chars_ascii_Some [of "''0o660''"] utf8_chars_ascii_Some [of "''policy.json''"]
    by (auto simp: env_var_def demo_env_def)
  moreover have "env_var (demo_env ttl) ''ELTANIN_AGENT_LEASE_TTL_SECS'' = Some ttl"
    using utf8_chars_ascii_Some [OF assms(3)] by (auto simp: env_var_def demo_env_def)
  moreover have "env_var (demo_env ttl) ''ELTANIN_AGENT_SOCKET'' = None"
    and "demo_env ttl ''ELTANIN_AUDIT_LOG'' = None"
    by (simp_all add: env_var_def demo_env_def)
  moreover have "u32_from_octal (trim_octal_prefix ''0o660'') = Some 0x1B0"
    by (simp add: u32_from_octal_def digit_val_def)
  ultimately show ?thesis
    using assms(1,2)
    by (simp add: agentd_prepare_def Let_def required_var_def authorization_config_new_def handler_new_def
        choose_sink_def demo_parts_def agent_default_socket_path_def)
qed

section \<open>Properties\<close>

text \<open>C22. An agent put together from its environment can do what its policy says: the backend it is seeded
  with enforces every request the policy allows for any context, and the first request of a peer that
  is released for authorization and allowed is granted, with the configured time to live less the time
  the request took, as long as that time has not run out and the expiry fits the clock.\<close>

theorem fresh_agent_grants_what_its_policy_allows:
  assumes "agentd_prepare macos env load inst open_audit_log = Inr parts"
    and "h = ap_handler parts"
    and "authorizable peer = Some obs"
    and "pd_effect (policy_evaluate (ah_policy h) obs (prov_request (provenance_for rq obs))) = Allow"
    and "unat now + ah_lease_ttl h < 2 ^ 64" and "unat reply_now < unat now + ah_lease_ttl h"
  shows "fst (bo_enforce fake_ops (ap_backend parts) (prov_request (provenance_for rq obs))) = Inr Allowed \<and>
    (\<exists>v. snd (fst (handle_request_lease h fake_ops now reply_now rq peer (ap_state parts, ap_backend parts)))
           = LeaseGranted v \<and>
         lv_remaining v = unat now + ah_lease_ttl h - unat reply_now)"
proof -
  obtain policy ttl i where h: "h = \<lparr>ah_policy = policy, ah_lease_ttl = ttl,
       ah_max_outstanding_leases = DEFAULT_MAX_OUTSTANDING_LEASES\<rparr>" "0 < ttl"
    and state: "ap_state parts =
      state_new (issuer_new i ttl) DEFAULT_MAX_OUTSTANDING_LEASES"
    and backend: "ap_backend parts = seed_backend policy"
    using agentd_prepare_Inr [OF assms(1)] assms(2) by auto
  let ?prov = "provenance_for rq obs"
  have enforce: "fake_enforce (ap_backend parts) (prov_request ?prov) = Inr Allowed"
    using seeded_enforces evaluate_Allow_resource [OF assms(4)] by (simp add: backend h)
  obtain e where e: "time_checked_add now (ah_lease_ttl h) = Some e" "unat e = unat now + ah_lease_ttl h"
    using assms(5) time_checked_add_None [of now "ah_lease_ttl h"] time_checked_add_Some [of now "ah_lease_ttl h"]
    by (cases "time_checked_add now (ah_lease_ttl h)") auto
  have ctx: "prov_context ?prov = obs" by (simp add: provenance_for_def)
  have "\<not> is_at_capacity (prune now (ap_state parts))"
    by (simp add: is_at_capacity_def prune_def state state_new_def DEFAULT_MAX_OUTSTANDING_LEASES_def)
  moreover have "\<exists>l iss. issue (ls_issuer (ap_state parts)) (ah_policy h) ?prov now (ah_lease_ttl h) = (Inr l, iss) \<and>
      cl_expires_at l = e \<and> cl_origin l = ?prov"
    using assms(4) h(2) e by (simp add: issue_Inr_iff state state_new_def issuer_new_def ctx h(1))
  ultimately obtain l ls1 where issued: "issue_reserving_capacity h now ?prov (ap_state parts) = (Inr l, ls1)"
    and l: "cl_expires_at l = e" "cl_origin l = ?prov"
    by (auto simp: issue_cap_Inr)
  have "reply_now < e" using assms(6) e(2) by (simp add: word_less_nat_alt)
  then show ?thesis
    using e(2) l enforce
    by (simp add: handle_request_lease_def assms(3) issued Let_def fake_ops_def finish_request_simps)
qed

lemma fresh_agent_grants_what_its_policy_allows_witness:
  "\<exists>v. snd (fst (handle_request_lease (ap_handler (demo_parts 30)) fake_ops 0 5 demo_lease_request demo_peer
     (ap_state (demo_parts 30), ap_backend (demo_parts 30)))) = LeaseGranted v"
proof -
  have "parse_u64 ''30'' = Some 30"
    by (simp add: parse_u64_def parse_unsigned_def digit_val_def)
  from demo_prepare [OF this] have prepared:
    "agentd_prepare False (demo_env ''30'') (\<lambda>_. Inr demo_policy) (Inr ''agent-1'') (\<lambda>_. Inr ()) =
       Inr (demo_parts 30)" by simp
  have "pd_effect (policy_evaluate (ah_policy (ap_handler (demo_parts 30))) demo_context
      (prov_request (provenance_for demo_lease_request demo_context))) = Allow"
    by (simp add: demo_parts_def demo_provenance_for demo_provenance_def demo_allowed)
  from fresh_agent_grants_what_its_policy_allows [OF prepared refl demo_authorizable this, of 0 5]
  show ?thesis by (auto simp: demo_parts_def)
qed

text \<open>A time to live of more than about 584 years is accepted at startup, and then no request is ever
  granted: its expiry does not fit the clock, whatever the time, the peer, the store and the backend.\<close>

theorem overlong_ttl_never_grants:
  assumes "agentd_prepare macos env load inst open_audit_log = Inr parts"
    and "ah_lease_ttl (ap_handler parts) \<ge> 2 ^ 64"
  shows "snd (fst (handle_request_lease (ap_handler parts) ops now reply_now rq peer st)) \<noteq> LeaseGranted v"
proof (cases "authorizable peer")
  case None
  then show ?thesis by (simp add: handle_request_lease_def)
next
  case (Some obs)
  show ?thesis
  proof (cases rule: issue_cap_cases [of "ap_handler parts" now "provenance_for rq obs" "fst st"])
    case (fail f)
    then show ?thesis by (cases f) (simp_all add: handle_request_lease_def Some)
  next
    case (issued l)
    then have "unat now + ah_lease_ttl (ap_handler parts) < 2 ^ 64"
      by (auto simp: issue_cap_Inr issue_Inr_iff time_checked_add_Some)
    then show ?thesis using assms(2) by simp
  qed
qed

lemma overlong_ttl_never_grants_witness:
  "\<forall>v. snd (fst (handle_request_lease (ap_handler (demo_parts 99999999999)) fake_ops 0 5 demo_lease_request demo_peer
     (ap_state (demo_parts 99999999999), ap_backend (demo_parts 99999999999)))) \<noteq> LeaseGranted v"
proof (intro allI, rule overlong_ttl_never_grants)
  have "parse_u64 ''99999999999'' = Some 99999999999"
    by (simp add: parse_u64_def parse_unsigned_def digit_val_def)
  from demo_prepare [OF this]
  show "agentd_prepare False (demo_env ''99999999999'') (\<lambda>_. Inr demo_policy) (Inr ''agent-1'') (\<lambda>_. Inr ()) =
      Inr (demo_parts 99999999999)" by simp
qed (simp add: demo_parts_def)

end
