(* ===== verification/Eltanin_Probe.thy ===== *)
theory Eltanin_Probe
  imports Eltanin_Backend
begin

unbundle bit_operations_syntax

text \<open>
  Models \<open>crates/eltanin-apple/src/probe.rs\<close>, the compute probe with its fingerprint and its check of
  what the device computed, and \<open>bin/metal_workload_fixture.rs\<close>, the program around it. Metal is an
  argument: what each of its calls returns and what the dispatched kernel leaves in the output buffer.
  A single-precision number is its 32 bits; its value is an integer multiple of \<open>2 ^ -149\<close>, the
  smallest positive one, so that differences are exact before they are rounded.
\<close>

section \<open>The fingerprint\<close>

definition OFFSET_BASIS :: u64 where "OFFSET_BASIS = 0xcbf29ce484222325"
definition PRIME :: u64 where "PRIME = 0x00000100000001b3"

definition fnv_step :: "u8 \<Rightarrow> u64 \<Rightarrow> u64" where
  "fnv_step byte hash = (hash XOR ucast byte) * PRIME"

definition fnv1a_64 :: "u8 list \<Rightarrow> u64" where
  "fnv1a_64 bytes = fold fnv_step bytes OFFSET_BASIS"

section \<open>Single-precision numbers\<close>

datatype float_value = FNaN | FInfinite bool | FFinite int

definition f32_value :: "u32 \<Rightarrow> float_value" where
  "f32_value w =
     (let n = unat w; negative = 2 ^ 31 \<le> n; e = n div 2 ^ 23 mod 2 ^ 8; m = n mod 2 ^ 23;
          k = (if e = 0 then m else (2 ^ 23 + m) * 2 ^ (e - 1))
      in if e = 255 then (if m = 0 then FInfinite negative else FNaN)
         else FFinite (if negative then - int k else int k))"

fun log2_nat :: "nat \<Rightarrow> nat" where
  "log2_nat n = (if n < 2 then 0 else Suc (log2_nat (n div 2)))"

declare log2_nat.simps [simp del]

text \<open>Rounding to 24 significant bits, to the nearest, ties to even; beyond the range it is infinite.\<close>

definition round_nat :: "nat \<Rightarrow> nat" where
  "round_nat n =
     (let s = log2_nat n - 23; q = n div 2 ^ s; r = n mod 2 ^ s
      in (if 2 * r > 2 ^ s \<or> (2 * r = 2 ^ s \<and> odd q) then Suc q else q) * 2 ^ s)"

definition f32_round :: "int \<Rightarrow> float_value" where
  "f32_round k =
     (let n = round_nat (nat \<bar>k\<bar>)
      in if n \<ge> 2 ^ 277 then FInfinite (k < 0) else FFinite (if k < 0 then - int n else int n))"

fun f32_sub :: "float_value \<Rightarrow> float_value \<Rightarrow> float_value" where
  "f32_sub FNaN _ = FNaN"
| "f32_sub _ FNaN = FNaN"
| "f32_sub (FInfinite a) (FInfinite b) = (if a = b then FNaN else FInfinite a)"
| "f32_sub (FInfinite a) (FFinite _) = FInfinite a"
| "f32_sub (FFinite _) (FInfinite b) = FInfinite (\<not> b)"
| "f32_sub (FFinite a) (FFinite b) = f32_round (a - b)"

fun f32_double :: "float_value \<Rightarrow> float_value" where
  "f32_double FNaN = FNaN"
| "f32_double (FInfinite a) = FInfinite a"
| "f32_double (FFinite a) = f32_round (2 * a)"

text \<open>\<open>v.abs() > f32::EPSILON\<close>, which is \<open>2 ^ -23\<close>. No comparison with a NaN holds.\<close>

fun abs_above_epsilon :: "float_value \<Rightarrow> bool" where
  "abs_above_epsilon FNaN = False"
| "abs_above_epsilon (FInfinite _) = True"
| "abs_above_epsilon (FFinite k) = (\<bar>k\<bar> > 2 ^ 126)"

text \<open>\<open>i as f32\<close> for a number of at most 24 bits.\<close>

definition f32_of_nat :: "nat \<Rightarrow> u32" where
  "f32_of_nat i =
     (if i = 0 then 0
      else of_nat ((127 + log2_nat i) * 2 ^ 23 + (i * 2 ^ (23 - log2_nat i) - 2 ^ 23)))"

definition to_le_bytes :: "u32 \<Rightarrow> u8 list" where
  "to_le_bytes w = map (\<lambda>i. ucast (drop_bit (8 * i) w)) [0 ..< 4]"

section \<open>The probe\<close>

record compute_probe_report =
  cp_device_name :: string
  cp_registry_id :: u64
  cp_has_unified_memory :: bool
  cp_input_hash :: u64
  cp_element_count :: nat
  cp_verified_elements :: nat

definition ELEMENT_COUNT :: nat where "ELEMENT_COUNT = 16"

text \<open>A Metal device, by what its calls return for the probe; \<open>mt_dispatch\<close> is what the kernel leaves
  at each index of the output buffer, given the input buffer.\<close>

record metal_device =
  mt_name :: string
  mt_registry_id :: u64
  mt_has_unified_memory :: bool
  mt_queue :: bool
  mt_library :: "(string, unit) result"
  mt_function :: bool
  mt_pipeline :: "(string, unit) result"
  mt_input_buffer :: bool
  mt_output_buffer :: bool
  mt_command_buffer :: bool
  mt_encoder :: bool
  mt_dispatch :: "u32 list \<Rightarrow> nat \<Rightarrow> u32"

text \<open>The loop that compares what was read back with what it should be. \<open>show\<close> prints a number.\<close>

fun verify_loop :: "(float_value \<Rightarrow> string) \<Rightarrow> u32 list \<Rightarrow> nat \<Rightarrow> u32 list \<Rightarrow> (backend_error, unit) result" where
  "verify_loop show input i [] = Inr ()"
| "verify_loop show input i (value # output) =
     (let expected = f32_double (f32_value (input ! i))
      in if abs_above_epsilon (f32_sub (f32_value value) expected)
         then Inl (Transient (''Metal compute probe produced wrong value at index '' @ dec_of_nat i @
                '': expected '' @ show expected @ '', got '' @ show (f32_value value)))
         else verify_loop show input (Suc i) output)"

definition probe_input :: "u32 list" where
  "probe_input = map f32_of_nat [0 ..< ELEMENT_COUNT]"

definition metal_compute_probe ::
  "(float_value \<Rightarrow> string) \<Rightarrow> metal_device list \<Rightarrow> (backend_error, compute_probe_report) result" where
  "metal_compute_probe show devices =
     (case devices of
        [] \<Rightarrow> Inl (Transient ''no Metal device is currently present'')
      | device # _ \<Rightarrow>
          if \<not> mt_queue device then Inl (Transient ''Metal device could not create a command queue'')
          else case mt_library device of
            Inl e \<Rightarrow> Inl (Transient (''Metal kernel source failed to compile: '' @ e))
          | Inr _ \<Rightarrow>
            if \<not> mt_function device then
              Inl (Transient (''compiled Metal library has no '' @ [CHR 0x22] @ ''double_elements'' @
                              [CHR 0x22] @ '' function''))
            else (case mt_pipeline device of
              Inl e \<Rightarrow> Inl (Transient (''Metal compute pipeline creation failed: '' @ e))
            | Inr _ \<Rightarrow>
              (let input = probe_input; input_hash = fnv1a_64 (concat (map to_le_bytes input))
               in if \<not> mt_input_buffer device then
                    Inl (Transient ''Metal device could not allocate the input buffer'')
                  else if \<not> mt_output_buffer device then
                    Inl (Transient ''Metal device could not allocate the output buffer'')
                  else if \<not> mt_command_buffer device then
                    Inl (Transient ''Metal command queue could not create a command buffer'')
                  else if \<not> mt_encoder device then
                    Inl (Transient ''Metal command buffer could not create a compute encoder'')
                  else case verify_loop show input 0 (map (mt_dispatch device input) [0 ..< ELEMENT_COUNT]) of
                    Inl e \<Rightarrow> Inl e
                  | Inr _ \<Rightarrow>
                      Inr \<lparr>cp_device_name = mt_name device, cp_registry_id = mt_registry_id device,
                           cp_has_unified_memory = mt_has_unified_memory device, cp_input_hash = input_hash,
                           cp_element_count = ELEMENT_COUNT, cp_verified_elements = ELEMENT_COUNT\<rparr>)))"

text \<open>Off macOS the probe calls nothing.\<close>

definition run_compute_probe ::
  "bool \<Rightarrow> (float_value \<Rightarrow> string) \<Rightarrow> metal_device list \<Rightarrow> (backend_error, compute_probe_report) result" where
  "run_compute_probe macos show devices =
     (if macos then metal_compute_probe show devices else Inl (BackendUnsupported DiscoverResource))"

section \<open>The fixture\<close>

fun hex_digits :: "nat \<Rightarrow> string" where
  "hex_digits n =
     (if n < 16 then [''0123456789abcdef'' ! n]
      else hex_digits (n div 16) @ [''0123456789abcdef'' ! (n mod 16)])"

declare hex_digits.simps [simp del]

text \<open>The formats \<open>{:#x}\<close> and \<open>{:#018x}\<close>, the latter padded with zeros to 18 characters.\<close>

definition hex_plain :: "u64 \<Rightarrow> string" where
  "hex_plain w = ''0x'' @ hex_digits (unat w)"

definition hex_padded :: "u64 \<Rightarrow> string" where
  "hex_padded w =
     ''0x'' @ replicate (16 - length (hex_digits (unat w))) (CHR ''0'') @ hex_digits (unat w)"

record fixture_evidence =
  fe_schema_version :: u32
  fe_fixture :: string
  fe_host :: "string \<times> string"
  fe_device_name :: string
  fe_registry_id :: string
  fe_has_unified_memory :: bool
  fe_kernel :: string
  fe_element_count :: nat
  fe_input_hash :: string
  fe_verified_elements :: nat
  fe_all_elements_verified :: bool
  fe_gpu_command_completed :: bool

definition evidence_from_report :: "string \<times> string \<Rightarrow> compute_probe_report \<Rightarrow> fixture_evidence" where
  "evidence_from_report host report =
     \<lparr>fe_schema_version = 1, fe_fixture = ''eltanin-apple-metal-workload-fixture'', fe_host = host,
      fe_device_name = cp_device_name report, fe_registry_id = hex_plain (cp_registry_id report),
      fe_has_unified_memory = cp_has_unified_memory report, fe_kernel = ''double_elements'',
      fe_element_count = cp_element_count report, fe_input_hash = hex_padded (cp_input_hash report),
      fe_verified_elements = cp_verified_elements report,
      fe_all_elements_verified = (cp_verified_elements report = cp_element_count report),
      fe_gpu_command_completed = True\<rparr>"

fun parse_evidence_out :: "string list \<Rightarrow> (string, string option) result" where
  "parse_evidence_out [] = Inr None"
| "parse_evidence_out (arg # args) =
     (if arg = ''--evidence-out'' then
        (case args of [] \<Rightarrow> Inl ''--evidence-out requires a path argument'' | path # _ \<Rightarrow> Inr (Some path))
      else parse_evidence_out args)"

text \<open>\<open>main\<close>: the exit code and what is printed on the standard output. \<open>write\<close> is the outcome of
  creating and writing the file at a path.\<close>

definition fixture_main ::
  "(fixture_evidence \<Rightarrow> string) \<Rightarrow> (string \<Rightarrow> string \<Rightarrow> (string, unit) result) \<Rightarrow> string \<times> string \<Rightarrow> string list \<Rightarrow>
     (backend_error, compute_probe_report) result \<Rightarrow> u8 \<times> string option" where
  "fixture_main to_json write host args probe =
     (case parse_evidence_out args of
        Inl _ \<Rightarrow> (1, None)
      | Inr evidence_out \<Rightarrow>
          (case probe of
             Inr report \<Rightarrow>
               (let json = to_json (evidence_from_report host report)
                in case evidence_out of
                     None \<Rightarrow> (0, Some json)
                   | Some path \<Rightarrow>
                       (case write path (json @ [CHR 0x0A]) of
                          Inl _ \<Rightarrow> (2, Some json)
                        | Inr _ \<Rightarrow> (0, Some json)))
           | Inl (BackendUnsupported _) \<Rightarrow> (1, None)
           | Inl _ \<Rightarrow> (2, None)))"

section \<open>Facts\<close>

lemma PRIME_inverse: "h * PRIME * 0xce965057aff6957b = h"
proof -
  have "PRIME * 0xce965057aff6957b = 1" by (simp add: PRIME_def)
  then show ?thesis by (simp only: mult.assoc mult_1_right)
qed

lemma PRIME_cancel: "h * PRIME = h' * PRIME \<longleftrightarrow> h = h'"
  by (metis PRIME_inverse)

lemma xor_cancel: "a XOR c = b XOR c \<longleftrightarrow> a = b" for a b c :: u64
proof
  assume "a XOR c = b XOR c"
  then have "(a XOR c) XOR c = (b XOR c) XOR c" by simp
  then show "a = b" by (simp only: xor.assoc xor_self_eq xor.right_neutral)
qed simp

lemma fnv_step_inject_hash: "fnv_step b h = fnv_step b h' \<longleftrightarrow> h = h'"
  by (simp add: fnv_step_def PRIME_cancel xor_cancel)

lemma fnv_step_inject_byte: "fnv_step b h = fnv_step b' h \<longleftrightarrow> b = b'"
proof -
  have "(ucast b :: u64) = ucast b' \<longleftrightarrow> b = b'"
    by transfer (simp add: take_bit_take_bit)
  then show ?thesis
    by (simp add: fnv_step_def PRIME_cancel xor.commute [of h] xor_cancel)
qed

lemma fold_fnv_inject: "fold fnv_step s h = fold fnv_step s h' \<longleftrightarrow> h = h'"
  by (induction s arbitrary: h h') (simp_all add: fnv_step_inject_hash)

lemma log2_nat_bounds: "0 < n \<Longrightarrow> 2 ^ log2_nat n \<le> n \<and> n < 2 ^ Suc (log2_nat n)"
proof (induction n rule: log2_nat.induct)
  case (1 n)
  then show ?case
    by (cases "n < 2") (simp_all add: log2_nat.simps [of n], linarith)
qed

lemma log2_nat_ge: "2 ^ e \<le> n \<Longrightarrow> e \<le> log2_nat n"
proof (rule ccontr)
  assume n: "2 ^ e \<le> n" and "\<not> e \<le> log2_nat n"
  then have "(2 :: nat) ^ Suc (log2_nat n) \<le> 2 ^ e" by (intro power_increasing) auto
  moreover have "n < 2 ^ Suc (log2_nat n)"
    using log2_nat_bounds [of n] n by (cases "n = 0") auto
  ultimately show False using n by linarith
qed

text \<open>Rounding keeps what has at most 24 significant bits, and what is beyond a power of two stays there.\<close>

lemma round_nat_exact:
  assumes "2 ^ (log2_nat n - 23) dvd n"
  shows "round_nat n = n"
  using assms by (auto simp: round_nat_def Let_def)

lemma round_nat_ge:
  assumes "2 ^ e \<le> n"
  shows "2 ^ e \<le> round_nat n"
proof -
  let ?l = "log2_nat n" and ?s = "log2_nat n - 23"
  have "0 < n" using assms by (cases n) auto
  then have "2 ^ ?l \<le> n" using log2_nat_bounds by blast
  then have "2 ^ ?l div 2 ^ ?s \<le> n div 2 ^ ?s" by (rule div_le_mono)
  then have "2 ^ ?l div 2 ^ ?s * 2 ^ ?s \<le> n div 2 ^ ?s * 2 ^ ?s" by simp
  moreover have "(2 :: nat) ^ ?l div 2 ^ ?s * 2 ^ ?s = 2 ^ ?l"
    by (simp add: le_imp_power_dvd)
  moreover have "(2 :: nat) ^ e \<le> 2 ^ ?l"
    using log2_nat_ge [OF assms] by (intro power_increasing) auto
  moreover have "n div 2 ^ ?s * 2 ^ ?s \<le> round_nat n"
    by (simp add: round_nat_def Let_def)
  ultimately show ?thesis by linarith
qed

text \<open>The value of a number: at most 24 significant bits, so a number whose value is at least a power of
  two is a multiple of a power 23 lower.\<close>

lemma f32_value_grid:
  assumes "f32_value w = FFinite k" and "2 ^ (e + 23) \<le> \<bar>k\<bar>"
  shows "2 ^ e dvd k"
proof -
  let ?n = "unat w"
  let ?e = "?n div 2 ^ 23 mod 2 ^ 8" and ?m = "?n mod 2 ^ 23"
  let ?k = "if ?e = 0 then ?m else (2 ^ 23 + ?m) * 2 ^ (?e - 1)"
  have k: "\<bar>k\<bar> = int ?k"
    using assms(1) by (auto simp: f32_value_def Let_def split: if_splits)
  have m: "?m < 2 ^ 23" by simp
  have le: "2 ^ (e + 23) \<le> ?k"
  proof -
    have "int (2 ^ (e + 23)) \<le> int ?k" using assms(2) unfolding k by simp
    then show ?thesis by (simp only: of_nat_le_iff)
  qed
  have "2 ^ e dvd ?k"
  proof (cases "?e = 0")
    case True
    then have "(2 :: nat) ^ (e + 23) \<le> ?m" using le by simp
    then have "(2 :: nat) ^ (e + 23) < 2 ^ 23" using m by (rule le_less_trans)
    moreover have "(2 :: nat) ^ 23 \<le> 2 ^ (e + 23)" by (intro power_increasing) auto
    ultimately show ?thesis by linarith
  next
    case False
    have "2 ^ (e + 23) \<le> (2 ^ 23 + ?m) * 2 ^ (?e - 1)" using le False by (simp only: if_False)
    also have "\<dots> < 2 ^ 24 * (2 :: nat) ^ (?e - 1)" using m by (intro mult_strict_right_mono) auto
    also have "\<dots> = 2 ^ (24 + (?e - 1))" by (simp only: power_add)
    finally have "(2 :: nat) ^ (e + 23) < 2 ^ (24 + (?e - 1))" .
    then have "e + 23 < 24 + (?e - 1)" by (rule power_less_imp_less_exp [rotated]) simp
    then have "e \<le> ?e - 1" by linarith
    then show ?thesis using False by (simp add: le_imp_power_dvd)
  qed
  then have "int (2 ^ e) dvd \<bar>k\<bar>" unfolding k by (rule of_nat_dvd_iff [THEN iffD2])
  then show ?thesis by simp
qed

text \<open>A natural number of at most 24 bits as a single-precision number.\<close>

lemma f32_of_nat_value:
  assumes "i < 2 ^ 24"
  shows "f32_value (f32_of_nat i) = FFinite (int i * 2 ^ 149)"
proof (cases "i = 0")
  case True
  then show ?thesis by (simp add: f32_of_nat_def f32_value_def)
next
  case False
  define l where "l = log2_nat i"
  define x where "x = i * 2 ^ (23 - l)"
  have l: "2 ^ l \<le> i" "i < 2 ^ Suc l"
    using log2_nat_bounds [of i] False by (simp_all add: l_def)
  have "(2 :: nat) ^ l < 2 ^ 24" using l(1) assms by linarith
  then have "l < 24" by (rule power_less_imp_less_exp [rotated]) simp
  then have l23: "l \<le> 23" by simp
  have split: "(2 :: nat) ^ l * 2 ^ (23 - l) = 2 ^ 23"
    using l23 by (simp flip: power_add)
  have "2 ^ l * 2 ^ (23 - l) \<le> x" unfolding x_def using l(1) by (rule mult_le_mono1)
  then have lo: "2 ^ 23 \<le> x" unfolding split .
  have "x < 2 ^ Suc l * 2 ^ (23 - l)" unfolding x_def using l(2) by simp
  then have hi: "x < 2 * 2 ^ 23" using split by simp
  define n where "n = (127 + l) * 2 ^ 23 + (x - 2 ^ 23)"
  have n: "n < 2 ^ 32" using l23 hi by (simp add: n_def)
  have "f32_of_nat i = of_nat n"
    unfolding f32_of_nat_def l_def [symmetric] x_def [symmetric] n_def [symmetric] using False by simp
  then have unat: "unat (f32_of_nat i) = n"
    using n by (simp add: unat_of_nat take_bit_nat_eq_self)
  have "x - 2 ^ 23 < 2 ^ 23" using lo hi by linarith
  then have e: "n div 2 ^ 23 = 127 + l" and m: "n mod 2 ^ 23 = x - 2 ^ 23"
    unfolding n_def by (simp_all only: mod_mult_self3 mod_less div_mult_self3 div_less)
  have sign: "\<not> 2 ^ 31 \<le> n" using l23 hi by (simp add: n_def)
  have "x * 2 ^ (126 + l) = i * (2 ^ (23 - l) * 2 ^ (126 + l))" by (simp add: x_def)
  also have "\<dots> = i * 2 ^ 149" using l23 by (simp flip: power_add)
  finally have "(2 ^ 23 + (x - 2 ^ 23)) * 2 ^ (126 + l) = i * 2 ^ 149" using lo by simp
  then have "int ((2 ^ 23 + (x - 2 ^ 23)) * 2 ^ (126 + l)) = int i * 2 ^ 149" by simp
  moreover have "(127 + l) mod 2 ^ 8 = 127 + l" "127 + l - 1 = 126 + l" using l23 by simp_all
  ultimately show ?thesis
    using l23 sign unfolding f32_value_def unat Let_def e m by simp
qed

text \<open>Twice a small number is exact.\<close>

lemma round_small:
  assumes i: "i < 16"
  shows "f32_round (2 * (int i * 2 ^ 149)) = FFinite (2 * int i * 2 ^ 149)"
proof -
  have n: "nat \<bar>2 * (int i * 2 ^ 149)\<bar> = i * 2 ^ 150" by simp
  have "log2_nat (i * 2 ^ 150) < 155"
  proof (rule ccontr)
    assume "\<not> ?thesis"
    then have "(2 :: nat) ^ 155 \<le> 2 ^ log2_nat (i * 2 ^ 150)" by (intro power_increasing) auto
    then show False
      using log2_nat_bounds [of "i * 2 ^ 150"] i by (cases "i = 0") (auto simp: log2_nat.simps [of 0])
  qed
  then have "log2_nat (i * 2 ^ 150) - 23 \<le> 150" by simp
  then have "2 ^ (log2_nat (i * 2 ^ 150) - 23) dvd i * (2 :: nat) ^ 150"
    by (intro dvd_mult le_imp_power_dvd)
  from round_nat_exact [OF this] show ?thesis
    using i n by (simp add: f32_round_def Let_def)
qed

lemma expected_value:
  assumes "i < 16"
  shows "f32_double (f32_value (probe_input ! i)) = FFinite (2 * int i * 2 ^ 149)"
proof -
  have "probe_input ! i = f32_of_nat i"
    using assms by (simp add: probe_input_def ELEMENT_COUNT_def)
  moreover have "f32_value (f32_of_nat i) = FFinite (int i * 2 ^ 149)"
    using assms by (intro f32_of_nat_value) simp
  ultimately show ?thesis by (simp only: f32_double.simps round_small [OF assms])
qed

text \<open>So the check compares the exact difference.\<close>

lemma round_above:
  assumes "f32_value w = FFinite k" and d: "d = k - 2 * int i * 2 ^ 149"
  shows "abs_above_epsilon (f32_round d) \<longleftrightarrow> \<bar>d\<bar> > 2 ^ 126"
proof -
  let ?n = "nat \<bar>d\<bar>" and ?l = "log2_nat (nat \<bar>d\<bar>)"
  have round: "abs_above_epsilon (f32_round d) \<longleftrightarrow> round_nat ?n > 2 ^ 126"
    by (auto simp: f32_round_def Let_def)
  show ?thesis
  proof (cases "2 ^ 127 \<le> \<bar>d\<bar>")
    case True
    then have "2 ^ 127 \<le> ?n" by simp
    from round_nat_ge [OF this] show ?thesis using True round by simp
  next
    case False
    have "2 ^ (?l - 23) dvd d"
    proof (cases "i = 0 \<or> d = 0")
      case True
      show ?thesis
      proof (cases "d = 0 \<or> ?l < 23")
        case False
        then have "2 ^ ?l \<le> ?n" using log2_nat_bounds [of ?n] by simp
        then have "2 ^ (?l - 23 + 23) \<le> \<bar>k\<bar>"
          using False True d by (simp add: le_nat_iff)
        from f32_value_grid [OF assms(1) this] show ?thesis using True False d by simp
      qed auto
    next
      case i: False
      then have "1 \<le> int i" by simp
      then have "2 * 2 ^ 149 \<le> 2 * int i * 2 ^ 149" by simp
      then have "2 ^ (126 + 23) \<le> \<bar>k\<bar>" using False d by simp
      from f32_value_grid [OF assms(1) this] have "2 ^ 126 dvd d"
        unfolding d by (intro dvd_diff) (auto intro!: dvd_mult le_imp_power_dvd)
      moreover have "?l < 127"
      proof -
        have "2 ^ ?l \<le> ?n" using log2_nat_bounds [of ?n] i by simp
        moreover have "?n < 2 ^ 127" using False by simp
        ultimately have "(2 :: nat) ^ ?l < 2 ^ 127" by linarith
        then show ?thesis by (rule power_less_imp_less_exp [rotated]) simp
      qed
      then have "?l - 23 \<le> 126" by linarith
      then have "(2 :: int) ^ (?l - 23) dvd 2 ^ 126" by (rule le_imp_power_dvd)
      ultimately show ?thesis by (rule dvd_trans [rotated])
    qed
    then have "int (2 ^ (?l - 23)) dvd int ?n" by simp
    then have "2 ^ (?l - 23) dvd ?n" by (simp only: int_dvd_int_iff)
    then have "abs_above_epsilon (f32_round d) \<longleftrightarrow> ?n > 2 ^ 126"
      using round by (simp add: round_nat_exact)
    moreover have "?n > 2 ^ 126 \<longleftrightarrow> \<bar>d\<bar> > 2 ^ 126" by (simp add: zless_nat_eq_int_zless)
    ultimately show ?thesis by simp
  qed
qed

text \<open>What is accepted at each index.\<close>

definition accepted_at :: "nat \<Rightarrow> float_value \<Rightarrow> bool" where
  "accepted_at i v =
     (case v of
        FNaN \<Rightarrow> True
      | FInfinite _ \<Rightarrow> False
      | FFinite k \<Rightarrow>
          if i = 0 then \<bar>k\<bar> \<le> 2 ^ 126
          else if i = 1 then k = 2 ^ 150 \<or> k = 2 ^ 150 - 2 ^ 126
          else k = 2 * int i * 2 ^ 149)"

lemma small_multiple:
  fixes d :: int
  assumes "2 ^ e dvd d" and "\<bar>d\<bar> < 2 * 2 ^ e"
  shows "d = 0 \<or> d = 2 ^ e \<or> d = - (2 ^ e)"
proof -
  obtain c where c: "d = 2 ^ e * c" using assms(1) by blast
  then have "2 ^ e * \<bar>c\<bar> < 2 ^ e * 2" using assms(2) by (simp add: abs_mult mult.commute)
  then have "\<bar>c\<bar> < 2" by (rule mult_left_less_imp_less) simp
  then have "c = 0 \<or> c = 1 \<or> c = - 1" by linarith
  then show ?thesis using c by auto
qed

lemma close_to_expected:
  assumes "f32_value w = FFinite k" and "0 < i"
  shows "\<bar>k - 2 * int i * 2 ^ 149\<bar> \<le> 2 ^ 126 \<longleftrightarrow>
    (if i = 1 then k = 2 ^ 150 \<or> k = 2 ^ 150 - 2 ^ 126 else k = 2 * int i * 2 ^ 149)"
    (is "?close \<longleftrightarrow> ?r")
proof
  assume close: ?close
  let ?d = "k - 2 * int i * 2 ^ 149"
  have grid: "2 ^ e dvd ?d" if "2 ^ (e + 23) \<le> \<bar>k\<bar>" and "e \<le> 149" for e
    by (intro dvd_diff f32_value_grid [OF assms(1) that(1)] dvd_mult le_imp_power_dvd that(2))
  show ?r
  proof (cases "2 ^ 150 \<le> k")
    case True
    then have "2 ^ 127 dvd ?d" by (intro grid) simp_all
    then have "?d = 0 \<or> ?d = 2 ^ 127 \<or> ?d = - (2 ^ 127)"
      using close by (intro small_multiple) simp_all
    then have "?d = 0" using close by (elim disjE) simp_all
    then show ?thesis by (simp add: algebra_simps)
  next
    case False
    then have i: "i = 1"
    proof -
      have "int i < 2" using close False by simp
      then show ?thesis using assms(2) by simp
    qed
    then have "2 ^ (126 + 23) \<le> \<bar>k\<bar>" using close by simp
    then have "2 ^ 126 dvd ?d" by (intro grid) simp_all
    then have "?d = 0 \<or> ?d = 2 ^ 126 \<or> ?d = - (2 ^ 126)"
      using close by (intro small_multiple) simp_all
    then have "k = 2 ^ 150 - 2 ^ 126" using i False by simp
    then show ?thesis using i by simp
  qed
next
  assume ?r
  then show ?close by (auto split: if_splits)
qed

lemma accepted_at_correct:
  assumes "i < 16"
  shows "\<not> abs_above_epsilon (f32_sub (f32_value w) (f32_double (f32_value (probe_input ! i)))) \<longleftrightarrow>
    accepted_at i (f32_value w)"
proof (cases "f32_value w")
  case (FFinite k)
  have "\<not> abs_above_epsilon (f32_round (k - 2 * int i * 2 ^ 149)) \<longleftrightarrow> \<bar>k - 2 * int i * 2 ^ 149\<bar> \<le> 2 ^ 126"
    using round_above [OF FFinite refl] by (simp only: not_less)
  moreover have "\<bar>k - 2 * int i * 2 ^ 149\<bar> \<le> 2 ^ 126 \<longleftrightarrow> accepted_at i (FFinite k)"
    using close_to_expected [OF FFinite, of i] by (cases "i = 0") (simp_all add: accepted_at_def)
  ultimately show ?thesis
    unfolding expected_value [OF assms] FFinite f32_sub.simps by simp
qed (simp_all add: expected_value [OF assms] accepted_at_def)

lemma verify_loop_ok:
  "verify_loop show input i out = Inr () \<longleftrightarrow>
    (\<forall>j<length out. \<not> abs_above_epsilon (f32_sub (f32_value (out ! j)) (f32_double (f32_value (input ! (i + j))))))"
proof (induction out arbitrary: i)
  case (Cons v out)
  show ?case
    by (auto simp: Let_def Cons.IH All_less_Suc2)
qed simp

text \<open>Every call of Metal the probe makes before it reads the output back succeeds.\<close>

definition metal_ready :: "metal_device \<Rightarrow> bool" where
  "metal_ready device \<longleftrightarrow>
     mt_queue device \<and> mt_library device = Inr () \<and> mt_function device \<and> mt_pipeline device = Inr () \<and>
     mt_input_buffer device \<and> mt_output_buffer device \<and> mt_command_buffer device \<and> mt_encoder device"

lemma metal_probe_succeeds:
  "(\<exists>report. metal_compute_probe show (device # devices) = Inr report) \<longleftrightarrow>
    metal_ready device \<and>
    verify_loop show probe_input 0 (map (mt_dispatch device probe_input) [0 ..< ELEMENT_COUNT]) = Inr ()"
  by (auto simp: metal_compute_probe_def metal_ready_def Let_def split: sum.splits)

section \<open>Properties\<close>

text \<open>The fingerprint tells two inputs apart that differ in exactly one byte, wherever it is.\<close>

theorem fnv1a_single_byte:
  "fnv1a_64 (before @ x # after) = fnv1a_64 (before @ y # after) \<longleftrightarrow> x = y"
  by (simp add: fnv1a_64_def fold_fnv_inject fnv_step_inject_byte)

text \<open>C40. What a successful probe on macOS shows: there is a device, all calls of Metal succeeded, and each
  of the sixteen output elements is a NaN or twice its index, exactly from the third element on, up to
  2 ^ -23 for the first, and for the second also the number just below. Nothing else passes. A NaN
  passes because its comparison with the bound is false, so a kernel that computes only NaNs is
  reported as verified.\<close>

theorem probe_success_exact:
  "(\<exists>report. run_compute_probe True show devices = Inr report) \<longleftrightarrow>
    (\<exists>device rest. devices = device # rest \<and> metal_ready device \<and>
       (\<forall>i<16. accepted_at i (f32_value (mt_dispatch device probe_input i))))"
proof (cases devices)
  case (Cons device rest)
  have "(\<exists>report. run_compute_probe True show devices = Inr report) \<longleftrightarrow>
      metal_ready device \<and> (\<forall>i<16. accepted_at i (f32_value (mt_dispatch device probe_input i)))"
    unfolding Cons run_compute_probe_def if_True metal_probe_succeeds verify_loop_ok
    by (auto simp: ELEMENT_COUNT_def accepted_at_correct [symmetric])
  then show ?thesis by (simp add: Cons)
qed (simp add: run_compute_probe_def metal_compute_probe_def)

definition nan_device :: metal_device where
  "nan_device =
     \<lparr>mt_name = ''M'', mt_registry_id = 1, mt_has_unified_memory = True, mt_queue = True,
      mt_library = Inr (), mt_function = True, mt_pipeline = Inr (), mt_input_buffer = True,
      mt_output_buffer = True, mt_command_buffer = True, mt_encoder = True,
      mt_dispatch = (\<lambda>_ _. 0x7FC00000)\<rparr>"

lemma probe_success_exact_witness:
  "\<exists>report. run_compute_probe True (\<lambda>_. []) [nan_device] = Inr report"
  by (subst probe_success_exact)
     (simp add: nan_device_def metal_ready_def accepted_at_def f32_value_def)

text \<open>The exit codes of the fixture. It exits with 0 exactly if the arguments are understood, the probe
  succeeded and the evidence, if a file was asked for, was written; then the evidence is also on the
  standard output and calls every element verified. On macOS the code 1 means that the arguments are
  wrong and nothing else: a host without any Metal device exits with 2, although the table in the
  documentation promises 1.\<close>

theorem fixture_exit_codes:
  "(fst (fixture_main to_json write host args probe) = 0 \<longleftrightarrow>
      (\<exists>out report. parse_evidence_out args = Inr out \<and> probe = Inr report \<and>
         (\<forall>path. out = Some path \<longrightarrow>
            write path (to_json (evidence_from_report host report) @ [CHR 0x0A]) = Inr ()))) \<and>
    (fst (fixture_main to_json write host args (run_compute_probe True show devices)) = 1 \<longleftrightarrow> (\<exists>e. parse_evidence_out args = Inl e)) \<and>
    (\<forall>out. parse_evidence_out args = Inr out \<longrightarrow> fst (fixture_main to_json write host args (run_compute_probe True show [])) = 2) \<and>
    (\<forall>report. run_compute_probe True show devices = Inr report \<longrightarrow>
       fe_all_elements_verified (evidence_from_report host report))"
proof -
  have loop: "verify_loop show input i out = Inl e \<Longrightarrow> \<exists>t. e = Transient t" for input i out e
    by (induction out arbitrary: i) (auto simp: Let_def split: if_splits)
  have transient: "metal_compute_probe show devices = Inl e \<Longrightarrow> \<exists>t. e = Transient t" for devices e
    using loop by (fastforce simp: metal_compute_probe_def Let_def split: list.splits if_splits sum.splits)
  have report: "cp_verified_elements report = cp_element_count report"
    if "metal_compute_probe show devices = Inr report" for report
    using that by (auto simp: metal_compute_probe_def Let_def split: list.splits if_splits sum.splits)
  show ?thesis
    using transient [of devices] report
    by (auto simp: fixture_main_def run_compute_probe_def metal_compute_probe_def [of _ "[]"] Let_def
        evidence_from_report_def split: sum.splits option.splits backend_error.splits)
qed

lemma fixture_exit_codes_witness:
  "fst (fixture_main (\<lambda>_. ''{}'') (\<lambda>_ _. Inr ()) (''aarch64'', ''macos'') [''--evidence-out'', ''e.json'']
       (run_compute_probe True (\<lambda>_. []) [])) = 2"
  using fixture_exit_codes [of "\<lambda>_. ''{}''" "\<lambda>_ _. Inr ()" "(''aarch64'', ''macos'')"
      "[''--evidence-out'', ''e.json'']" undefined "\<lambda>_. []" "[]"] by simp

end
