(* ===== verification/Eltanin_Linux_Evidence.thy ===== *)
theory Eltanin_Linux_Evidence
  imports Eltanin_Linux
begin

text \<open>
  What the collector of \<open>crates/eltanin-linux/src/lib.rs\<close>, modelled in \<open>Eltanin_Linux\<close>, reports against
  what it read. The reads of \<open>/proc\<close> are logged with their answers; what a file or a link says of a
  process is stated on its text alone. Every piece of evidence is then compared with the answer of the
  read it comes from: present with the value that answer has, missing when it has none.
\<close>

section \<open>Logged reads\<close>

type_synonym read_log = "(string \<times> (string, string) result) list"

definition logged :: "'w proc_fs \<Rightarrow> ('w \<times> read_log) proc_fs" where
  "logged fs =
     (let during = (\<lambda>read path. State (\<lambda>(s, log).
            case run_state (read path) s of (answer, s') \<Rightarrow> (answer, (s', log @ [(path, answer)]))))
      in \<lparr>fs_read = during (fs_read fs), fs_read_link = during (fs_read_link fs), fs_debug = fs_debug fs\<rparr>)"

lemma logged_read:
  obtains answer s' where "run_state (fs_read (logged fs) path) (s, log) = (answer, (s', log @ [(path, answer)]))"
  by (cases "run_state (fs_read fs path) s") (simp add: logged_def Let_def)

lemma logged_read_link:
  obtains answer s' where "run_state (fs_read_link (logged fs) path) (s, log) = (answer, (s', log @ [(path, answer)]))"
  by (cases "run_state (fs_read_link fs path) s") (simp add: logged_def Let_def)

section \<open>What the files say\<close>

text \<open>The parent and the start time are the second and the twentieth word after the last closing
  parenthesis of a stat file.\<close>

definition stat_says :: "string \<Rightarrow> u32 \<Rightarrow> u64 \<Rightarrow> bool" where
  "stat_says raw parent start \<longleftrightarrow>
     (\<exists>before after. raw = before @ CHR '')'' # after \<and> CHR '')'' \<notin> set after \<and>
        19 < length (split_whitespace after) \<and>
        parse_u32 (split_whitespace after ! 1) = Some parent \<and>
        parse_u64 (split_whitespace after ! 19) = Some start)"

text \<open>The real identifier is the second word of the first line that starts with the label.\<close>

definition id_says :: "string \<Rightarrow> string \<Rightarrow> u32 \<Rightarrow> bool" where
  "id_says label raw value \<longleftrightarrow>
     (\<exists>line. find (starts_with label) (text_lines raw) = Some line \<and>
        1 < length (split_whitespace line) \<and> parse_u32 (split_whitespace line ! 1) = Some value)"

text \<open>The control group is what follows the second colon of the last line.\<close>

definition cgroup_says :: "string \<Rightarrow> string \<Rightarrow> bool" where
  "cgroup_says raw path \<longleftrightarrow>
     (\<exists>a b. text_lines raw \<noteq> [] \<and> last (text_lines raw) = a @ CHR '':'' # b @ CHR '':'' # path \<and>
        CHR '':'' \<notin> set a \<union> set b)"

text \<open>Evidence of what an answer says: present, from the kernel and with that value, or missing because the
  read failed or says nothing.\<close>

definition evidence_of :: "(string, string) result \<Rightarrow> (string \<Rightarrow> 'a \<Rightarrow> bool) \<Rightarrow> 'a evidence \<Rightarrow> bool" where
  "evidence_of answer says e \<longleftrightarrow>
     (case e of
        Present value source \<Rightarrow> source = KernelObserved \<and> (\<exists>raw. answer = Inr raw \<and> says raw value)
      | Missing _ \<Rightarrow> (\<forall>raw value. answer = Inr raw \<longrightarrow> \<not> says raw value)
      | EvidenceUnsupported \<Rightarrow> False)"

definition start_says :: "string \<Rightarrow> process_start_token \<Rightarrow> bool" where
  "start_says raw start \<longleftrightarrow> (\<exists>parent. stat_says raw parent start)"

definition link_says :: "string \<Rightarrow> string \<Rightarrow> bool" where
  "link_says target path \<longleftrightarrow> path = concat (map utf8_encode (lossy_chars target))"

lemma stat_number_Inr:
  "stat_number words i name parse = Inr n \<longleftrightarrow> i < length words \<and> parse (words ! i) = Inr n"
  by (auto simp: stat_number_def split: sum.splits)

lemma parse_or_Inr:
  "parse_u32_or w = Inr a \<longleftrightarrow> parse_u32 w = Some a" "parse_u64_or w = Inr b \<longleftrightarrow> parse_u64 w = Some b"
  by (simp_all add: parse_u32_or_def parse_u64_or_def ok_or_def split: option.splits)

lemma stat_from_text_says:
  "stat_from_text debug pid raw = Inr \<lparr>sf_ppid = parent, sf_starttime = start\<rparr> \<longleftrightarrow> stat_says raw parent start"
proof (cases "rsplit_once (CHR '')'') raw")
  case None
  have "\<nexists>before after. raw = before @ CHR '')'' # after \<and> CHR '')'' \<notin> set after"
    using None by (metis option.distinct(1) rsplit_once_Some)
  then show ?thesis by (auto simp: stat_from_text_def None stat_says_def)
next
  case (Some ab)
  obtain a after where ab: "rsplit_once (CHR '')'') raw = Some (a, after)" using Some by (cases ab) simp
  have same: "raw = b @ CHR '')'' # c \<and> CHR '')'' \<notin> set c \<longleftrightarrow> b = a \<and> c = after" for b c
    using ab by (metis option.inject prod.inject rsplit_once_Some)
  let ?words = "split_whitespace after"
  have "stat_from_text debug pid raw = Inr \<lparr>sf_ppid = parent, sf_starttime = start\<rparr> \<longleftrightarrow>
      stat_number ?words 1 ''ppid'' parse_u32_or = Inr parent \<and>
      stat_number ?words 19 ''starttime'' parse_u64_or = Inr start"
    by (cases "stat_number ?words 1 ''ppid'' parse_u32_or"; cases "stat_number ?words 19 ''starttime'' parse_u64_or")
       (simp_all add: stat_from_text_def ab Let_def)
  also have "\<dots> \<longleftrightarrow> 19 < length ?words \<and> parse_u32 (?words ! 1) = Some parent \<and> parse_u64 (?words ! 19) = Some start"
    by (auto simp: stat_number_Inr parse_or_Inr)
  also have "\<dots> \<longleftrightarrow> stat_says raw parent start" (is "?L \<longleftrightarrow> _")
  proof
    assume ?L
    moreover have "raw = a @ CHR '')'' # after \<and> CHR '')'' \<notin> set after" using same by blast
    ultimately show "stat_says raw parent start" unfolding stat_says_def by blast
  next
    assume "stat_says raw parent start"
    then obtain b c where split: "raw = b @ CHR '')'' # c \<and> CHR '')'' \<notin> set c"
      and c: "19 < length (split_whitespace c)" "parse_u32 (split_whitespace c ! 1) = Some parent"
        "parse_u64 (split_whitespace c ! 19) = Some start"
      unfolding stat_says_def by blast
    have "c = after" using same [of b c] split by blast
    then show ?L using c by blast
  qed
  finally show ?thesis .
qed

lemma status_id_says:
  assumes "find (starts_with label) (text_lines raw) = Some line"
  shows "evidence_of (Inr raw) (id_says label)
    (status_id debug label line (nth_option (drop 1 (split_whitespace line)) 0) which)"
proof -
  let ?words = "split_whitespace line"
  have says: "id_says label raw v \<longleftrightarrow> 1 < length ?words \<and> parse_u32 (?words ! 1) = Some v" for v
    using assms by (simp add: id_says_def)
  have word: "nth_option (drop 1 ?words) 0 = (if 1 < length ?words then Some (?words ! 1) else None)"
    by (simp add: nth_option_def)
  show ?thesis
    unfolding word status_id_def
    by (cases "1 < length ?words"; cases "parse_u32 (?words ! 1)")
       (simp_all add: evidence_of_def says parse_u32_or_def ok_or_def)
qed

lemma status_ids_say:
  "evidence_of (Inr raw) (id_says label) (fst (status_ids_from_text debug pid label raw))"
proof (cases "find (starts_with label) (text_lines raw)")
  case None
  then show ?thesis by (simp add: status_ids_from_text_def Let_def evidence_of_def id_says_def)
next
  case (Some line)
  then show ?thesis using status_id_says [OF Some] by (simp add: status_ids_from_text_def Let_def)
qed

lemma splitn_three:
  "nth_option (splitn 3 sep line) 2 = Some path \<longleftrightarrow>
     (\<exists>a b. line = a @ sep # b @ sep # path \<and> sep \<notin> set a \<union> set b)"
proof (cases "split_once sep line")
  case None
  then have "sep \<notin> set line" by simp
  then show ?thesis
    using None by (auto simp: numeral_3_eq_3 nth_option_def simp del: split_once_None)
next
  case (Some ab)
  then obtain a rest where ab: "split_once sep line = Some (a, rest)" by (cases ab) simp
  then have line: "line = a @ sep # rest" "sep \<notin> set a" by (simp_all add: split_once_Some)
  have first: "line = c @ sep # d \<and> sep \<notin> set c \<longleftrightarrow> c = a \<and> d = rest" for c d
    using ab by (metis option.inject prod.inject split_once_Some)
  have "nth_option (splitn 3 sep line) 2 = Some path \<longleftrightarrow> (\<exists>b. split_once sep rest = Some (b, path))"
    by (auto simp: numeral_3_eq_3 nth_option_def ab simp del: split_once_None split: option.splits)
  also have "\<dots> \<longleftrightarrow> (\<exists>b. rest = b @ sep # path \<and> sep \<notin> set b)" by (simp add: split_once_Some)
  also have "\<dots> \<longleftrightarrow> (\<exists>c b. line = c @ sep # b @ sep # path \<and> sep \<notin> set c \<union> set b)"
    using first by (metis Un_iff)
  finally show ?thesis .
qed

lemma cgroup_text_says: "evidence_of (Inr raw) cgroup_says (cgroup_from_text debug pid raw)"
proof (cases "rev (text_lines raw)")
  case Nil
  then show ?thesis by (simp add: cgroup_from_text_def evidence_of_def cgroup_says_def)
next
  case (Cons line more)
  then have last: "text_lines raw \<noteq> []" "last (text_lines raw) = line"
    by (metis Nil_is_rev_conv list.distinct(1), metis last_rev list.sel(1) rev_rev_ident list.distinct(1))
  have says: "cgroup_says raw path \<longleftrightarrow> nth_option (splitn 3 (CHR '':'') line) 2 = Some path" for path
    by (auto simp: cgroup_says_def last splitn_three)
  show ?thesis
    by (cases "nth_option (splitn 3 (CHR '':'') line) 2")
       (simp_all add: evidence_of_def says cgroup_from_text_def Cons)
qed

section \<open>The readers against their logs\<close>

text \<open>A reader that makes one read of the path.\<close>

definition reads_once :: "('w \<times> read_log, 'a) state \<Rightarrow> string \<Rightarrow> ((string, string) result \<Rightarrow> 'a \<Rightarrow> bool) \<Rightarrow> bool" where
  "reads_once m path P \<longleftrightarrow>
     (\<forall>s log. \<exists>answer s' a. run_state m (s, log) = (a, (s', log @ [(path, answer)])) \<and> P answer a)"

lemma reads_onceE:
  assumes "reads_once m path P"
  obtains answer s' a where "run_state m (s, log) = (a, (s', log @ [(path, answer)]))" and "P answer a"
  using assms unfolding reads_once_def by blast

lemma parse_stat_reads:
  "reads_once (parse_stat (logged fs) pid) (proc_path pid ''stat'')
     (\<lambda>answer r. \<forall>parent start. r = Inr \<lparr>sf_ppid = parent, sf_starttime = start\<rparr> \<longleftrightarrow>
        (\<exists>raw. answer = Inr raw \<and> stat_says raw parent start))"
  unfolding reads_once_def
proof (intro allI)
  fix s log
  obtain answer s' where read: "run_state (fs_read (logged fs) (proc_path pid ''stat'')) (s, log) =
      (answer, (s', log @ [(proc_path pid ''stat'', answer)]))"
    by (rule logged_read)
  show "\<exists>answer s' r. run_state (parse_stat (logged fs) pid) (s, log) =
      (r, (s', log @ [(proc_path pid ''stat'', answer)])) \<and>
      (\<forall>parent start. r = Inr \<lparr>sf_ppid = parent, sf_starttime = start\<rparr> \<longleftrightarrow>
        (\<exists>raw. answer = Inr raw \<and> stat_says raw parent start))"
    by (rule exI [of _ answer], rule exI [of _ s'])
       (cases answer; simp add: parse_stat_def read stat_from_text_says)
qed

lemma parent_pid_reads:
  "reads_once (parent_pid (logged fs) pid) (proc_path pid ''stat'')
     (\<lambda>answer r. \<forall>parent. r = Some parent \<longleftrightarrow> (\<exists>raw start. answer = Inr raw \<and> stat_says raw parent start))"
  unfolding reads_once_def
proof (intro allI)
  fix s log
  obtain answer s' r where read: "run_state (parse_stat (logged fs) pid) (s, log) =
      (r, (s', log @ [(proc_path pid ''stat'', answer)]))"
    and r: "\<forall>parent start. r = Inr \<lparr>sf_ppid = parent, sf_starttime = start\<rparr> \<longleftrightarrow>
      (\<exists>raw. answer = Inr raw \<and> stat_says raw parent start)"
    by (rule reads_onceE [OF parse_stat_reads [of fs pid], of s log])
  have "map_option sf_ppid (result_ok r) = Some parent \<longleftrightarrow>
      (\<exists>start. r = Inr \<lparr>sf_ppid = parent, sf_starttime = start\<rparr>)" for parent
  proof (cases r)
    case (Inr fields)
    then show ?thesis by (cases "fields") auto
  qed simp
  then show "\<exists>answer s' found. run_state (parent_pid (logged fs) pid) (s, log) =
      (found, (s', log @ [(proc_path pid ''stat'', answer)])) \<and>
      (\<forall>parent. found = Some parent \<longleftrightarrow> (\<exists>raw start. answer = Inr raw \<and> stat_says raw parent start))"
    using r by (intro exI [of _ answer] exI [of _ s']) (auto simp: parent_pid_def read)
qed

lemma process_start_reads:
  "reads_once (process_start (logged fs) pid) (proc_path pid ''stat'') (\<lambda>answer. evidence_of answer start_says)"
  unfolding reads_once_def
proof (intro allI)
  fix s log
  obtain answer s' r where read: "run_state (parse_stat (logged fs) pid) (s, log) =
      (r, (s', log @ [(proc_path pid ''stat'', answer)]))"
    and r: "\<forall>parent start. r = Inr \<lparr>sf_ppid = parent, sf_starttime = start\<rparr> \<longleftrightarrow>
      (\<exists>raw. answer = Inr raw \<and> stat_says raw parent start)"
    by (rule reads_onceE [OF parse_stat_reads [of fs pid], of s log])
  have "evidence_of answer start_says (kernel_observed (map_sum id sf_starttime r))"
  proof (cases r)
    case (Inl e)
    then show ?thesis using r by (auto simp: evidence_of_def kernel_observed_def start_says_def)
  next
    case (Inr fields)
    then show ?thesis
      using r Inr by (cases "fields") (simp add: evidence_of_def kernel_observed_def start_says_def, blast)
  qed
  then show "\<exists>answer s' e. run_state (process_start (logged fs) pid) (s, log) =
      (e, (s', log @ [(proc_path pid ''stat'', answer)])) \<and> evidence_of answer start_says e"
    by (intro exI [of _ answer] exI [of _ s']) (simp add: process_start_def read)
qed

lemma status_id_reads:
  "reads_once (read_status_id (logged fs) pid label) (proc_path pid ''status'')
     (\<lambda>answer. evidence_of answer (id_says label))"
  unfolding reads_once_def
proof (intro allI)
  fix s log
  obtain answer s' where read: "run_state (fs_read (logged fs) (proc_path pid ''status'')) (s, log) =
      (answer, (s', log @ [(proc_path pid ''status'', answer)]))"
    by (rule logged_read)
  show "\<exists>answer s' e. run_state (read_status_id (logged fs) pid label) (s, log) =
      (e, (s', log @ [(proc_path pid ''status'', answer)])) \<and> evidence_of answer (id_says label) e"
    by (rule exI [of _ answer], rule exI [of _ s'])
       (cases answer; simp add: read_status_id_def read_status_ids_def read Let_def status_ids_say evidence_of_def [of "Inl _"])
qed

lemma executable_path_reads:
  "reads_once (executable_path (logged fs) pid) (proc_path pid ''exe'') (\<lambda>answer. evidence_of answer link_says)"
  unfolding reads_once_def
proof (intro allI)
  fix s log
  obtain answer s' where read: "run_state (fs_read_link (logged fs) (proc_path pid ''exe'')) (s, log) =
      (answer, (s', log @ [(proc_path pid ''exe'', answer)]))"
    by (rule logged_read_link)
  show "\<exists>answer s' e. run_state (executable_path (logged fs) pid) (s, log) =
      (e, (s', log @ [(proc_path pid ''exe'', answer)])) \<and> evidence_of answer link_says e"
    by (rule exI [of _ answer], rule exI [of _ s'])
       (cases answer; simp add: executable_path_def read evidence_of_def link_says_def)
qed

lemma cgroup_path_reads:
  "reads_once (cgroup_path (logged fs) pid) (proc_path pid ''cgroup'') (\<lambda>answer. evidence_of answer cgroup_says)"
  unfolding reads_once_def
proof (intro allI)
  fix s log
  obtain answer s' where read: "run_state (fs_read (logged fs) (proc_path pid ''cgroup'')) (s, log) =
      (answer, (s', log @ [(proc_path pid ''cgroup'', answer)]))"
    by (rule logged_read)
  show "\<exists>answer s' e. run_state (cgroup_path (logged fs) pid) (s, log) =
      (e, (s', log @ [(proc_path pid ''cgroup'', answer)])) \<and> evidence_of answer cgroup_says e"
    by (rule exI [of _ answer], rule exI [of _ s'])
       (cases answer; simp add: cgroup_path_def read cgroup_text_says evidence_of_def [of "Inl _"])
qed

section \<open>The ancestors against the log\<close>

text \<open>The ancestors a log of the walk tells of, with at most \<open>n\<close> of them: the parent the stat file of the
  current process names, unless it is zero or was met before; its start and its executable; and so on
  from there.\<close>

fun walk_says :: "nat \<Rightarrow> u32 set \<Rightarrow> u32 \<Rightarrow> process_ancestor list \<Rightarrow> read_log \<Rightarrow> bool" where
  "walk_says 0 seen current as log \<longleftrightarrow> as = [] \<and> log = []"
| "walk_says (Suc n) seen current as log \<longleftrightarrow>
     (\<exists>answer rest. log = (proc_path current ''stat'', answer) # rest \<and>
        (if \<exists>raw parent start. answer = Inr raw \<and> stat_says raw parent start \<and> parent \<noteq> 0 \<and> parent \<notin> seen
         then \<exists>a as' start target rest'. as = a # as' \<and>
           (\<exists>raw t. answer = Inr raw \<and> stat_says raw (pa_pid a) t) \<and>
           rest = (proc_path (pa_pid a) ''stat'', start) # (proc_path (pa_pid a) ''exe'', target) # rest' \<and>
           evidence_of start start_says (pa_start a) \<and> evidence_of target link_says (pa_executable_path a) \<and>
           walk_says n (insert (pa_pid a) seen) (pa_pid a) as' rest'
         else as = [] \<and> rest = []))"

lemma ancestry_loop_reads:
  "\<exists>as s' walk. run_state (ancestry_loop (logged fs) n seen current out) (s, log) = (out @ as, (s', log @ walk)) \<and>
     walk_says n seen current as walk"
proof (induction n arbitrary: seen current out s log)
  case (Suc n)
  obtain answer s1 found where parent: "run_state (parent_pid (logged fs) current) (s, log) =
      (found, (s1, log @ [(proc_path current ''stat'', answer)]))"
    and found: "\<forall>parent. found = Some parent \<longleftrightarrow> (\<exists>raw start. answer = Inr raw \<and> stat_says raw parent start)"
    by (rule reads_onceE [OF parent_pid_reads [of fs current], of s log])
  show ?case
  proof (cases "\<exists>p. found = Some p \<and> p \<noteq> 0 \<and> p \<notin> seen")
    case False
    then have "\<not> (\<exists>raw parent start. answer = Inr raw \<and> stat_says raw parent start \<and> parent \<noteq> 0 \<and> parent \<notin> seen)"
      using found by metis
    then show ?thesis
      using False by (intro exI [of _ "[]"] exI [of _ s1] exI [of _ "[(proc_path current ''stat'', answer)]"])
        (auto simp: parent split: option.splits)
  next
    case True
    then obtain p where p: "found = Some p" "p \<noteq> 0" "p \<notin> seen" by blast
    obtain start s2 st where st: "run_state (process_start (logged fs) p)
        (s1, log @ [(proc_path current ''stat'', answer)]) =
        (st, (s2, (log @ [(proc_path current ''stat'', answer)]) @ [(proc_path p ''stat'', start)]))"
      and st_says: "evidence_of start start_says st"
      by (rule reads_onceE [OF process_start_reads [of fs p]])
    obtain target s3 ex where ex: "run_state (executable_path (logged fs) p)
        (s2, (log @ [(proc_path current ''stat'', answer)]) @ [(proc_path p ''stat'', start)]) =
        (ex, (s3, ((log @ [(proc_path current ''stat'', answer)]) @ [(proc_path p ''stat'', start)]) @
          [(proc_path p ''exe'', target)]))"
      and ex_says: "evidence_of target link_says ex"
      by (rule reads_onceE [OF executable_path_reads [of fs p]])
    let ?a = "\<lparr>pa_pid = p, pa_start = st, pa_executable_path = ex\<rparr>"
    let ?log = "((log @ [(proc_path current ''stat'', answer)]) @ [(proc_path p ''stat'', start)]) @
          [(proc_path p ''exe'', target)]"
    obtain as s' walk where rest: "run_state (ancestry_loop (logged fs) n (insert p seen) p (out @ [?a])) (s3, ?log) =
        ((out @ [?a]) @ as, (s', ?log @ walk))" and says: "walk_says n (insert p seen) p as walk"
      using Suc.IH by blast
    have "\<exists>raw t. answer = Inr raw \<and> stat_says raw p t" using found p(1) by blast
    moreover from this have "\<exists>raw parent start. answer = Inr raw \<and> stat_says raw parent start \<and> parent \<noteq> 0 \<and> parent \<notin> seen"
      using p(2,3) by blast
    ultimately have "walk_says (Suc n) seen current (?a # as)
        ((proc_path current ''stat'', answer) # (proc_path p ''stat'', start) # (proc_path p ''exe'', target) # walk)"
      using st_says ex_says says by simp
    moreover have "run_state (ancestry_loop (logged fs) (Suc n) seen current out) (s, log) =
        (out @ (?a # as), (s', log @ ((proc_path current ''stat'', answer) # (proc_path p ''stat'', start) #
          (proc_path p ''exe'', target) # walk)))"
      using p(2,3) st ex rest by (simp add: parent p(1))
    ultimately show ?thesis by blast
  qed
qed simp

lemma context_reads:
  obtains ctx s' stat status1 status2 exe walk cgroup where
    "run_state (collect_execution_context (logged fs) k) (s, []) =
       (ctx, (s', [(proc_path k ''stat'', stat), (proc_path k ''status'', status1), (proc_path k ''status'', status2),
          (proc_path k ''exe'', exe)] @ walk @ [(proc_path k ''cgroup'', cgroup)]))"
    and "wi_pid (ec_workload ctx) = k" and "evidence_of stat start_says (wi_process_start (ec_workload ctx))"
    and "evidence_of status1 (id_says ''Uid:'') (wi_uid (ec_workload ctx))"
    and "evidence_of status2 (id_says ''Gid:'') (wi_gid (ec_workload ctx))"
    and "evidence_of exe link_says (wi_executable_path (ec_workload ctx))"
    and "walk_says 32 {k} k (wi_ancestry (ec_workload ctx)) walk"
    and "evidence_of cgroup cgroup_says (ec_cgroup_path ctx)"
    and "\<not> is_present (wi_executable_hash (ec_workload ctx))" and "\<not> is_present (ec_namespace_hint ctx)"
    and "\<not> is_present (ec_container_hint ctx)" and "\<not> is_present (ec_session_origin ctx)"
proof -
  define l1 :: read_log where "l1 = []"
  obtain stat s1 start where a1: "run_state (process_start (logged fs) k) (s, l1) =
      (start, (s1, l1 @ [(proc_path k ''stat'', stat)]))" "evidence_of stat start_says start"
    by (rule reads_onceE [OF process_start_reads [of fs k]])
  define l2 where "l2 = l1 @ [(proc_path k ''stat'', stat)]"
  obtain status1 s2 u where a2: "run_state (read_status_id (logged fs) k ''Uid:'') (s1, l2) =
      (u, (s2, l2 @ [(proc_path k ''status'', status1)]))" "evidence_of status1 (id_says ''Uid:'') u"
    by (rule reads_onceE [OF status_id_reads [of fs k "''Uid:''"]])
  define l3 where "l3 = l2 @ [(proc_path k ''status'', status1)]"
  obtain status2 s3 g where a3: "run_state (read_status_id (logged fs) k ''Gid:'') (s2, l3) =
      (g, (s3, l3 @ [(proc_path k ''status'', status2)]))" "evidence_of status2 (id_says ''Gid:'') g"
    by (rule reads_onceE [OF status_id_reads [of fs k "''Gid:''"]])
  define l4 where "l4 = l3 @ [(proc_path k ''status'', status2)]"
  obtain exe s4 path where a4: "run_state (executable_path (logged fs) k) (s3, l4) =
      (path, (s4, l4 @ [(proc_path k ''exe'', exe)]))" "evidence_of exe link_says path"
    by (rule reads_onceE [OF executable_path_reads [of fs k]])
  define l5 where "l5 = l4 @ [(proc_path k ''exe'', exe)]"
  obtain as s5 walk where a5: "run_state (ancestry (logged fs) k) (s4, l5) = (as, (s5, l5 @ walk))"
      "walk_says 32 {k} k as walk"
    using ancestry_loop_reads [of fs 32 "{k}" k "[]" s4 l5]
    by (auto simp: ancestry_def MAX_ANCESTRY_DEPTH_def)
  define l6 where "l6 = l5 @ walk"
  obtain cgroup s6 cg where a6: "run_state (cgroup_path (logged fs) k) (s5, l6) =
      (cg, (s6, l6 @ [(proc_path k ''cgroup'', cgroup)]))" "evidence_of cgroup cgroup_says cg"
    by (rule reads_onceE [OF cgroup_path_reads [of fs k]])
  define l7 where "l7 = l6 @ [(proc_path k ''cgroup'', cgroup)]"
  let ?w = "\<lparr>wi_pid = k, wi_process_start = start, wi_uid = u, wi_gid = g, wi_executable_path = path,
      wi_executable_hash = executable_hash k, wi_ancestry = as\<rparr>"
  let ?ctx = "\<lparr>ec_workload = ?w, ec_cgroup_path = cg, ec_namespace_hint = EvidenceUnsupported,
      ec_container_hint = EvidenceUnsupported, ec_session_origin = EvidenceUnsupported\<rparr>"
  note logs = l2_def [symmetric] l3_def [symmetric] l4_def [symmetric] l5_def [symmetric]
    l6_def [symmetric] l7_def [symmetric]
  have gathered: "run_state (collect_execution_context (logged fs) k) (s, l1) = (?ctx, (s6, l7))"
    by (simp only: collect_execution_context_def collect_workload_identity_def run_state_bind split_beta
        a1(1) a2(1) a3(1) a4(1) a5(1) a6(1) logs fst_conv snd_conv run_state_return)
  have log7: "l7 = [(proc_path k ''stat'', stat), (proc_path k ''status'', status1),
      (proc_path k ''status'', status2), (proc_path k ''exe'', exe)] @ walk @
      [(proc_path k ''cgroup'', cgroup)]"
    by (simp add: l7_def l6_def l5_def l4_def l3_def l2_def l1_def)
  show thesis
    by (rule that [OF gathered [unfolded log7 l1_def]])
       (simp_all add: a1(2) a2(2) a3(2) a4(2) a5(2) a6(2) executable_hash_def)
qed

section \<open>Properties\<close>

text \<open>C32. Every value in the context of a peer is what the kernel gave about the process of the kernel's
  credential, and nothing the kernel gave is left out. The reads are, in this order: its stat file, its
  status file twice, its executable, the walk over its ancestors, its control group, and only for the
  reconciliation something after that. The start time, the real uid and gid, the executable, the control
  group, and the process, start and executable of every ancestor are each what the answer of their own
  read says: present with that value if it says one, and missing if the read failed or says none. The
  walk ends only where a stat file names no parent, or zero, or one already met, or after 32 ancestors.
  What the collector does not read is not present.\<close>

theorem collected_evidence_is_the_kernels:
  assumes "run_state (collect_peer_context (logged fs) (Inr (raw_pid, uid, gid))) (s, []) = (Inr peer, (s', log))"
    and "pid = cred_pid (pc_credential peer)" and "ctx = pc_observed peer" and "w = ec_workload ctx"
  shows "wi_pid w = pid \<and> pid = (if 0 \<le> raw_pid \<and> raw_pid < 2 ^ 32 then of_int raw_pid else 0) \<and>
    cred_effective_uid (pc_credential peer) = uid \<and> cred_effective_gid (pc_credential peer) = gid \<and>
    (\<exists>stat status1 status2 exe walk cgroup rest.
       log = [(proc_path pid ''stat'', stat), (proc_path pid ''status'', status1),
              (proc_path pid ''status'', status2), (proc_path pid ''exe'', exe)] @ walk @
             (proc_path pid ''cgroup'', cgroup) # rest \<and>
       evidence_of stat start_says (wi_process_start w) \<and>
       evidence_of status1 (id_says ''Uid:'') (wi_uid w) \<and>
       evidence_of status2 (id_says ''Gid:'') (wi_gid w) \<and>
       evidence_of exe link_says (wi_executable_path w) \<and>
       walk_says 32 {pid} pid (wi_ancestry w) walk \<and>
       evidence_of cgroup cgroup_says (ec_cgroup_path ctx)) \<and>
    \<not> is_present (wi_executable_hash w) \<and> \<not> is_present (ec_namespace_hint ctx) \<and>
    \<not> is_present (ec_container_hint ctx) \<and> \<not> is_present (ec_session_origin ctx)"
proof -
  define k :: u32 where "k = (if 0 \<le> raw_pid \<and> raw_pid < 2 ^ 32 then of_int raw_pid else 0)"
  obtain c s1 stat status1 status2 exe walk cgroup where gathered:
    "run_state (collect_execution_context (logged fs) k) (s, []) =
       (c, (s1, [(proc_path k ''stat'', stat), (proc_path k ''status'', status1), (proc_path k ''status'', status2),
          (proc_path k ''exe'', exe)] @ walk @ [(proc_path k ''cgroup'', cgroup)]))" (is "_ = (_, (_, ?log))")
    and says: "wi_pid (ec_workload c) = k" "evidence_of stat start_says (wi_process_start (ec_workload c))"
      "evidence_of status1 (id_says ''Uid:'') (wi_uid (ec_workload c))"
      "evidence_of status2 (id_says ''Gid:'') (wi_gid (ec_workload c))"
      "evidence_of exe link_says (wi_executable_path (ec_workload c))"
      "walk_says 32 {k} k (wi_ancestry (ec_workload c)) walk" "evidence_of cgroup cgroup_says (ec_cgroup_path c)"
      "\<not> is_present (wi_executable_hash (ec_workload c))" "\<not> is_present (ec_namespace_hint c)"
      "\<not> is_present (ec_container_hint c)" "\<not> is_present (ec_session_origin c)"
    by (rule context_reads [of fs k s])
  obtain status3 s2 where last: "run_state (fs_read (logged fs) (proc_path k ''status'')) (s1, ?log) =
      (status3, (s2, ?log @ [(proc_path k ''status'', status3)]))"
    by (rule logged_read)
  have unfolded: "collect_peer_context (logged fs) (Inr (raw_pid, uid, gid)) =
      do {
        observed \<leftarrow> collect_execution_context (logged fs) k;
        if k = 0 then State_Monad.return (Inr (peer_unmapped (from_kernel k uid gid) observed))
        else do {
          ids \<leftarrow> read_status_ids (logged fs) k ''Uid:'';
          State_Monad.return (Inr (from_kernel_observation (from_kernel k uid gid) observed (fst ids) (snd ids)))
        }
      }"
    by (simp add: collect_peer_context_def k_def Let_def)
  have collected: "ctx = c \<and> pc_credential peer = from_kernel k uid gid \<and> (\<exists>rest. log = ?log @ rest)"
    using assms(1,3) gathered last
    by (cases "k = 0")
       (auto simp: unfolded peer_unmapped_def from_kernel_observation_def read_status_ids_def split_beta)
  then have same: "pid = k" "w = ec_workload c" "ctx = c" "cred_effective_uid (pc_credential peer) = uid"
      "cred_effective_gid (pc_credential peer) = gid"
    using assms(2-4) by (simp_all add: from_kernel_def)
  obtain rest where "log = ?log @ rest" using collected by blast
  then show ?thesis unfolding same k_def [symmetric] using says by auto
qed

lemma collected_evidence_is_the_kernels_witness:
  "\<exists>peer log. run_state (collect_peer_context (logged (demo_fs [] [])) (Inr (7, 0, 0))) ((), []) =
      (Inr peer, ((), log)) \<and> wi_pid (ec_workload (pc_observed peer)) = 7 \<and>
    (\<exists>stat rest. log = (proc_path 7 ''stat'', stat) # rest \<and>
       evidence_of stat start_says (wi_process_start (ec_workload (pc_observed peer))))"
proof -
  obtain r s' log where run: "run_state (collect_peer_context (logged (demo_fs [] [])) (Inr (7, 0, 0))) ((), []) =
      (r, (s', log))" by (metis surj_pair)
  moreover from run obtain peer where "r = Inr peer" "cred_pid (pc_credential peer) = 7"
    by (auto simp: collect_peer_context_def from_kernel_observation_def from_kernel_def Let_def split_beta)
  ultimately have "run_state (collect_peer_context (logged (demo_fs [] [])) (Inr (7, 0, 0))) ((), []) =
      (Inr peer, ((), log))" and pid: "cred_pid (pc_credential peer) = 7" by simp_all
  moreover have "\<exists>stat rest. log = (proc_path 7 ''stat'', stat) # rest \<and>
      evidence_of stat start_says (wi_process_start (ec_workload (pc_observed peer)))"
    using collected_evidence_is_the_kernels [OF calculation(1) refl refl refl, unfolded pid, THEN conjunct2, THEN conjunct2,
        THEN conjunct2, THEN conjunct2, THEN conjunct1] by auto
  moreover have "wi_pid (ec_workload (pc_observed peer)) = 7"
    using collected_evidence_is_the_kernels [OF calculation(1) refl refl refl, THEN conjunct1] pid by simp
  ultimately show ?thesis by blast
qed

end
