(* ===== verification/Spec2Isabelle.thy ===== *)
theory Spec2Isabelle
  imports
    Eltanin_Service_Audit Eltanin_Leased_Run Eltanin_Signals Eltanin_Profile_Text
    Eltanin_Agentd Eltanin_Probe Eltanin_Linux_Evidence
begin

text \<open>
  A verification library of Eltanin, a local authorization agent for compute accelerators, and of its
  launcher (a Rust workspace, \<open>crates/\<close>).

  \<^bold>\<open>The program.\<close> An agent (\<open>eltanin-agent\<close>) listens on a Unix socket. A client asks it for a lease on a
  protected resource. The agent learns from the kernel who the peer is (\<open>eltanin-linux\<close>,
  \<open>eltanin-macos\<close>), evaluates a default-deny policy on that evidence (\<open>eltanin-core\<close>), reserves a slot,
  issues a lease bound to the process, has a backend enforce it (\<open>eltanin-backend\<close>,
  \<open>eltanin-apple\<close>), answers with the time that is left (\<open>eltanin-protocol\<close>) and writes an audit record
  (\<open>eltanin-audit\<close>). The launcher (\<open>eltanin-cli\<close>) starts a workload only under a granted lease,
  renews the lease while the workload runs, terminates the workload when the authorization lapses, and
  releases the lease.

  \<^bold>\<open>The theories, in the order of the layers, and the sources they model.\<close>
  \<^item> \<open>Eltanin_Prelude\<close>, \<open>Eltanin_Text\<close>, \<open>Eltanin_Lines\<close>, \<open>Eltanin_Utf8\<close>: machine integers, results, hash maps
    as association lists, and the operations on text of the standard library the sources call.
  \<^item> \<open>Eltanin_Resource\<close> (\<open>core/resource.rs\<close>, \<open>envelope.rs\<close>), \<open>Eltanin_Identity\<close> (\<open>identity.rs\<close>,
    \<open>provenance.rs\<close>), \<open>Eltanin_Peer\<close> (\<open>peer.rs\<close>), \<open>Eltanin_Policy\<close> (\<open>policy.rs\<close>), \<open>Eltanin_Lease\<close>
    (\<open>lease.rs\<close>): the domain. The verdict of the policy is refined from a specification on sets of rules;
    validity of a lease is characterised, and is final once lost.
  \<^item> \<open>Eltanin_Backend\<close> (\<open>backend/contract.rs\<close>, \<open>fake.rs\<close>, \<open>apple/backend.rs\<close>, \<open>device.rs\<close>): the contract is
    the locale \<open>compute_backend\<close>, interpreted by the fake backend and the Apple adapter.
    \<open>Eltanin_Probe\<close> (\<open>apple/probe.rs\<close>, \<open>bin/metal_workload_fixture.rs\<close>): what the compute probe verifies.
  \<^item> \<open>Eltanin_Protocol\<close> (\<open>protocol/framing.rs\<close>, \<open>request.rs\<close>, \<open>response.rs\<close>): frames and envelopes, with
    round trips.
  \<^item> \<open>Eltanin_Authz\<close> (\<open>agent/authz/state.rs\<close>, \<open>mod.rs\<close>, \<open>event.rs\<close>, \<open>handler.rs\<close>): the lease store and the
    handler, one request at a time, with its invariant over any history. \<open>Eltanin_Authz_Concurrent\<close>
    interleaves the critical sections of concurrent requests as a step relation. \<open>Eltanin_Ledger\<close> is
    what the agent promises its clients, as a ledger of leases without reservations, counters or locks:
    every interleaving refines it, and serving requests one after the other is one of them.
  \<^item> \<open>Eltanin_Connection\<close> (\<open>agent/connection.rs\<close>, \<open>cli/client.rs\<close>): one connection from both ends. The
    locale \<open>request_handler\<close> is the seam between transport and authorization.
  \<^item> \<open>Eltanin_Listener\<close> (\<open>agent/config.rs\<close>, \<open>listener.rs\<close>), \<open>Eltanin_Server\<close> (\<open>server.rs\<close>, \<open>daemon.rs\<close>),
    \<open>Eltanin_Runtime\<close> (\<open>runtime.rs\<close>), \<open>Eltanin_Agentd\<close> (\<open>bin/eltanin-agentd.rs\<close>): how the agent starts,
    accepts, ends, and is put together.
  \<^item> \<open>Eltanin_Linux\<close> (\<open>linux/lib.rs\<close>, \<open>peer.rs\<close>) and \<open>Eltanin_Macos\<close> (\<open>macos/lib.rs\<close>, \<open>peer.rs\<close>): the
    collectors of evidence. Both interpret the locale \<open>kernel_readers\<close>, which holds the laws of the walk
    over the ancestors. \<open>Eltanin_Linux_Evidence\<close> logs the reads of the Linux collector and compares every
    piece of evidence with what the text of its own read says.
  \<^item> \<open>Eltanin_Audit\<close> (\<open>audit/record.rs\<close>, \<open>sink.rs\<close>, \<open>explain.rs\<close>, \<open>agent/authz/audit.rs\<close>): the trail, its
    gaps and its reader. \<open>Eltanin_Audit_Log\<close> is the file below: opening it, the sinks that share it over
    restarts or at the same time, and what the sinks of the agent print.
  \<^item> \<open>Eltanin_System\<close>: the parts of the agent together. The locale \<open>peer_source\<close> holds the laws of a
    collector, and both platforms satisfy them; from them follows the whole path of a lease on Linux, from
    the socket and \<open>/proc\<close> to the store. The handler with its audit sink accounts for every lease.
  \<^item> \<open>Eltanin_Service\<close>: the running agent, as a step relation over the accept loop and any number of
    connection threads, each of which takes its request through the critical sections of the handler, the
    recording and the answer. Every run refines the ledger, the connection cap bounds the reservations,
    and one thread alone does what \<open>handle\<close> does. \<open>Eltanin_Service_Audit\<close> follows its audit log: while
    writes succeed every answer is on record first, by the thread that sends it, but a report on a broken
    standard error can hide a grant from its client.
  \<^item> \<open>Eltanin_Cli\<close> (\<open>cli/args.rs\<close>, \<open>profile.rs\<close>, \<open>exit.rs\<close>, \<open>failure.rs\<close>) and \<open>Eltanin_Supervise\<close>
    (\<open>supervise.rs\<close>, \<open>launch.rs\<close>, \<open>context.rs\<close>, \<open>main.rs\<close>): the launcher against an arbitrary outside
    world. The locale \<open>run_clock\<close> assumes of it that time does not go back and that a killed child ends (a
    wait for a child that was not killed may never return, which is the value None), \<open>finite_grants\<close> that only
    finitely many leases are granted before a clock runs out. \<open>Eltanin_Run_Agent\<close> interprets both on a
    world whose agent is the handler of \<open>Eltanin_Authz\<close>, and shows the guarantees of the whole: the
    workload runs only as far as the agent's policy allows, the local deadline is never later than the
    agent's, the launcher returns with the workload seen to exit even if it ignores the termination signal,
    and no lease is left behind by a run in which the agent answers one of the attempts to release.
  \<^item> \<open>Eltanin_Profile_Text\<close> (\<open>cli/profile.rs\<close>, \<open>failure.rs\<close>): the messages about a profile that cannot
    be loaded, with the components of a path.
  \<^item> \<open>Eltanin_Stages\<close> (\<open>cli/sequence.rs\<close>): the stages of a launch with their derived order, and the
    launch shown to go through them in order. \<open>Eltanin_Signals\<close> (\<open>cli/signals.rs\<close>): the channel of
    the signal handlers; the locale \<open>signal_queue\<close> holds what the supervision relies on, and a launcher
    with the channel satisfies it. \<open>Eltanin_Renewal\<close> and \<open>Eltanin_Leased_Run\<close>: a running workload is
    never without a lease; the locale \<open>launch_invariant\<close> lifts a predicate from the calls of a launch to
    the whole, for the fact that the agent grants no identifier twice.

  \<^bold>\<open>How state and errors appear.\<close> State is passed explicitly, as records named after the structs of the
  sources. A \<open>Result\<close> is \<open>('e, 'a) result\<close> with \<open>Inl\<close> for the error. Locks are atomicity: a definition is
  what happens under one acquisition. Reads of the outside (files, processes, \<open>libproc\<close>, sockets) are
  operations on a state, or arguments at the point where the code reads. A panic that the code catches is
  an outcome.

  \<^bold>\<open>Loops and bounds.\<close> Loops over data are structural or have a measure. The walk over the ancestors has
  fuel 32, which is the bound of the code (\<open>MAX_ANCESTRY_DEPTH\<close>). The poll loops of the launcher are
  partial functions that return an option, as does the wait for the workload; that they return is proved from the measure of the locale
  \<open>finite_grants\<close>, and without such an assumption only what holds of every value they return is stated.
  The drain of the server terminates because each sleep brings the deadline closer. Times are \<open>u64\<close>
  nanoseconds in the agent; a \<open>Duration\<close> and a \<open>usize\<close> are natural numbers.

  \<^bold>\<open>Assumptions.\<close> The JSON library is a record of its entry points; that decoding inverts encoding is a
  hypothesis of the round trips, with an instance in their witnesses. The clock does not go back. The
  counter of the lease issuer is assumed not to wrap where identifiers are said to be distinct. In the
  interleavings the backend may panic while it enforces and while it revokes; of an enforcement that
  panicked no effect on the device is kept.

  \<^bold>\<open>Not modelled.\<close> The serde attributes and the JSON text; the derived debug formatting (an argument of
  the rendering of \<open>eltanin-explain\<close> and of the sink on the standard error); what the signal-hook crate
  does with a signal before its iterator yields it; the constructors behind the feature
  \<open>test-support\<close>; Metal, the kernel and the file system beyond what the callers observe of them (the
  host of \<open>Eltanin_Listener\<close> and the world of \<open>Eltanin_Run_Agent\<close> say what that is); letter case
  beyond ASCII.
\<close>

end
